(* ===== verification/Prelude.thy ===== *)
theory Prelude
  imports Main "HOL-Library.Word" "HOL-Library.Signed_Division"
begin

unbundle bit_operations_syntax

text \<open>
  The vocabulary the components share: bytes and C strings, the error numbers of
  \<open>errno.h\<close>, the computations of the model (a state passed explicitly, with a
  third kind of outcome beside "returns" for runs that stop), the scan loop that all
  directory operations use, 32-bit signed arithmetic, slices of byte lists and the
  generic little-endian and array encodings.
\<close>

section \<open>Types\<close>

type_synonym byte = "8 word"
type_synonym u16 = "16 word"
type_synonym u32 = "32 word"
type_synonym cstring = "byte list"

text \<open>Facts that compute a run of the model step by step, and facts about widths.\<close>

named_theorems run_simps \<open>equations that execute the model's computations\<close>
named_theorems width_simps \<open>lengths of encoded structures\<close>

section \<open>Error numbers (Linux values)\<close>

abbreviation (input) ENOENT :: int where "ENOENT \<equiv> 2"
abbreviation (input) EIO :: int where "EIO \<equiv> 5"
abbreviation (input) EEXIST :: int where "EEXIST \<equiv> 17"
abbreviation (input) ENOTDIR :: int where "ENOTDIR \<equiv> 20"
abbreviation (input) EISDIR :: int where "EISDIR \<equiv> 21"
abbreviation (input) EINVAL :: int where "EINVAL \<equiv> 22"
abbreviation (input) ENOSPC :: int where "ENOSPC \<equiv> 28"
abbreviation (input) ENOTEMPTY :: int where "ENOTEMPTY \<equiv> 39"
abbreviation (input) EOPNOTSUPP :: int where "EOPNOTSUPP \<equiv> 95"

section \<open>Computations\<close>

text \<open>
  A C function that may touch the disk is a function of the state that returns the new
  state together with either its result (\<open>Inr\<close>) or the way the process stopped
  (\<open>Inl\<close>): a failed \<open>assert\<close>, a call of \<open>exit\<close>, or undefined behaviour (an
  access outside the C object it is meant for, which the C standard leaves open).
\<close>

datatype stop = Abort | Exit int | Undef

type_synonym ('s, 'a) io = "'s \<Rightarrow> (stop + 'a) \<times> 's"

definition ret :: "'a \<Rightarrow> ('s, 'a) io" where
  "ret x s = (Inr x, s)"

definition halt :: "stop \<Rightarrow> ('s, 'a) io" where
  "halt e s = (Inl e, s)"

definition andThen :: "('s, 'a) io \<Rightarrow> ('a \<Rightarrow> ('s, 'b) io) \<Rightarrow> ('s, 'b) io" where
  "andThen m f s = (case m s of (Inl e, t) \<Rightarrow> (Inl e, t) | (Inr x, t) \<Rightarrow> f x t)"

lemma ret_run [run_simps]: "ret x s = (Inr x, s)"
  by (simp add: ret_def)

lemma halt_run [run_simps]: "halt e s = (Inl e, s)"
  by (simp add: halt_def)

lemma andThen_ret [simp]: "andThen (ret x) f = f x"
  by (simp add: andThen_def ret_def fun_eq_iff)

lemma andThen_halt [simp]: "andThen (halt e) f = halt e"
  by (simp add: andThen_def halt_def fun_eq_iff)

lemma andThen_return: "m s = (Inr x, t) \<Longrightarrow> andThen m f s = f x t"
  by (simp add: andThen_def)

lemma andThen_stop: "m s = (Inl e, t) \<Longrightarrow> andThen m f s = (Inl e, t)"
  by (simp add: andThen_def)

lemma andThen_assoc: "andThen (andThen m f) g = andThen m (\<lambda>x. andThen (f x) g)"
  by (auto simp: andThen_def fun_eq_iff split: prod.splits sum.splits)

lemma andThen_InrE:
  assumes "andThen m f s = (Inr y, u)"
  obtains x t where "m s = (Inr x, t)" and "f x t = (Inr y, u)"
  using assms by (auto simp: andThen_def split: prod.splits sum.splits)

text \<open>
  An invariant of the state that a computation keeps, whatever way it ends.
\<close>

definition keeps :: "('s \<Rightarrow> bool) \<Rightarrow> ('s, 'a) io \<Rightarrow> bool" where
  "keeps P m \<longleftrightarrow> (\<forall>s. P s \<longrightarrow> P (snd (m s)))"

lemma keepsI: "(\<And>s. P s \<Longrightarrow> P (snd (m s))) \<Longrightarrow> keeps P m"
  by (simp add: keeps_def)

lemma keepsD: "keeps P m \<Longrightarrow> P s \<Longrightarrow> P (snd (m s))"
  by (simp add: keeps_def)

lemma keeps_ret [intro]: "keeps P (ret x)"
  by (simp add: keeps_def ret_def)

lemma keeps_halt [intro]: "keeps P (halt e)"
  by (simp add: keeps_def halt_def)

lemma keeps_andThen [intro]:
  assumes "keeps P m" and "\<And>x. keeps P (f x)"
  shows "keeps P (andThen m f)"
proof (rule keepsI)
  fix s assume "P s"
  with assms(1) have "P (snd (m s))" by (rule keepsD)
  then show "P (snd (andThen m f s))"
    using assms(2) by (auto simp: andThen_def keeps_def split: prod.splits sum.splits)
qed

lemma keeps_if [intro]: "keeps P m \<Longrightarrow> keeps P n \<Longrightarrow> keeps P (if b then m else n)"
  by simp

section \<open>The scan loop\<close>

text \<open>
  \<open>k = 0; while (k < n) { if (p(a[k])) break; k++; }\<close>: the index of the first element
  that satisfies \<open>p\<close>, or the length when there is none.
\<close>

fun scan :: "('a \<Rightarrow> bool) \<Rightarrow> 'a list \<Rightarrow> nat" where
  "scan p [] = 0"
| "scan p (x # xs) = (if p x then 0 else Suc (scan p xs))"

lemma scan_le: "scan p xs \<le> length xs"
  by (induction xs) auto

lemma scan_hit: "scan p xs < length xs \<Longrightarrow> p (xs ! scan p xs)"
  by (induction xs) auto

lemma scan_before: "i < scan p xs \<Longrightarrow> \<not> p (xs ! i)"
  by (induction xs arbitrary: i) (auto simp: nth_Cons split: nat.splits if_splits)

lemma scan_less_iff: "scan p xs < length xs \<longleftrightarrow> (\<exists>x\<in>set xs. p x)"
  by (induction xs) auto

lemma scan_miss_iff: "length xs \<le> scan p xs \<longleftrightarrow> (\<forall>x\<in>set xs. \<not> p x)"
  using scan_less_iff [of p xs] by (meson linorder_not_less)

lemma scan_unique:
  assumes "i < length xs" and "p (xs ! i)"
    and "\<And>j. j < length xs \<Longrightarrow> p (xs ! j) \<Longrightarrow> j = i"
  shows "scan p xs = i"
proof -
  have "scan p xs < length xs"
    using assms(1,2) by (auto simp: scan_less_iff)
  then show ?thesis
    using scan_hit assms(3) by blast
qed

section \<open>Signed 32-bit integers\<close>

text \<open>
  C \<open>int\<close> values are mathematical integers here; where an operation can leave the
  range the result is wrapped to 32 bits, as the code compiled by the Makefile does.
\<close>

definition wrap32 :: "int \<Rightarrow> int" where
  "wrap32 x = sint (word_of_int x :: 32 word)"

lemma wrap32_id [simp]: "- (2 ^ 31) \<le> x \<Longrightarrow> x < 2 ^ 31 \<Longrightarrow> wrap32 x = x"
  by (simp add: wrap32_def sint_sbintrunc' signed_take_bit_int_eq_self)

text \<open>The macro \<open>DIV_ROUND_UP\<close> of \<open>fs5600.h\<close> at \<open>int\<close> operands.\<close>

definition DIV_ROUND_UP :: "int \<Rightarrow> int \<Rightarrow> int" where
  "DIV_ROUND_UP N M = wrap32 (N + M - 1) sdiv M"

end
