(* ===== verification/Encoding.thy ===== *)
theory Encoding
  imports Prelude
begin

text \<open>
  Byte encodings of C objects: slices of a buffer, little-endian machine integers,
  arrays of fixed-width elements. The locale \<open>codec\<close> is the contract of every
  structure that the file system stores in a block (\<open>struct fs_inode\<close>,
  \<open>struct fs_dirent\<close>, arrays of them): decoding inverts encoding, encoding inverts
  decoding, and the width is fixed.
\<close>

section \<open>Slices\<close>

definition slice :: "byte list \<Rightarrow> nat \<Rightarrow> nat \<Rightarrow> byte list" where
  "slice bs off n = take n (drop off bs)"

lemma length_slice [simp]: "length (slice bs off n) = min n (length bs - off)"
  by (simp add: slice_def)

lemma slice_0 [simp]: "length xs = n \<Longrightarrow> slice (xs @ ys) 0 n = xs"
  by (simp add: slice_def)

lemma slice_skip [simp]: "length xs \<le> off \<Longrightarrow> slice (xs @ ys) off n = slice ys (off - length xs) n"
  by (simp add: slice_def)

lemma slice_whole [simp]: "length xs = n \<Longrightarrow> slice xs 0 n = xs"
  by (simp add: slice_def)

lemma slice_nth: "i < n \<Longrightarrow> off + n \<le> length bs \<Longrightarrow> slice bs off n ! i = bs ! (off + i)"
  by (simp add: slice_def)

lemma slice_slice: "off + n \<le> m \<Longrightarrow> slice (slice bs o' m) off n = slice bs (o' + off) n"
  by (simp add: slice_def drop_take min_def add.commute)

lemma slice_append_slice: "slice bs off m @ slice bs (off + m) n = slice bs off (m + n)"
  by (simp add: slice_def take_add add.commute)

section \<open>Little-endian words\<close>

definition le_bytes :: "nat \<Rightarrow> 'a::len word \<Rightarrow> byte list" where
  "le_bytes n w = map (\<lambda>k. ucast (drop_bit (8 * k) w)) [0..<n]"

fun le_word :: "byte list \<Rightarrow> 'a::len word" where
  "le_word [] = 0"
| "le_word (b # bs) = ucast b OR push_bit 8 (le_word bs)"

lemma length_le_bytes [simp, width_simps]: "length (le_bytes n w) = n"
  by (simp add: le_bytes_def)

lemma bit_le_word:
  "bit (le_word bs :: 'a::len word) i \<longleftrightarrow>
     i < LENGTH('a) \<and> i < 8 * length bs \<and> bit (bs ! (i div 8)) (i mod 8)"
proof (induction bs arbitrary: i)
  case Nil
  then show ?case by simp
next
  case (Cons b bs)
  show ?case
  proof (cases "i < 8")
    case True
    then show ?thesis by (auto simp: bit_simps)
  next
    case False
    then have "i div 8 = Suc ((i - 8) div 8)" and "i mod 8 = (i - 8) mod 8"
      by (simp_all add: le_div_geq le_mod_geq)
    moreover have "\<not> bit b i"
      using False bit_imp_le_length [of b i] by auto
    ultimately show ?thesis
      using False Cons.IH [of "i - 8"] by (auto simp: bit_simps)
  qed
qed

lemma le_word_le_bytes [simp]:
  assumes "LENGTH('a) \<le> 8 * n"
  shows "le_word (le_bytes n (w :: 'a::len word)) = w"
proof (rule bit_word_eqI)
  fix i assume "i < LENGTH('a)"
  moreover from this assms have "i div 8 < n" by linarith
  moreover have "8 * (i div 8) + i mod 8 = i" by simp
  ultimately show "bit (le_word (le_bytes n w) :: 'a word) i = bit w i"
    using assms by (simp add: bit_le_word le_bytes_def bit_simps)
qed

lemma le_bytes_le_word:
  assumes "8 * length bs = LENGTH('a)" and "n = length bs"
  shows "le_bytes n (le_word bs :: 'a::len word) = bs"
proof (rule nth_equalityI)
  show "length (le_bytes n (le_word bs :: 'a word)) = length bs"
    using assms by simp
next
  fix k assume "k < length (le_bytes n (le_word bs :: 'a word))"
  then have k: "k < length bs" using assms by simp
  show "le_bytes n (le_word bs :: 'a word) ! k = bs ! k"
  proof (rule bit_word_eqI)
    fix i assume "i < LENGTH(8)"
    then have i: "i < 8" by simp
    then have "(8 * k + i) div 8 = k" and "(8 * k + i) mod 8 = i"
      by simp_all
    moreover have "8 * k + i < 8 * length bs" using k i by linarith
    ultimately show "bit (le_bytes n (le_word bs :: 'a word) ! k) i = bit (bs ! k) i"
      using assms k i by (simp add: le_bytes_def bit_simps bit_le_word)
  qed
qed

section \<open>Arrays of fixed-width elements\<close>

definition encode_array :: "('a \<Rightarrow> byte list) \<Rightarrow> 'a list \<Rightarrow> byte list" where
  "encode_array enc xs = concat (map enc xs)"

definition decode_array :: "nat \<Rightarrow> (byte list \<Rightarrow> 'a) \<Rightarrow> nat \<Rightarrow> byte list \<Rightarrow> 'a list" where
  "decode_array w dec n bs = map (\<lambda>i. dec (slice bs (w * i) w)) [0..<n]"

lemma length_decode_array [simp]: "length (decode_array w dec n bs) = n"
  by (simp add: decode_array_def)

lemma nth_decode_array [simp]:
  "i < n \<Longrightarrow> decode_array w dec n bs ! i = dec (slice bs (w * i) w)"
  by (simp add: decode_array_def)

lemma concat_slices:
  "w * n \<le> length bs \<Longrightarrow> concat (map (\<lambda>i. slice bs (w * i) w) [0..<n]) = take (w * n) bs"
proof (induction n)
  case 0
  then show ?case by simp
next
  case (Suc n)
  then have "concat (map (\<lambda>i. slice bs (w * i) w) [0..<Suc n]) = take (w * n) bs @ slice bs (w * n) w"
    by simp
  then show ?case
    by (simp add: slice_def take_add [symmetric] add.commute)
qed

lemma length_concat_map:
  "(\<And>x. x \<in> set xs \<Longrightarrow> length (f x) = w) \<Longrightarrow> length (concat (map f xs)) = w * length xs"
  by (induction xs) auto

lemma slice_concat_map:
  assumes "\<And>x. x \<in> set xs \<Longrightarrow> length (f x) = w" and "i < length xs"
  shows "slice (concat (map f xs)) (w * i) w = f (xs ! i)"
  using assms
proof (induction xs arbitrary: i)
  case Nil
  then show ?case by simp
next
  case (Cons x xs)
  then show ?case
    by (cases i) auto
qed

section \<open>The contract of an encoding\<close>

locale codec =
  fixes enc :: "'a \<Rightarrow> byte list"
    and dec :: "byte list \<Rightarrow> 'a"
    and ok :: "'a \<Rightarrow> bool"
    and width :: nat
  assumes dec_enc: "ok x \<Longrightarrow> dec (enc x) = x"
    and enc_dec: "length bs = width \<Longrightarrow> enc (dec bs) = bs"
    and len_enc: "ok x \<Longrightarrow> length (enc x) = width"
    and ok_dec: "length bs = width \<Longrightarrow> ok (dec bs)"
begin

lemma enc_inj: "ok x \<Longrightarrow> ok y \<Longrightarrow> enc x = enc y \<Longrightarrow> x = y"
  using dec_enc by metis

lemma array_len:
  "list_all ok xs \<Longrightarrow> length xs = n \<Longrightarrow> length (encode_array enc xs) = width * n"
  using len_enc by (auto simp: encode_array_def list_all_iff intro!: length_concat_map)

lemma array_dec_enc:
  assumes "list_all ok xs" and "length xs = n"
  shows "decode_array width dec n (encode_array enc xs) = xs"
proof (rule nth_equalityI)
  show "length (decode_array width dec n (encode_array enc xs)) = length xs"
    using assms by simp
next
  fix i assume "i < length (decode_array width dec n (encode_array enc xs))"
  then have i: "i < length xs" using assms by simp
  have "slice (encode_array enc xs) (width * i) width = enc (xs ! i)"
    unfolding encode_array_def
    using assms i len_enc by (intro slice_concat_map) (auto simp: list_all_iff)
  with i assms show "decode_array width dec n (encode_array enc xs) ! i = xs ! i"
    by (simp add: dec_enc list_all_length)
qed

lemma slice_fits: "i < n \<Longrightarrow> length bs = width * n \<Longrightarrow> length (slice bs (width * i) width) = width"
proof -
  assume "i < n" and "length bs = width * n"
  then have "width * i + width \<le> length bs"
    using mult_le_mono2 [of "Suc i" n width] by simp
  then show ?thesis by simp
qed

lemma array_ok_dec: "length bs = width * n \<Longrightarrow> list_all ok (decode_array width dec n bs)"
  using ok_dec [OF slice_fits] by (simp add: list_all_length)

lemma array_enc_dec:
  assumes "length bs = width * n"
  shows "encode_array enc (decode_array width dec n bs) = bs"
proof -
  have "map enc (decode_array width dec n bs) = map (\<lambda>i. slice bs (width * i) width) [0..<n]"
    using enc_dec [OF slice_fits] assms by (simp add: decode_array_def)
  then show ?thesis
    using assms concat_slices [of width n bs] by (simp add: encode_array_def)
qed

end

interpretation u16_codec: codec "le_bytes 2 :: u16 \<Rightarrow> _" le_word "\<lambda>_. True" 2
  by unfold_locales (simp_all add: le_bytes_le_word)

interpretation u32_codec: codec "le_bytes 4 :: u32 \<Rightarrow> _" le_word "\<lambda>_. True" 4
  by unfold_locales (simp_all add: le_bytes_le_word)

end
