(* ===== verification/Disk.thy ===== *)
theory Disk
  imports Encoding
begin

text \<open>
  The block device of \<open>misc.c\<close>: the image file as numbered 4096-byte blocks,
  \<open>block_init\<close>, \<open>block_read\<close> and \<open>block_write\<close>, and the contract \<open>block_store\<close>
  that the components above rely on (what a read returns after a write).
  All calls in the sources pass \<open>nblks = 1\<close>, so the model's operations move one block.
\<close>

section \<open>The image\<close>

text \<open>
  \<open>history\<close> is what the model adds to the image: the writes that made it, in their order. No
  operation looks at it; it says what is on the disk when a run is cut short.
\<close>

abbreviation (input) FS_BLOCK_SIZE :: nat where "FS_BLOCK_SIZE \<equiv> 4096"

record disk =
  nblks :: nat
  blk :: "nat \<Rightarrow> byte list"
  history :: "(nat \<times> byte list) list"

definition zero_block :: "byte list" where
  "zero_block = replicate FS_BLOCK_SIZE 0"

text \<open>Every block of the image has the block size.\<close>

definition wf_disk :: "disk \<Rightarrow> bool" where
  "wf_disk d \<longleftrightarrow> (\<forall>i. length (blk d i) = FS_BLOCK_SIZE)"

text \<open>
  A write past the end of a regular file extends it, and the gap reads as zeros:
  \<open>lseek\<close> beyond the end is no error.
\<close>

definition put_block :: "nat \<Rightarrow> byte list \<Rightarrow> disk \<Rightarrow> disk" where
  "put_block l b d = d\<lparr>nblks := max (nblks d) (Suc l),
     blk := (\<lambda>i. if i = l then b else if nblks d \<le> i \<and> i < l then zero_block else blk d i),
     history := history d @ [(l, b)]\<rparr>"

definition get_block :: "nat \<Rightarrow> disk \<Rightarrow> byte list option" where
  "get_block l d = (if l < nblks d then Some (blk d l) else None)"

section \<open>Operations\<close>

text \<open>
  \<open>int start = lba * FS_BLOCK_SIZE\<close>, an \<open>int\<close> product. A negative start makes
  \<open>lseek\<close> fail, a start at or past the end makes \<open>read\<close> return short: both
  are \<open>-EIO\<close>, here \<open>None\<close>, and leave the buffer as it was.
\<close>

definition byte_start :: "int \<Rightarrow> int" where
  "byte_start lba = wrap32 (lba * int FS_BLOCK_SIZE)"

definition block_read :: "int \<Rightarrow> disk \<Rightarrow> byte list option" where
  "block_read lba d =
     (let start = byte_start lba in
      if start < 0 then None else get_block (nat start div FS_BLOCK_SIZE) d)"

definition block_write :: "byte list \<Rightarrow> int \<Rightarrow> (disk, int) io" where
  "block_write buf lba d =
     (if lba \<le> 0 then (Inl Abort, d)
      else let start = byte_start lba in
        if wrap32 (start + int FS_BLOCK_SIZE) < 0 then (Inr (- EIO), d)
        else if start < 0 then (Inr (- EIO), d)
        else (Inr 0, put_block (nat start div FS_BLOCK_SIZE) buf d))"

text \<open>
  \<open>block_init\<close>: the name must end in \<open>.img\<close> and the host must be able to open it.
  What the host's \<open>open\<close> finds is a parameter.
\<close>

definition img_suffix :: cstring where
  "img_suffix = [0x2E, 0x69, 0x6D, 0x67]"

definition block_init :: "(cstring \<Rightarrow> disk option) \<Rightarrow> cstring \<Rightarrow> stop + disk" where
  "block_init host file =
     (if length file < 4 \<or> drop (length file - 4) file \<noteq> img_suffix then Inl (Exit 1)
      else case host file of None \<Rightarrow> Inl (Exit 1) | Some d \<Rightarrow> Inr d)"

text \<open>
  The two ways the file system reads a block: with the return code checked
  (\<open>fetch\<close>), and with it ignored (\<open>load\<close>), where a failed read leaves the
  buffer's previous contents.
\<close>

definition fetch :: "int \<Rightarrow> (disk, byte list option) io" where
  "fetch lba d = (Inr (block_read lba d), d)"

definition load :: "byte list \<Rightarrow> int \<Rightarrow> (disk, byte list) io" where
  "load buf lba d = (Inr (case block_read lba d of None \<Rightarrow> buf | Some b \<Rightarrow> b), d)"

lemma fetch_run [run_simps]: "fetch lba d = (Inr (block_read lba d), d)"
  by (simp add: fetch_def)

lemma load_run [run_simps]:
  "load buf lba d = (Inr (case block_read lba d of None \<Rightarrow> buf | Some b \<Rightarrow> b), d)"
  by (simp add: load_def)

lemma keeps_fetch [intro]: "keeps P (fetch lba)"
  by (simp add: keeps_def fetch_def)

lemma keeps_load [intro]: "keeps P (load buf lba)"
  by (simp add: keeps_def load_def)

section \<open>Runs that are cut short\<close>

text \<open>Writing the blocks of a list, in its order.\<close>

primrec replay :: "(nat \<times> byte list) list \<Rightarrow> disk \<Rightarrow> disk" where
  "replay [] d = d"
| "replay (w # ws) d = replay ws (put_block (fst w) (snd w) d)"

text \<open>What \<open>m\<close> has written after its first \<open>k\<close> writes: the image if the process is killed there.\<close>

definition crash :: "nat \<Rightarrow> (disk, 'a) io \<Rightarrow> disk \<Rightarrow> disk" where
  "crash k m d = replay (take k (drop (length (history d)) (history (snd (m d))))) d"

text \<open>Only writes lead from the one disk to the other, and \<open>P\<close> holds before and after each.\<close>

inductive through :: "(disk \<Rightarrow> bool) \<Rightarrow> disk \<Rightarrow> disk \<Rightarrow> bool" for P where
  stays: "P d \<Longrightarrow> through P d d"
| writes: "P d \<Longrightarrow> through P (put_block l b d) d' \<Longrightarrow> through P d d'"

lemma history_put [simp]: "history (put_block l b d) = history d @ [(l, b)]"
  by (simp add: put_block_def)

lemma history_replay [simp]: "history (replay ws d) = history d @ ws"
  by (induction ws arbitrary: d) simp_all

lemma through_replay:
  assumes "through P d d'"
  shows "\<exists>ws. d' = replay ws d \<and> (\<forall>k. P (replay (take k ws) d))"
  using assms
proof induction
  case (stays d)
  then show ?case by (intro exI [of _ "[]"]) simp
next
  case (writes d l b d')
  then obtain ws where ws: "d' = replay ws (put_block l b d)" "\<forall>k. P (replay (take k ws) (put_block l b d))" by blast
  have "P (replay (take k ((l, b) # ws)) d)" for k using ws(2) writes.hyps(1) by (cases k) simp_all
  then show ?case using ws(1) by (intro exI [of _ "(l, b) # ws"]) simp
qed

lemma through_crash: "through P d (snd (m d)) \<Longrightarrow> P (crash k m d)"
  by (drule through_replay) (auto simp: crash_def)

lemma through_ends: "through P d d' \<Longrightarrow> P d \<and> P d'"
  by (induction rule: through.induct) simp_all

lemma through_trans: "through P d d1 \<Longrightarrow> through P d1 d2 \<Longrightarrow> through P d d2"
  by (induction rule: through.induct) (simp, metis writes)

lemma through_mono:
  assumes "through P d d'" and "\<And>x. P x \<Longrightarrow> Q x"
  shows "through Q d d'"
  using assms(1) by induction (use assms(2) in \<open>metis stays writes\<close>)+

lemma through_one: "P d \<Longrightarrow> P (put_block l b d) \<Longrightarrow> through P d (put_block l b d)"
  by (rule writes [OF _ stays])

lemma through_put:
  assumes "through P d d'" and "P (put_block l b d')"
  shows "through P d (put_block l b d')"
  using assms through_one through_ends [OF assms(1)] by (metis through_trans)

section \<open>Addresses in range\<close>

lemma byte_start_small: "0 \<le> lba \<Longrightarrow> lba < 2 ^ 19 \<Longrightarrow> byte_start lba = lba * 4096"
  by (simp add: byte_start_def)

lemma block_read_in_range:
  "0 \<le> lba \<Longrightarrow> lba < 2 ^ 19 \<Longrightarrow> block_read lba d = get_block (nat lba) d"
  by (simp add: block_read_def byte_start_small nat_mult_distrib)

lemma block_write_in_range:
  assumes "0 < lba" and "lba < 2 ^ 19 - 1"
  shows "block_write buf lba d = (Inr 0, put_block (nat lba) buf d)"
proof -
  have "byte_start lba = lba * 4096" using assms by (intro byte_start_small) auto
  moreover have "wrap32 (lba * 4096 + 4096) = lba * 4096 + 4096"
    using assms by (intro wrap32_id) auto
  ultimately show ?thesis
    using assms by (simp add: block_write_def nat_mult_distrib)
qed

lemma block_write_nonpos: "lba \<le> 0 \<Longrightarrow> block_write buf lba d = (Inl Abort, d)"
  by (simp add: block_write_def)

text \<open>The product wraps: this block number through the assertion and addresses block 0.\<close>

lemma block_write_alias: "block_write buf (2 ^ 20) d = (Inr 0, put_block 0 buf d)"
  by (simp add: block_write_def byte_start_def wrap32_def)

section \<open>The contract\<close>

text \<open>
  A store of blocks: what a read returns after a write, at the same and at another
  address. Addresses that were readable stay readable.
\<close>

locale block_store =
  fixes rd :: "nat \<Rightarrow> 'd \<Rightarrow> byte list option"
    and wr :: "nat \<Rightarrow> byte list \<Rightarrow> 'd \<Rightarrow> 'd"
  assumes rd_wr_same: "rd l (wr l b d) = Some b"
    and rd_wr_other: "i \<noteq> l \<Longrightarrow> rd i d = Some c \<Longrightarrow> rd i (wr l b d) = Some c"
begin

lemma rd_wr: "rd i d = Some c \<Longrightarrow> rd i (wr l b d) = Some (if i = l then b else c)"
  by (simp add: rd_wr_same rd_wr_other)

lemma rd_wr_defined: "rd i d \<noteq> None \<Longrightarrow> rd i (wr l b d) \<noteq> None"
  by (cases "rd i d") (auto simp: rd_wr)

lemma rd_wr_twice: "l \<noteq> m \<Longrightarrow> rd l (wr m c (wr l b d)) = Some b"
  by (simp add: rd_wr_same rd_wr_other)

lemma rd_foldr:
  "rd i d = Some c \<Longrightarrow> i \<notin> fst ` set us \<Longrightarrow> rd i (foldr (\<lambda>(l, b). wr l b) us d) = Some c"
  by (induction us) (auto simp: rd_wr_other split: prod.splits)

end

interpretation dev: block_store get_block put_block
  by unfold_locales (auto simp: get_block_def put_block_def split: if_splits)

text \<open>A typed view: a block that holds an encoded structure.\<close>

locale stored = block_store rd wr + codec enc dec ok width
  for rd :: "nat \<Rightarrow> 'd \<Rightarrow> byte list option" and wr :: "nat \<Rightarrow> byte list \<Rightarrow> 'd \<Rightarrow> 'd"
    and enc :: "'a \<Rightarrow> byte list" and dec :: "byte list \<Rightarrow> 'a"
    and ok :: "'a \<Rightarrow> bool" and width :: nat
begin

lemma typed_read_back: "ok x \<Longrightarrow> map_option dec (rd l (wr l (enc x) d)) = Some x"
  by (simp add: rd_wr_same dec_enc)

lemma typed_read_other:
  "i \<noteq> l \<Longrightarrow> rd i d = Some b \<Longrightarrow> map_option dec (rd i (wr l (enc x) d)) = Some (dec b)"
  by (simp add: rd_wr_other)

end

lemma nblks_put_block [simp]: "nblks (put_block l b d) = max (nblks d) (Suc l)"
  by (simp add: put_block_def)

lemma blk_put_same [simp]: "blk (put_block l b d) l = b"
  by (simp add: put_block_def)

lemma blk_put_other: "i \<noteq> l \<Longrightarrow> i < nblks d \<Longrightarrow> blk (put_block l b d) i = blk d i"
  by (simp add: put_block_def)

lemma blk_put_inside:
  "l < nblks d \<Longrightarrow> blk (put_block l b d) i = (if i = l then b else blk d i)"
  by (simp add: put_block_def)

lemma wf_put_block: "wf_disk d \<Longrightarrow> length b = FS_BLOCK_SIZE \<Longrightarrow> wf_disk (put_block l b d)"
  by (simp add: wf_disk_def put_block_def zero_block_def)

lemma length_blk: "wf_disk d \<Longrightarrow> length (blk d i) = FS_BLOCK_SIZE"
  by (simp add: wf_disk_def)

lemma get_block_length: "wf_disk d \<Longrightarrow> get_block l d = Some b \<Longrightarrow> length b = FS_BLOCK_SIZE"
  by (auto simp: get_block_def wf_disk_def split: if_splits)

lemma block_read_length: "wf_disk d \<Longrightarrow> block_read l d = Some b \<Longrightarrow> length b = FS_BLOCK_SIZE"
  by (auto simp: block_read_def Let_def get_block_length split: if_splits)

lemma keeps_wf_block_write: "length b = FS_BLOCK_SIZE \<Longrightarrow> keeps wf_disk (block_write b lba)"
  by (rule keepsI) (simp add: block_write_def Let_def wf_put_block)

end
