(* ===== verification/Layout.thy ===== *)
theory Layout
  imports Disk
begin

text \<open>
  The on-disk structures of \<open>fs5600.h\<close> and their byte layout: superblock, inode,
  directory entry, and a directory block as an array of 128 entries. Each encoding is an
  instance of the contract \<open>codec\<close>, so the round trips hold in both directions.
\<close>

abbreviation (input) FS_MAGIC :: u32 where "FS_MAGIC \<equiv> 0x30303635"

text \<open>\<open>NUM_PTRS_INODE = FS_BLOCK_SIZE/4 - 5\<close>, \<open>NUM_DIRENT_BLOCK = FS_BLOCK_SIZE/32\<close>.\<close>

abbreviation (input) NUM_PTRS_INODE :: nat where "NUM_PTRS_INODE \<equiv> 1019"
abbreviation (input) NUM_DIRENT_BLOCK :: nat where "NUM_DIRENT_BLOCK \<equiv> 128"

section \<open>Superblock\<close>

record fs_super =
  magic :: u32
  disk_size :: u32
  pad :: "byte list"

definition encode_super :: "fs_super \<Rightarrow> byte list" where
  "encode_super s = le_bytes 4 (magic s) @ le_bytes 4 (disk_size s) @ pad s"

definition decode_super :: "byte list \<Rightarrow> fs_super" where
  "decode_super bs = \<lparr>magic = le_word (slice bs 0 4), disk_size = le_word (slice bs 4 4),
     pad = slice bs 8 4088\<rparr>"

definition ok_super :: "fs_super \<Rightarrow> bool" where
  "ok_super s \<longleftrightarrow> length (pad s) = 4088"

section \<open>Inode\<close>

record fs_inode =
  uid :: u16
  gid :: u16
  mode :: u32
  ctime :: u32
  mtime :: u32
  size_i :: u32
  ptrs :: "u32 list"

text \<open>\<open>size\<close> is an \<open>int32_t\<close>: the bits are kept as a word and read with \<open>sint\<close>.\<close>

definition encode_inode :: "fs_inode \<Rightarrow> byte list" where
  "encode_inode i = le_bytes 2 (uid i) @ le_bytes 2 (gid i) @ le_bytes 4 (mode i)
     @ le_bytes 4 (ctime i) @ le_bytes 4 (mtime i) @ le_bytes 4 (size_i i)
     @ encode_array (le_bytes 4) (ptrs i)"

definition decode_inode :: "byte list \<Rightarrow> fs_inode" where
  "decode_inode bs = \<lparr>uid = le_word (slice bs 0 2), gid = le_word (slice bs 2 2),
     mode = le_word (slice bs 4 4), ctime = le_word (slice bs 8 4),
     mtime = le_word (slice bs 12 4), size_i = le_word (slice bs 16 4),
     ptrs = decode_array 4 le_word NUM_PTRS_INODE (slice bs 20 4076)\<rparr>"

definition ok_inode :: "fs_inode \<Rightarrow> bool" where
  "ok_inode i \<longleftrightarrow> length (ptrs i) = NUM_PTRS_INODE"

section \<open>Directory entry\<close>

text \<open>
  \<open>valid : 1\<close> and \<open>inode : 31\<close> share a 32-bit unit, \<open>valid\<close> in its lowest bit.
\<close>

record fs_dirent =
  valid :: bool
  inode :: "31 word"
  name :: "byte list"

definition dirent_unit :: "bool \<Rightarrow> 31 word \<Rightarrow> u32" where
  "dirent_unit v n = (if v then 1 else 0) OR push_bit 1 (ucast n)"

definition encode_dirent :: "fs_dirent \<Rightarrow> byte list" where
  "encode_dirent e = le_bytes 4 (dirent_unit (valid e) (inode e)) @ name e"

definition decode_dirent :: "byte list \<Rightarrow> fs_dirent" where
  "decode_dirent bs = (let w = le_word (slice bs 0 4) :: u32 in
     \<lparr>valid = bit w 0, inode = ucast (drop_bit 1 w), name = slice bs 4 28\<rparr>)"

definition ok_dirent :: "fs_dirent \<Rightarrow> bool" where
  "ok_dirent e \<longleftrightarrow> length (name e) = 28"

section \<open>Directory block: \<open>fs_dirent[128]\<close>\<close>

definition encode_dirs :: "fs_dirent list \<Rightarrow> byte list" where
  "encode_dirs = encode_array encode_dirent"

definition decode_dirs :: "byte list \<Rightarrow> fs_dirent list" where
  "decode_dirs = decode_array 32 decode_dirent NUM_DIRENT_BLOCK"

definition ok_dirs :: "fs_dirent list \<Rightarrow> bool" where
  "ok_dirs ds \<longleftrightarrow> length ds = NUM_DIRENT_BLOCK \<and> list_all ok_dirent ds"

section \<open>The encodings satisfy the contract\<close>

lemma split_buffer:
  assumes "length bs = m + n"
  shows "slice bs 0 m @ slice bs m n = bs"
  using assms by (simp add: slice_def)

lemma array_of_u32:
  "length bs = 4 * n \<Longrightarrow>
     encode_array (le_bytes 4) (decode_array 4 le_word n bs :: u32 list) = bs"
  by (rule u32_codec.array_enc_dec) simp

interpretation super_codec: codec encode_super decode_super ok_super FS_BLOCK_SIZE
proof
  fix s assume "ok_super s"
  then show "decode_super (encode_super s) = s" and "length (encode_super s) = FS_BLOCK_SIZE"
    by (simp_all add: decode_super_def encode_super_def ok_super_def)
next
  fix bs :: "byte list" assume n: "length bs = FS_BLOCK_SIZE"
  have "encode_super (decode_super bs) = slice bs 0 4 @ slice bs 4 4 @ slice bs 8 4088"
    using n by (simp add: decode_super_def encode_super_def le_bytes_le_word)
  also have "\<dots> = bs"
    using n slice_append_slice [of bs 4 4 4088] slice_append_slice [of bs 0 4 4092] by simp
  finally show "encode_super (decode_super bs) = bs" .
  show "ok_super (decode_super bs)"
    using n by (simp add: ok_super_def decode_super_def)
qed

lemma inode_slices:
  assumes "length bs = FS_BLOCK_SIZE"
  shows "slice bs 0 2 @ slice bs 2 2 @ slice bs 4 4 @ slice bs 8 4 @ slice bs 12 4
           @ slice bs 16 4 @ slice bs 20 4076 = bs"
proof -
  have "slice bs 16 4 @ slice bs 20 4076 = slice bs 16 4080"
    using slice_append_slice [of bs 16 4 4076] by simp
  moreover have "slice bs 12 4 @ slice bs 16 4080 = slice bs 12 4084"
    using slice_append_slice [of bs 12 4 4080] by simp
  moreover have "slice bs 8 4 @ slice bs 12 4084 = slice bs 8 4088"
    using slice_append_slice [of bs 8 4 4084] by simp
  moreover have "slice bs 4 4 @ slice bs 8 4088 = slice bs 4 4092"
    using slice_append_slice [of bs 4 4 4088] by simp
  moreover have "slice bs 2 2 @ slice bs 4 4092 = slice bs 2 4094"
    using slice_append_slice [of bs 2 2 4092] by simp
  moreover have "slice bs 0 2 @ slice bs 2 4094 = bs"
    using assms by (intro split_buffer) simp
  ultimately show ?thesis by simp
qed

interpretation inode_codec: codec encode_inode decode_inode ok_inode FS_BLOCK_SIZE
proof
  fix i assume ok: "ok_inode i"
  then have n: "length (encode_array (le_bytes 4) (ptrs i)) = 4076"
    using u32_codec.array_len [of "ptrs i" 1019] by (simp add: ok_inode_def list_all_iff)
  show "length (encode_inode i) = FS_BLOCK_SIZE"
    using n by (simp add: encode_inode_def)
  have "decode_array 4 le_word NUM_PTRS_INODE (encode_array (le_bytes 4) (ptrs i)) = ptrs i"
    using ok by (intro u32_codec.array_dec_enc) (simp_all add: ok_inode_def list_all_iff)
  with n show "decode_inode (encode_inode i) = i"
    by (simp add: decode_inode_def encode_inode_def)
next
  fix bs :: "byte list" assume n: "length bs = FS_BLOCK_SIZE"
  have "encode_inode (decode_inode bs) = slice bs 0 2 @ slice bs 2 2 @ slice bs 4 4 @ slice bs 8 4
      @ slice bs 12 4 @ slice bs 16 4 @ slice bs 20 4076"
    using n by (simp add: decode_inode_def encode_inode_def le_bytes_le_word array_of_u32)
  with n show "encode_inode (decode_inode bs) = bs"
    by (simp add: inode_slices)
  show "ok_inode (decode_inode bs)"
    by (simp add: ok_inode_def decode_inode_def)
qed

lemma unit_inode [simp]: "ucast (drop_bit 1 (dirent_unit v n)) = n"
  by (rule bit_word_eqI) (auto simp: dirent_unit_def bit_simps simp del: push_bit_Suc push_bit_numeral)

lemma unit_valid [simp]: "bit (dirent_unit v n) 0 = v"
  by (auto simp: dirent_unit_def bit_simps simp del: push_bit_Suc push_bit_numeral)

lemma unit_of_parts [simp]: "dirent_unit (bit w 0) (ucast (drop_bit 1 w)) = w"
proof (rule bit_word_eqI)
  fix n assume "n < LENGTH(32)"
  then show "bit (dirent_unit (bit w 0) (ucast (drop_bit 1 w))) n = bit w n"
    by (cases n) (auto simp: dirent_unit_def bit_simps simp del: push_bit_Suc push_bit_numeral)
qed

interpretation dirent_codec: codec encode_dirent decode_dirent ok_dirent 32
proof
  fix e assume "ok_dirent e"
  then show "length (encode_dirent e) = 32" and "decode_dirent (encode_dirent e) = e"
    by (simp_all add: ok_dirent_def encode_dirent_def decode_dirent_def Let_def del: One_nat_def)
next
  fix bs :: "byte list" assume n: "length bs = 32"
  have "encode_dirent (decode_dirent bs) = slice bs 0 4 @ slice bs 4 28"
    using n by (simp add: decode_dirent_def encode_dirent_def Let_def le_bytes_le_word
        del: One_nat_def)
  with n show "encode_dirent (decode_dirent bs) = bs"
    by (simp add: split_buffer)
  show "ok_dirent (decode_dirent bs)"
    using n by (simp add: ok_dirent_def decode_dirent_def Let_def)
qed

interpretation dirs_codec: codec encode_dirs decode_dirs ok_dirs FS_BLOCK_SIZE
proof
  fix ds assume ok: "ok_dirs ds"
  show "length (encode_dirs ds) = FS_BLOCK_SIZE"
    using ok dirent_codec.array_len [of ds 128] by (simp add: ok_dirs_def encode_dirs_def)
  show "decode_dirs (encode_dirs ds) = ds"
    using ok by (simp add: ok_dirs_def encode_dirs_def decode_dirs_def dirent_codec.array_dec_enc)
next
  fix bs :: "byte list" assume n: "length bs = FS_BLOCK_SIZE"
  show "encode_dirs (decode_dirs bs) = bs"
    using n by (simp add: encode_dirs_def decode_dirs_def dirent_codec.array_enc_dec)
  show "ok_dirs (decode_dirs bs)"
    using n dirent_codec.array_ok_dec [of bs 128] by (simp add: ok_dirs_def decode_dirs_def)
qed

text \<open>Blocks of the device that hold inodes and directories.\<close>

interpretation inode_store: stored get_block put_block encode_inode decode_inode ok_inode FS_BLOCK_SIZE
  by unfold_locales

interpretation dirs_store: stored get_block put_block encode_dirs decode_dirs ok_dirs FS_BLOCK_SIZE
  by unfold_locales

lemmas codec_simps [simp] =
  inode_codec.dec_enc inode_codec.len_enc dirs_codec.dec_enc dirs_codec.len_enc
  super_codec.dec_enc super_codec.len_enc

lemma ok_decode_inode [simp]: "ok_inode (decode_inode bs)"
  by (simp add: ok_inode_def decode_inode_def)

lemma length_ptrs [simp]: "length (ptrs (decode_inode bs)) = 1019"
  by (simp add: decode_inode_def)

lemma length_decode_dirs [simp]: "length (decode_dirs bs) = 128"
  by (simp add: decode_dirs_def)

section \<open>File types\<close>

text \<open>\<open>S_ISDIR\<close>, \<open>S_ISREG\<close> of \<open>sys/stat.h\<close>: \<open>(m & S_IFMT) == S_IFDIR\<close>.\<close>

definition S_ISDIR :: "u32 \<Rightarrow> bool" where
  "S_ISDIR m \<longleftrightarrow> m AND 0xF000 = 0x4000"

definition S_ISREG :: "u32 \<Rightarrow> bool" where
  "S_ISREG m \<longleftrightarrow> m AND 0xF000 = 0x8000"

text \<open>The C string held by a fixed-size array: up to its first NUL.\<close>

definition c_string :: "byte list \<Rightarrow> cstring" where
  "c_string bs = takeWhile (\<lambda>c. c \<noteq> 0) bs"

text \<open>\<open>strcpy(name, s)\<close> into an array: the bytes after the NUL keep their old values.\<close>

definition strcpy_into :: "byte list \<Rightarrow> cstring \<Rightarrow> byte list" where
  "strcpy_into arr s = s @ [0] @ drop (length s + 1) arr"

lemma length_strcpy_into: "length s < length arr \<Longrightarrow> length (strcpy_into arr s) = length arr"
  by (simp add: strcpy_into_def)

lemma c_string_strcpy [simp]: "0 \<notin> set s \<Longrightarrow> c_string (strcpy_into arr s) = s"
  unfolding c_string_def strcpy_into_def by (subst takeWhile_append2) auto

end
