(* ===== verification/Bitmap.thy ===== *)
theory Bitmap
  imports Layout
begin

text \<open>
  The block bitmap of \<open>fs5600.c\<close>: \<open>bit_set\<close>, \<open>bit_clear\<close>, \<open>bit_test\<close> on a map
  block, and the allocator \<open>alloc_blk\<close> / \<open>free_blk\<close> on block 1 of the disk. The
  locales \<open>bitset\<close> and \<open>bitset_search\<close> are the contract: the map is a set of
  block numbers, and the search returns the least number that is not in it.
\<close>

abbreviation (input) MAP_BITS :: nat where "MAP_BITS \<equiv> 32768"

section \<open>Bit operations\<close>

definition bit_set :: "byte list \<Rightarrow> nat \<Rightarrow> byte list" where
  "bit_set m i = m[i div 8 := m ! (i div 8) OR push_bit (i mod 8) 1]"

definition bit_clear :: "byte list \<Rightarrow> nat \<Rightarrow> byte list" where
  "bit_clear m i = m[i div 8 := m ! (i div 8) AND NOT (push_bit (i mod 8) 1)]"

definition bit_test :: "byte list \<Rightarrow> nat \<Rightarrow> byte" where
  "bit_test m i = m ! (i div 8) AND push_bit (i mod 8) 1"

text \<open>The truth value of \<open>bit_test\<close>, as its callers use it.\<close>

definition used :: "byte list \<Rightarrow> nat \<Rightarrow> bool" where
  "used m i \<longleftrightarrow> bit_test m i \<noteq> 0"

lemma used_bit: "used m i \<longleftrightarrow> bit (m ! (i div 8)) (i mod 8)"
proof
  assume "used m i"
  then obtain n where "bit (bit_test m i) n"
    by (auto simp: used_def bit_eq_iff)
  then show "bit (m ! (i div 8)) (i mod 8)"
    by (auto simp: bit_test_def bit_simps)
next
  assume "bit (m ! (i div 8)) (i mod 8)"
  then have "bit (bit_test m i) (i mod 8)"
    by (auto simp: bit_test_def bit_simps)
  then show "used m i"
    by (auto simp: used_def)
qed

lemma length_bit_set [simp]: "length (bit_set m i) = length m"
  by (simp add: bit_set_def)

lemma length_bit_clear [simp]: "length (bit_clear m i) = length m"
  by (simp add: bit_clear_def)

lemma same_bit: "i div 8 = j div 8 \<Longrightarrow> i mod 8 = j mod 8 \<Longrightarrow> i = (j :: nat)"
  by (metis div_mult_mod_eq)

lemma used_bit_set: "i < 8 * length m \<Longrightarrow> used (bit_set m i) j \<longleftrightarrow> j = i \<or> used m j"
proof (cases "j div 8 = i div 8")
  case True
  assume "i < 8 * length m"
  then have "i div 8 < length m" by linarith
  with True show ?thesis
    by (auto simp: used_bit bit_set_def bit_simps dest: same_bit)
next
  case False
  then show ?thesis by (auto simp: used_bit bit_set_def)
qed

lemma used_bit_clear: "i < 8 * length m \<Longrightarrow> used (bit_clear m i) j \<longleftrightarrow> j \<noteq> i \<and> used m j"
proof (cases "j div 8 = i div 8")
  case True
  assume "i < 8 * length m"
  then have "i div 8 < length m" by linarith
  with True show ?thesis
    by (auto simp: used_bit bit_clear_def bit_simps dest: same_bit)
next
  case False
  then show ?thesis by (auto simp: used_bit bit_clear_def)
qed

text \<open>The loop \<open>for (i = 3; i < FS_BLOCK_SIZE * 8; i++) if (!bit_test(map, i)) \<dots>\<close>.\<close>

function first_clear :: "byte list \<Rightarrow> nat \<Rightarrow> nat option" where
  "first_clear m i =
     (if i < MAP_BITS then (if bit_test m i = 0 then Some i else first_clear m (Suc i)) else None)"
  by pat_completeness auto
termination
  by (relation "measure (\<lambda>(m, i). MAP_BITS - i)") auto

declare first_clear.simps [simp del]

lemma first_clear_Some:
  "first_clear m i = Some k \<Longrightarrow>
     i \<le> k \<and> k < MAP_BITS \<and> \<not> used m k \<and> (\<forall>j. i \<le> j \<longrightarrow> j < k \<longrightarrow> used m j)"
proof (induction m i rule: first_clear.induct)
  case (1 m i)
  show ?case
  proof (cases "i < MAP_BITS \<and> bit_test m i \<noteq> 0")
    case True
    then have "first_clear m (Suc i) = Some k" and "used m i"
      using 1(2) by (simp_all add: first_clear.simps [of m i] used_def)
    with 1(1) True show ?thesis
      by (metis Suc_leD le_antisym not_less_eq_eq)
  next
    case False
    with 1(2) show ?thesis
      by (auto simp: first_clear.simps [of m i] used_def split: if_splits)
  qed
qed

lemma first_clear_None: "first_clear m i = None \<longleftrightarrow> (\<forall>j. i \<le> j \<longrightarrow> j < MAP_BITS \<longrightarrow> used m j)"
proof (induction m i rule: first_clear.induct)
  case (1 m i)
  show ?case
  proof (cases "i < MAP_BITS \<and> bit_test m i \<noteq> 0")
    case True
    then show ?thesis
      using 1 by (simp add: first_clear.simps [of m i] used_def)
        (metis Suc_leD le_antisym not_less_eq_eq)
  next
    case False
    then show ?thesis
      by (auto simp: first_clear.simps [of m i] used_def)
  qed
qed

section \<open>The contract of the map\<close>

locale bitset =
  fixes tst :: "'m \<Rightarrow> nat \<Rightarrow> bool"
    and st :: "'m \<Rightarrow> nat \<Rightarrow> 'm"
    and cl :: "'m \<Rightarrow> nat \<Rightarrow> 'm"
    and inv :: "'m \<Rightarrow> bool"
    and bound :: nat
  assumes tst_st: "inv m \<Longrightarrow> i < bound \<Longrightarrow> tst (st m i) j = (j = i \<or> tst m j)"
    and tst_cl: "inv m \<Longrightarrow> i < bound \<Longrightarrow> tst (cl m i) j = (j \<noteq> i \<and> tst m j)"
    and inv_st: "inv m \<Longrightarrow> inv (st m i)"
    and inv_cl: "inv m \<Longrightarrow> inv (cl m i)"
begin

lemma members_st: "inv m \<Longrightarrow> i < bound \<Longrightarrow> {j. tst (st m i) j} = insert i {j. tst m j}"
  by (auto simp: tst_st)

lemma members_cl: "inv m \<Longrightarrow> i < bound \<Longrightarrow> {j. tst (cl m i) j} = {j. tst m j} - {i}"
  by (auto simp: tst_cl)

lemma cl_st: "inv m \<Longrightarrow> i < bound \<Longrightarrow> \<not> tst m i \<Longrightarrow> tst (cl (st m i) i) j = tst m j"
  by (auto simp: tst_st tst_cl inv_st)

end

locale bitset_search = bitset +
  fixes find :: "'m \<Rightarrow> nat \<Rightarrow> nat option"
  assumes find_Some: "find m lo = Some k \<Longrightarrow>
      lo \<le> k \<and> k < bound \<and> \<not> tst m k \<and> (\<forall>j. lo \<le> j \<longrightarrow> j < k \<longrightarrow> tst m j)"
    and find_None: "find m lo = None \<Longrightarrow> \<forall>j. lo \<le> j \<longrightarrow> j < bound \<longrightarrow> tst m j"
begin

lemma find_defined: "lo \<le> j \<Longrightarrow> j < bound \<Longrightarrow> \<not> tst m j \<Longrightarrow> \<exists>k. find m lo = Some k"
  using find_None [of m lo] by (cases "find m lo") auto

lemma find_st_later:
  assumes "inv m" and "find m lo = Some k" and "find (st m k) lo = Some k'"
  shows "k < k'"
proof (rule ccontr)
  assume "\<not> k < k'"
  moreover have "k' \<noteq> k" and "\<not> tst m k'"
    using assms find_Some [OF assms(2)] find_Some [OF assms(3)] by (auto simp: tst_st)
  ultimately show False
    using find_Some [OF assms(2)] find_Some [OF assms(3)] by auto
qed

lemma find_cl_le:
  assumes "inv m" and "i < bound" and "lo \<le> i"
  shows "\<exists>k. find (cl m i) lo = Some k \<and> k \<le> i"
proof -
  have free: "\<not> tst (cl m i) i" using assms by (simp add: tst_cl)
  then obtain k where k: "find (cl m i) lo = Some k"
    using assms find_defined by blast
  then show ?thesis
    using find_Some [OF k] free assms(3) by (metis linorder_not_less)
qed

lemma find_least: "find m lo = Some k \<Longrightarrow> lo \<le> j \<Longrightarrow> \<not> tst m j \<Longrightarrow> k \<le> j"
  using find_Some by (metis linorder_not_less)

end

interpretation bm: bitset_search used bit_set bit_clear "\<lambda>m. length m = FS_BLOCK_SIZE" MAP_BITS first_clear
  by unfold_locales (simp_all add: used_bit_set used_bit_clear first_clear_Some first_clear_None)

section \<open>The process environment\<close>

text \<open>
  What a call finds outside the disk: the clock (\<open>time(NULL)\<close> truncated to
  \<open>uint32_t\<close>), the user of \<open>fuse_get_context()\<close>, and what the uninitialised local
  buffers of the C functions happen to contain, by the name of the variable.
\<close>

record env =
  now :: u32
  ctx_uid :: u32
  ctx_gid :: u32
  stack :: "string \<Rightarrow> byte list"

definition wf_env :: "env \<Rightarrow> bool" where
  "wf_env e \<longleftrightarrow> (\<forall>v. length (stack e v) = FS_BLOCK_SIZE)"

section \<open>The allocator\<close>

definition alloc_blk :: "env \<Rightarrow> (disk, int) io" where
  "alloc_blk e =
     andThen (load (stack e ''map'') 1) (\<lambda>map.
     case first_clear map 3 of
       Some i \<Rightarrow> andThen (block_write (bit_set map i) 1) (\<lambda>_. ret (int i))
     | None \<Rightarrow> ret (- ENOSPC))"

text \<open>
  \<open>free_blk(i)\<close> indexes the map without a check: outside \<open>0 \<dots> 32767\<close> the access
  leaves the array.
\<close>

definition free_blk :: "env \<Rightarrow> int \<Rightarrow> (disk, unit) io" where
  "free_blk e i =
     andThen (load (stack e ''map'') 1) (\<lambda>map.
     if i < 0 \<or> int MAP_BITS \<le> i then halt Undef
     else andThen (block_write (bit_clear map (nat i)) 1) (\<lambda>_. ret ()))"

text \<open>The map of a disk, and the set of numbers the allocator may hand out.\<close>

definition dmap :: "disk \<Rightarrow> byte list" where
  "dmap d = blk d 1"

definition free_set :: "disk \<Rightarrow> nat set" where
  "free_set d = {i. 3 \<le> i \<and> i < MAP_BITS \<and> \<not> used (dmap d) i}"

lemma finite_free_set [simp]: "finite (free_set d)"
  by (rule finite_subset [of _ "{..<MAP_BITS}"]) (auto simp: free_set_def)

text \<open>
  A disk that can be mounted at all: it holds the superblock, the map and the root inode, and
  the block of the root inode is marked (the allocator starts at 3, \<open>fs_statfs\<close> counts
  from 2).
\<close>

definition mountable :: "disk \<Rightarrow> bool" where
  "mountable d \<longleftrightarrow> wf_disk d \<and> 3 \<le> nblks d \<and> used (dmap d) 2"

lemma mountable_put [simp]:
  "mountable d \<Longrightarrow> length b = FS_BLOCK_SIZE \<Longrightarrow> (l = 1 \<Longrightarrow> used b 2) \<Longrightarrow> mountable (put_block l b d)"
  by (cases "l = 1") (auto simp: mountable_def wf_put_block le_max_iff_disj dmap_def blk_put_other)

lemma free_set_put: "l \<noteq> 1 \<Longrightarrow> 2 \<le> nblks d \<Longrightarrow> free_set (put_block l b d) = free_set d"
  by (simp add: free_set_def dmap_def blk_put_other)

lemma mountable_blocks: "mountable d \<Longrightarrow> 3 \<le> nblks d"
  by (simp add: mountable_def)

lemma used_set_keeps: "used m j \<Longrightarrow> used (bit_set m i) j"
  by (cases "i < 8 * length m") (simp_all add: used_bit_set, simp add: bit_set_def list_update_beyond)

lemma used_clear_keeps: "used m j \<Longrightarrow> i \<noteq> j \<Longrightarrow> used (bit_clear m i) j"
  by (cases "i < 8 * length m") (simp_all add: used_bit_clear, simp add: bit_clear_def list_update_beyond)

lemma mountable_set [simp]: "mountable d \<Longrightarrow> used (bit_set (dmap d) i) 2"
  by (simp add: mountable_def used_set_keeps)

lemma mountable_clear [simp]: "mountable d \<Longrightarrow> i \<noteq> 2 \<Longrightarrow> used (bit_clear (dmap d) i) 2"
  by (simp add: mountable_def used_clear_keeps)

lemma root_marked [simp]: "mountable d \<Longrightarrow> used (dmap d) 2"
  by (simp add: mountable_def)

lemma dmap_length [simp]: "mountable d \<Longrightarrow> length (dmap d) = FS_BLOCK_SIZE"
  by (simp add: mountable_def dmap_def wf_disk_def)

lemma read_map [simp]: "mountable d \<Longrightarrow> block_read 1 d = Some (dmap d)"
  by (simp add: block_read_in_range get_block_def mountable_def dmap_def)

lemma write_map [simp]: "block_write b 1 d = (Inr 0, put_block 1 b d)"
  by (simp add: block_write_in_range)

lemma alloc_blk_run:
  assumes "mountable d"
  shows "alloc_blk e d = (case first_clear (dmap d) 3 of
      Some i \<Rightarrow> (Inr (int i), put_block 1 (bit_set (dmap d) i) d)
    | None \<Rightarrow> (Inr (- ENOSPC), d))"
  using assms
  by (simp add: alloc_blk_def andThen_def run_simps split: option.splits)

lemma free_blk_run:
  assumes "mountable d"
  shows "free_blk e i d = (if 0 \<le> i \<and> i < int MAP_BITS
      then (Inr (), put_block 1 (bit_clear (dmap d) (nat i)) d) else (Inl Undef, d))"
  using assms by (auto simp: free_blk_def andThen_def run_simps)

text \<open>The run of a successful allocation, in terms of the set of free blocks.\<close>

lemma alloc_blk_Some:
  assumes d: "mountable d" and ne: "free_set d \<noteq> {}"
  obtains i where "i = Min (free_set d)" and "i \<in> free_set d"
    and "alloc_blk e d = (Inr (int i), put_block 1 (bit_set (dmap d) i) d)"
    and "free_set (put_block 1 (bit_set (dmap d) i) d) = free_set d - {i}"
proof -
  from ne obtain j where "3 \<le> j" and "j < MAP_BITS" and "\<not> used (dmap d) j"
    by (auto simp: free_set_def)
  then obtain i where i: "first_clear (dmap d) 3 = Some i"
    using bm.find_defined by blast
  note s = bm.find_Some [OF i]
  have "i \<in> free_set d" using s by (auto simp: free_set_def)
  moreover have "i = Min (free_set d)"
    using \<open>i \<in> free_set d\<close> bm.find_least [OF i]
    by (intro Min_eqI [symmetric]) (auto simp: free_set_def)
  moreover have "free_set (put_block 1 (bit_set (dmap d) i) d) = free_set d - {i}"
    using s d by (auto simp: free_set_def bm.tst_st dmap_def [of "put_block _ _ _"])
  ultimately show ?thesis
    using that [of i] i d by (simp add: alloc_blk_run)
qed

lemma alloc_blk_full:
  assumes "mountable d" and "free_set d = {}"
  shows "alloc_blk e d = (Inr (- ENOSPC), d)"
proof -
  have "first_clear (dmap d) 3 = None"
    using assms(2) by (auto simp: first_clear_None free_set_def)
  then show ?thesis using assms(1) by (simp add: alloc_blk_run)
qed

lemma blk_put_map: "1 < nblks d \<Longrightarrow> b \<noteq> 1 \<Longrightarrow> blk (put_block 1 m d) b = blk d b"
  by (simp add: blk_put_inside)

lemma alloc_blk_least:
  assumes d: "mountable d"
  shows "if free_set d = {} then alloc_blk e d = (Inr (- ENOSPC), d)
    else \<exists>d'. alloc_blk e d = (Inr (int (Min (free_set d))), d') \<and> free_set d' = free_set d - {Min (free_set d)}
      \<and> nblks d' = nblks d \<and> (\<forall>b. b \<noteq> 1 \<longrightarrow> blk d' b = blk d b)"
proof (cases "free_set d = {}")
  case True
  then show ?thesis using alloc_blk_full [OF d] by simp
next
  case False
  have n: "1 < nblks d" using d by (simp add: mountable_def)
  obtain i where "i = Min (free_set d)" "alloc_blk e d = (Inr (int i), put_block 1 (bit_set (dmap d) i) d)"
    "free_set (put_block 1 (bit_set (dmap d) i) d) = free_set d - {i}"
    by (rule alloc_blk_Some [OF d False])
  with n False show ?thesis
    by (auto simp: blk_put_map simp del: One_nat_def)
qed

text \<open>
  The disk has changed only in its map, where blocks have been taken, and in blocks that
  were free.
\<close>

definition spares :: "disk \<Rightarrow> disk \<Rightarrow> bool" where
  "spares d d' \<longleftrightarrow> mountable d' \<and> nblks d \<le> nblks d' \<and> free_set d' \<subseteq> free_set d
     \<and> (\<forall>b. b \<noteq> 1 \<longrightarrow> b < nblks d \<longrightarrow> b \<notin> free_set d \<longrightarrow> blk d' b = blk d b)"

lemma spares_refl: "mountable d \<Longrightarrow> spares d d"
  by (simp add: spares_def)

lemma spares_take:
  assumes "spares d d1"
  shows "spares d (put_block 1 (bit_set (dmap d1) n) d1)"
proof -
  let ?d = "put_block 1 (bit_set (dmap d1) n) d1"
  have m: "mountable d1" and fs: "free_set d1 \<subseteq> free_set d" using assms by (simp_all add: spares_def)
  have "free_set ?d \<subseteq> free_set d1"
    using used_set_keeps [of "dmap d1" _ n] by (auto simp: free_set_def dmap_def [of "put_block _ _ _"])
  moreover have "blk ?d b = blk d1 b" if "b \<noteq> 1" for b
    using that mountable_blocks [OF m] by (intro blk_put_map) simp_all
  ultimately show ?thesis using assms m fs by (auto simp: spares_def)
qed

lemma spares_put:
  assumes "spares d d1" and "x \<in> free_set d" and "length b = 4096"
  shows "spares d (put_block x b d1)"
proof -
  have m: "mountable d1" and x: "x \<noteq> 1" using assms by (auto simp: spares_def free_set_def)
  then have "free_set (put_block x b d1) = free_set d1"
    using mountable_blocks [OF m] by (intro free_set_put) auto
  moreover have "blk (put_block x b d1) c = blk d1 c" if "c < nblks d" "c \<notin> free_set d" for c
    using that assms(1,2) by (intro blk_put_other) (auto simp: spares_def)
  ultimately show ?thesis using assms m x by (auto simp: spares_def)
qed

text \<open>Clearing a bit that was clear before it was set restores the map.\<close>

lemma bit_clear_set:
  assumes "\<not> used m i"
  shows "bit_clear (bit_set m i) i = m"
proof (cases "i div 8 < length m")
  case True
  have "((m ! (i div 8)) OR push_bit (i mod 8) 1) AND NOT (push_bit (i mod 8) 1) = m ! (i div 8)"
    using assms by (intro bit_eqI) (auto simp: used_bit bit_simps)
  with True show ?thesis by (simp add: bit_clear_def bit_set_def)
next
  case False
  then have "m[i div 8 := x] = m" for x by (intro list_update_beyond) simp
  then show ?thesis by (simp only: bit_clear_def bit_set_def)
qed

lemma put_block_same: "l < nblks d \<Longrightarrow> put_block l (blk d l) d = d\<lparr>history := history d @ [(l, blk d l)]\<rparr>"
  by (simp add: put_block_def max_absorb1 fun_eq_iff)

text \<open>Freeing the block just allocated restores the map; what remains are the two writes.\<close>

lemma alloc_free:
  assumes d: "mountable d" and ne: "free_set d \<noteq> {}"
  shows "\<exists>h. andThen (alloc_blk e) (free_blk e) d = (Inr (), d\<lparr>history := h\<rparr>)"
proof -
  obtain i where i: "i \<in> free_set d" "alloc_blk e d = (Inr (int i), put_block 1 (bit_set (dmap d) i) d)"
    by (rule alloc_blk_Some [OF d ne])
  then have free: "\<not> used (dmap d) i" "i < MAP_BITS" by (simp_all add: free_set_def)
  have n: "1 < nblks d" using d by (simp add: mountable_def)
  let ?m = "bit_set (dmap d) i"
  have m: "dmap (put_block 1 ?m d) = ?m" by (simp add: dmap_def)
  have "bit_clear (dmap (put_block 1 ?m d)) i = blk d 1"
    unfolding m using bit_clear_set [OF free(1)] by (simp only: dmap_def)
  then have "put_block 1 (bit_clear (dmap (put_block 1 ?m d)) i) (put_block 1 ?m d)
      = d\<lparr>history := history d @ [(1, ?m), (1, blk d 1)]\<rparr>"
    using n by (simp add: put_block_def max_absorb1 fun_eq_iff)
  then show ?thesis
    using i(2) free(2) d by (simp add: andThen_def free_blk_run) blast
qed

lemma free_blk_free_set:
  assumes "mountable d" and "i < MAP_BITS"
  shows "free_set (put_block 1 (bit_clear (dmap d) i) d) = free_set d \<union> ({i} \<inter> {3..})"
  using assms by (auto simp: free_set_def bm.tst_cl dmap_def [of "put_block _ _ _"])

lemma wf_disk_load:
  "wf_disk d \<Longrightarrow> length b = FS_BLOCK_SIZE \<Longrightarrow>
     \<exists>c. load b l d = (Inr c, d) \<and> length c = FS_BLOCK_SIZE"
  by (auto simp: load_def block_read_length split: option.splits)

lemma keeps_wf_load:
  assumes "length b = FS_BLOCK_SIZE"
    and "\<And>c. length c = FS_BLOCK_SIZE \<Longrightarrow> keeps wf_disk (f c)"
  shows "keeps wf_disk (andThen (load b l) f)"
proof (rule keepsI)
  fix d :: disk assume d: "wf_disk d"
  with assms(1) obtain c where "load b l d = (Inr c, d)" and "length c = FS_BLOCK_SIZE"
    using wf_disk_load by blast
  then show "wf_disk (snd (andThen (load b l) f d))"
    using assms(2) d by (simp add: andThen_def keepsD)
qed

lemma keeps_wf_alloc: "wf_env e \<Longrightarrow> keeps wf_disk (alloc_blk e)"
  unfolding alloc_blk_def
  by (rule keeps_wf_load)
     (auto simp: wf_env_def split: option.splits intro!: keeps_andThen keeps_wf_block_write)

lemma keeps_wf_free: "wf_env e \<Longrightarrow> keeps wf_disk (free_blk e i)"
  unfolding free_blk_def
  by (rule keeps_wf_load)
     (auto simp: wf_env_def intro!: keeps_if keeps_andThen keeps_wf_block_write)

end
