(* ===== verification/Path.thy ===== *)
theory Path
  imports Bitmap
begin

text \<open>
  Path handling of \<open>fs5600.c\<close>: the \<open>strtok\<close> loop (\<open>tokenise\<close>), the copies into
  fixed buffers that every path operation makes, \<open>path2inum\<close> with its walk over
  directory blocks, and the parent path that create, mkdir, unlink, rmdir and rename
  compute. The second half relates the byte-level walk to a lookup of components.
\<close>

section \<open>Tokens\<close>

abbreviation (input) slash :: byte where "slash \<equiv> 0x2F"

lemma dropWhile_shorter: "xs \<noteq> [] \<Longrightarrow> p (hd xs) \<Longrightarrow> length (dropWhile p xs) < length xs"
  by (cases xs) (auto intro: le_imp_less_Suc length_dropWhile_le)

text \<open>\<open>strtok(s, "/")\<close> skips separators, returns up to the next one, and goes on behind it.\<close>

function tokenise :: "cstring \<Rightarrow> cstring list" where
  "tokenise s =
     (let t = dropWhile (\<lambda>c. c = slash) s in
      if t = [] then []
      else takeWhile (\<lambda>c. c \<noteq> slash) t # tokenise (dropWhile (\<lambda>c. c \<noteq> slash) t))"
  by pat_completeness auto

termination
proof (relation "measure length", simp)
  fix s t :: cstring
  assume t: "t = dropWhile (\<lambda>c. c = slash) s" and "t \<noteq> []"
  then have "length (dropWhile (\<lambda>c. c \<noteq> slash) t) < length t"
    using hd_dropWhile [of "\<lambda>c. c = slash" s] by (intro dropWhile_shorter) auto
  also have "length t \<le> length s" unfolding t by (rule length_dropWhile_le)
  finally show "(dropWhile (\<lambda>c. c \<noteq> slash) t, s) \<in> measure length" by simp
qed

declare tokenise.simps [simp del]

text \<open>
  \<open>strcpy(copy, path + 1)\<close> into \<open>char copy[300]\<close>, then the tokens into
  \<open>char *tokens[11]\<close>: a longer path or a twelfth token is written outside the array,
  and for the empty path \<open>path + 1\<close> points past its NUL.
\<close>

definition copy_tokens :: "cstring \<Rightarrow> ('s, cstring list) io" where
  "copy_tokens path =
     (if path = [] \<or> 300 < length path then halt Undef
      else let toks = tokenise (tl path) in
        if 11 < length toks then halt Undef else ret toks)"

section \<open>path2inum\<close>

text \<open>
  The loop over the tokens. \<open>multi\<close> is \<open>i > 1\<close>, an empty rest is \<open>j == i - 1\<close>; the
  last line is the return behind the loop.
\<close>

fun walk :: "disk \<Rightarrow> bool \<Rightarrow> fs_inode \<Rightarrow> cstring list \<Rightarrow> int" where
  "walk d multi current [] = - EOPNOTSUPP"
| "walk d multi current (t # ts) =
     (if 27 < length t then (if ts \<noteq> [] then - ENOTDIR else - ENOENT)
      else if \<not> S_ISDIR (mode current) \<and> ts \<noteq> [] then - ENOTDIR
      else if size_i current = 0 then (if ts \<noteq> [] then - ENOTDIR else - ENOENT)
      else case block_read (sint (ptrs current ! 0)) d of
        None \<Rightarrow> (if ts \<noteq> [] then - ENOTDIR else - ENOENT)
      | Some b \<Rightarrow>
          let dirs = decode_dirs b;
              k = scan (\<lambda>e. valid e \<and> t = c_string (name e)) dirs
          in if 128 \<le> k then (if multi \<and> ts = [] then - ENOTDIR else - ENOENT)
             else if ts = [] then uint (inode (dirs ! k))
             else case block_read (uint (inode (dirs ! k))) d of
               None \<Rightarrow> - EOPNOTSUPP
             | Some nb \<Rightarrow>
                 let next = decode_inode nb in
                 if \<not> S_ISDIR (mode next) then - ENOTDIR
                 else walk d multi next ts)"

definition path2inum :: "cstring \<Rightarrow> (disk, int) io" where
  "path2inum path =
     (if path = [] \<or> hd path \<noteq> slash then ret (- ENOENT)
      else if path = [slash] then ret 2
      else andThen (copy_tokens path) (\<lambda>toks.
        if toks = [] then ret 2
        else andThen (fetch 2) (\<lambda>r. case r of
          None \<Rightarrow> ret (- EOPNOTSUPP)
        | Some b \<Rightarrow> (\<lambda>d. (Inr (walk d (1 < length toks) (decode_inode b) toks), d)))))"

text \<open>
  The parent path: \<open>length\<close> adds up the components but the last, with a separator
  each, and one more; then \<open>strncpy(parent, path, length)\<close>.
\<close>

definition parent_len :: "cstring list \<Rightarrow> nat" where
  "parent_len toks = sum_list (map (\<lambda>t. length t + 1) (butlast toks)) + 1"

definition parent_path :: "cstring \<Rightarrow> cstring list \<Rightarrow> cstring" where
  "parent_path path toks = take (parent_len toks) path"

lemma path2inum_state [simp]: "snd (path2inum path d) = d"
  by (auto simp: path2inum_def copy_tokens_def andThen_def ret_def halt_def fetch_def Let_def
      split: option.splits)

lemma keeps_path2inum [intro]: "keeps P (path2inum path)"
  by (rule keepsI) simp

lemma keeps_copy_tokens [intro]: "keeps P (copy_tokens path)"
  by (auto simp: copy_tokens_def Let_def)

section \<open>Canonical paths\<close>

text \<open>The paths FUSE hands out: a separator in front of every component.\<close>

definition mkpath :: "cstring list \<Rightarrow> cstring" where
  "mkpath toks = concat (map (\<lambda>t. slash # t) toks)"

definition ok_token :: "cstring \<Rightarrow> bool" where
  "ok_token t \<longleftrightarrow> t \<noteq> [] \<and> slash \<notin> set t \<and> 0 \<notin> set t"

definition ok_path :: "cstring list \<Rightarrow> bool" where
  "ok_path toks \<longleftrightarrow> toks \<noteq> [] \<and> list_all ok_token toks \<and> length toks \<le> 11
     \<and> length (mkpath toks) \<le> 300"

lemma tokenise_Nil [simp]: "tokenise [] = []"
  by (simp add: tokenise.simps)

lemma tokenise_slash [simp]: "tokenise (slash # s) = tokenise s"
  by (simp add: tokenise.simps [of "slash # s"] tokenise.simps [of s])

lemma tokenise_token:
  assumes "ok_token t" and "s = [] \<or> hd s = slash"
  shows "tokenise (t @ s) = t # tokenise s"
proof -
  from assms(1) have ne: "t \<noteq> []" and all: "\<forall>c\<in>set t. c \<noteq> slash"
    by (auto simp: ok_token_def)
  then have "dropWhile (\<lambda>c. c = slash) (t @ s) = t @ s"
    by (cases t) auto
  moreover have "takeWhile (\<lambda>c. c \<noteq> slash) (t @ s) = t" and "dropWhile (\<lambda>c. c \<noteq> slash) (t @ s) = s"
    using all assms(2) by (cases s; simp add: takeWhile_append dropWhile_append)+
  ultimately show ?thesis
    using ne by (simp add: tokenise.simps [of "t @ s"])
qed

lemma mkpath_Nil [simp]: "mkpath [] = []"
  by (simp add: mkpath_def)

lemma mkpath_Cons: "mkpath (t # ts) = slash # t @ mkpath ts"
  by (simp add: mkpath_def)

lemma hd_mkpath: "mkpath ts = [] \<or> hd (mkpath ts) = slash"
  by (cases ts) (simp_all add: mkpath_Cons)

lemma tokenise_mkpath: "list_all ok_token toks \<Longrightarrow> tokenise (mkpath toks) = toks"
  by (induction toks) (simp_all add: mkpath_Cons tokenise_token hd_mkpath)

lemma tokenise_mkpath_end:
  "list_all ok_token toks \<Longrightarrow> tokenise (mkpath toks @ [slash]) = toks"
proof (induction toks)
  case Nil
  then show ?case by simp
next
  case (Cons t ts)
  have "hd (mkpath ts @ [slash]) = slash"
    using hd_mkpath [of ts] by (auto simp: hd_append)
  with Cons show ?case
    by (simp add: mkpath_Cons tokenise_token)
qed

lemma mkpath_append: "mkpath (xs @ ys) = mkpath xs @ mkpath ys"
  by (simp add: mkpath_def)

lemma mkpath_butlast: "toks \<noteq> [] \<Longrightarrow> mkpath toks = mkpath (butlast toks) @ slash # last toks"
  using mkpath_append [of "butlast toks" "[last toks]"] by (simp add: mkpath_Cons)

lemma length_mkpath: "length (mkpath ts) = sum_list (map (\<lambda>t. length t + 1) ts)"
  by (induction ts) (simp_all add: mkpath_Cons)

lemma parent_path_mkpath:
  assumes "toks \<noteq> []"
  shows "parent_path (mkpath toks) toks = mkpath (butlast toks) @ [slash]"
proof -
  have "parent_len toks = length (mkpath (butlast toks) @ [slash])"
    by (simp add: parent_len_def length_mkpath)
  then show ?thesis
    using assms by (simp add: parent_path_def mkpath_butlast)
qed

lemma copy_tokens_run:
  "ok_path toks \<Longrightarrow> copy_tokens (mkpath toks) d = (Inr toks, d)"
  by (cases toks)
     (auto simp: copy_tokens_def ok_path_def ret_def mkpath_Cons tokenise_token hd_mkpath tokenise_mkpath)

lemma parent_tokens:
  assumes "ok_path toks"
  shows "tokenise (tl (parent_path (mkpath toks) toks)) = butlast toks"
proof -
  have ok: "list_all ok_token (butlast toks)"
    using assms by (auto simp: ok_path_def list_all_iff dest: in_set_butlastD)
  have "parent_path (mkpath toks) toks = mkpath (butlast toks) @ [slash]"
    using assms by (intro parent_path_mkpath) (simp add: ok_path_def)
  moreover have "tokenise (tl (mkpath (butlast toks) @ [slash])) = butlast toks"
    using ok tokenise_mkpath_end [OF ok] hd_mkpath [of "butlast toks"]
    by (cases "mkpath (butlast toks)") auto
  ultimately show ?thesis by simp
qed

lemma path_tokens:
  assumes "ok_path toks"
  shows "tokenise (tl (mkpath toks)) = toks \<and> tokenise (tl (mkpath toks @ [slash])) = toks
    \<and> tokenise (tl (parent_path (mkpath toks) toks)) = butlast toks"
proof -
  have "list_all ok_token toks" and "toks \<noteq> []" using assms by (simp_all add: ok_path_def)
  then show ?thesis
    using parent_tokens [OF assms] tokenise_mkpath [of toks] tokenise_mkpath_end [of toks]
    by (cases toks) (simp_all add: mkpath_Cons)
qed

end
