(* ===== verification/Attr.thy ===== *)
theory Attr
  imports Path
begin

text \<open>
  The operations of \<open>fs5600.c\<close> that look at, or change, an inode's attributes:
  \<open>inode2stat\<close>, \<open>fs_init\<close>, \<open>fs_statfs\<close>, \<open>fs_getattr\<close>, \<open>fs_readdir\<close>,
  \<open>fs_chmod\<close> and \<open>fs_utime\<close>. An out-parameter of the C function is an argument
  of the model's and part of its result.
\<close>

section \<open>struct stat\<close>

record stat =
  st_ino :: u32
  st_mode :: u32
  st_nlink :: nat
  st_uid :: u16
  st_gid :: u16
  st_size :: int
  st_blocks :: int
  st_atim :: u32
  st_mtim :: u32
  st_ctim :: u32

text \<open>The fields FUSE reads; the \<open>memset\<close> clears the others. The access time is set from
  \<open>ctime\<close>.\<close>

definition inode2stat :: "fs_inode \<Rightarrow> u32 \<Rightarrow> stat" where
  "inode2stat i inode_num =
     \<lparr>st_ino = inode_num, st_mode = mode i, st_nlink = 1, st_uid = uid i, st_gid = gid i,
      st_size = sint (size_i i),
      st_blocks = (if S_ISDIR (mode i) then 1 else DIV_ROUND_UP (sint (size_i i)) 4096),
      st_atim = ctime i, st_mtim = mtime i, st_ctim = ctime i\<rparr>"

section \<open>Mounting\<close>

definition fs_init :: "(disk, unit) io" where
  "fs_init =
     andThen (fetch 0) (\<lambda>r. case r of
       None \<Rightarrow> halt (Exit 1)
     | Some buffer \<Rightarrow>
         if le_word (slice buffer 0 4) \<noteq> FS_MAGIC then halt (Exit 1) else ret ())"

section \<open>statfs\<close>

record statvfs =
  f_bsize :: "64 word"
  f_namemax :: "64 word"
  f_blocks :: "64 word"
  f_bfree :: "64 word"
  f_bavail :: "64 word"

definition count_used :: "byte list \<Rightarrow> nat" where
  "count_used m = length (filter (\<lambda>i. bit_test m i \<noteq> 0) [2..<MAP_BITS])"

definition fs_statfs :: "cstring \<Rightarrow> statvfs \<Rightarrow> (disk, int \<times> statvfs) io" where
  "fs_statfs path st0 =
     (let st = st0\<lparr>f_bsize := 4096, f_namemax := 27\<rparr> in
      andThen (fetch 0) (\<lambda>r. case r of
        None \<Rightarrow> ret (- EOPNOTSUPP, st)
      | Some super \<Rightarrow>
      andThen (fetch 1) (\<lambda>r. case r of
        None \<Rightarrow> ret (- EOPNOTSUPP, st)
      | Some bmap \<Rightarrow>
          let blocks = ucast (disk_size (decode_super super) - 2) :: 64 word;
              used_blocks = of_nat (count_used bmap) :: u32;
              bfree = blocks - ucast used_blocks
          in ret (0, st\<lparr>f_blocks := blocks, f_bfree := bfree, f_bavail := bfree\<rparr>))))"

section \<open>getattr\<close>

definition fs_getattr :: "cstring \<Rightarrow> stat \<Rightarrow> (disk, int \<times> stat) io" where
  "fs_getattr path sb =
     andThen (path2inum path) (\<lambda>inode_num.
     if inode_num \<le> 0 then
       (if inode_num = - ENOTDIR then ret (- ENOTDIR, sb) else ret (- ENOENT, sb))
     else andThen (fetch inode_num) (\<lambda>r. case r of
       None \<Rightarrow> ret (- ENOENT, sb)
     | Some b \<Rightarrow> ret (0, inode2stat (decode_inode b) (word_of_int inode_num))))"

section \<open>readdir\<close>

text \<open>
  The loop over the 128 entries: the calls of \<open>filler\<close> in order, as a list of names and
  attributes. An entry whose inode cannot be read is skipped. A name without a NUL makes
  the reader of the string leave the array.
\<close>

primrec list_entries :: "fs_dirent list \<Rightarrow> (disk, (cstring \<times> stat) list) io" where
  "list_entries [] = ret []"
| "list_entries (e # es) =
     (if valid e then
        andThen (fetch (uint (inode e))) (\<lambda>r. case r of
          None \<Rightarrow> list_entries es
        | Some b \<Rightarrow>
            if 0 \<notin> set (name e) then halt Undef
            else andThen (list_entries es) (\<lambda>rest.
              ret ((c_string (name e), inode2stat (decode_inode b) (ucast (inode e))) # rest)))
      else list_entries es)"

definition fs_readdir :: "cstring \<Rightarrow> (disk, int \<times> (cstring \<times> stat) list) io" where
  "fs_readdir path =
     andThen (path2inum path) (\<lambda>inode_num.
     if inode_num \<le> 0 then ret (- ENOENT, [])
     else andThen (fetch inode_num) (\<lambda>r. case r of
       None \<Rightarrow> ret (- ENOTDIR, [])
     | Some b \<Rightarrow>
         if \<not> S_ISDIR (mode (decode_inode b)) then ret (- ENOTDIR, [])
         else andThen (fetch (sint (ptrs (decode_inode b) ! 0))) (\<lambda>r. case r of
           None \<Rightarrow> ret (- ENOENT, [])
         | Some dirs \<Rightarrow>
             andThen (list_entries (decode_dirs dirs)) (\<lambda>calls. ret (0, calls)))))"

section \<open>chmod\<close>

definition fs_chmod :: "env \<Rightarrow> cstring \<Rightarrow> u32 \<Rightarrow> (disk, int) io" where
  "fs_chmod e path m =
     andThen (path2inum path) (\<lambda>inode_num.
     if inode_num < 0 then ret (- ENOENT)
     else andThen (load (stack e ''node'') inode_num) (\<lambda>b.
       let node = decode_inode b;
           node = node\<lparr>mode := mode node AND 0xfffff000\<rparr>;
           node = node\<lparr>mode := mode node OR (0xfff AND m)\<rparr>
       in andThen (block_write (encode_inode node) inode_num) (\<lambda>_. ret 0)))"

section \<open>utime\<close>

text \<open>\<open>ut\<close> is \<open>None\<close> for a null pointer, else the field \<open>modtime\<close>.\<close>

definition fs_utime :: "env \<Rightarrow> cstring \<Rightarrow> int option \<Rightarrow> (disk, int) io" where
  "fs_utime e path ut =
     andThen (path2inum path) (\<lambda>inode_num.
     if inode_num \<le> 0 then
       (if inode_num = - ENOTDIR then ret (- ENOTDIR) else ret (- ENOENT))
     else andThen (fetch inode_num) (\<lambda>r. case r of
       None \<Rightarrow> ret (- EOPNOTSUPP)
     | Some b \<Rightarrow>
         let i = decode_inode b in
         if S_ISDIR (mode i) then ret (- EISDIR)
         else let i' = i\<lparr>mtime := (case ut of None \<Rightarrow> now e | Some t \<Rightarrow> word_of_int t)\<rparr>
           in andThen (block_write (encode_inode i') inode_num) (\<lambda>_. ret 0)))"

end
