(* ===== verification/FileIO.thy ===== *)
theory FileIO
  imports Attr
begin

text \<open>
  File contents: \<open>fs_read\<close>, \<open>fs_write\<close> and \<open>fs_truncate\<close>. Lengths and offsets
  (\<open>size_t\<close>, \<open>off_t\<close>) are natural numbers: FUSE passes no negative offset, and sums of
  a file offset and a request length stay far below \<open>2 ^ 63\<close>. The file size is the
  signed 32-bit field of the inode.
\<close>

section \<open>read\<close>

text \<open>
  The loop of \<open>fs_read\<close>. \<open>buffer\<close> is the block buffer, which keeps its contents when
  a read fails; \<open>out\<close> is what \<open>buf\<close> has received so far. A block number beyond
  the pointer array and an offset beyond the block buffer leave their arrays.
\<close>

function read_loop ::
  "fs_inode \<Rightarrow> nat \<Rightarrow> nat \<Rightarrow> nat \<Rightarrow> nat \<Rightarrow> nat \<Rightarrow> byte list \<Rightarrow> byte list \<Rightarrow> (disk, nat \<times> byte list) io"
where
  "read_loop i len off nread block_num block_offset buffer out =
     (if nread < len \<and> int (nread + off) < sint (size_i i) then
        if NUM_PTRS_INODE \<le> block_num \<or> FS_BLOCK_SIZE \<le> block_offset then halt Undef
        else andThen (load buffer (sint (ptrs i ! block_num))) (\<lambda>buffer.
          let readlength = FS_BLOCK_SIZE - block_offset;
              readlength = (if len < nread + readlength then len - nread else readlength);
              readlength = (if sint (size_i i) < int (nread + off + readlength)
                            then nat (sint (size_i i)) - off - nread else readlength)
          in read_loop i len off (nread + readlength) (block_num + 1) 0 buffer
               (out @ slice buffer block_offset readlength))
      else ret (nread, out))"
  by pat_completeness auto
termination
  by (relation "measure (\<lambda>(i, len, off, nread, block_num, block_offset, buffer, out). len - nread)") auto

declare read_loop.simps [simp del]

definition fs_read :: "env \<Rightarrow> cstring \<Rightarrow> nat \<Rightarrow> nat \<Rightarrow> (disk, int \<times> byte list) io" where
  "fs_read e path len off =
     andThen (path2inum path) (\<lambda>inode_num.
     if inode_num \<le> 0 then
       (if inode_num = - ENOTDIR then ret (- ENOTDIR, []) else ret (- ENOENT, []))
     else andThen (fetch inode_num) (\<lambda>r. case r of
       None \<Rightarrow> ret (- EOPNOTSUPP, [])
     | Some b \<Rightarrow>
         let i = decode_inode b in
         if S_ISDIR (mode i) then ret (- EISDIR, [])
         else if sint (size_i i) \<le> int off then ret (0, [])
         else andThen (read_loop i len off 0 (off div FS_BLOCK_SIZE) (off mod FS_BLOCK_SIZE)
                 (stack e ''buffer'') []) (\<lambda>(nread, out).
           ret (wrap32 (int nread), out))))"

section \<open>write\<close>

text \<open>
  \<open>block_num >= DIV_ROUND_UP(in.size, FS_BLOCK_SIZE)\<close> compares a \<open>size_t\<close> with an
  \<open>int\<close>: a negative right side is converted to a value above every block number.
\<close>

definition beyond_mapped :: "fs_inode \<Rightarrow> nat \<Rightarrow> bool" where
  "beyond_mapped i block_num \<longleftrightarrow>
     (let n = DIV_ROUND_UP (sint (size_i i)) 4096 in 0 \<le> n \<and> n \<le> int block_num)"

text \<open>
  The loop of \<open>fs_write\<close>. \<open>in.ptrs\<close> is unsigned, so its test \<open><= 0\<close> after an
  allocation is a test for zero. The loop ends with the inode and the number of bytes,
  or with \<open>None\<close> at that early return.
\<close>

function write_loop ::
  "env \<Rightarrow> byte list \<Rightarrow> nat \<Rightarrow> nat \<Rightarrow> nat \<Rightarrow> fs_inode \<Rightarrow> nat \<Rightarrow> nat \<Rightarrow> nat \<Rightarrow> byte list \<Rightarrow>
     (disk, (fs_inode \<times> nat) option) io"
where
  "write_loop e buf len off new_size i nread block_num block_offset buffer =
     (if nread < len \<and> nread + off < new_size then
        if NUM_PTRS_INODE \<le> block_num \<or> FS_BLOCK_SIZE \<le> block_offset then halt Undef
        else
        andThen (if beyond_mapped i block_num
                 then andThen (alloc_blk e) (\<lambda>n. ret (i\<lparr>ptrs := (ptrs i)[block_num := word_of_int n]\<rparr>))
                 else ret i) (\<lambda>i.
        if beyond_mapped i block_num \<and> ptrs i ! block_num = 0 then ret None
        else
        andThen (load buffer (sint (ptrs i ! block_num))) (\<lambda>buffer.
          let readlength = FS_BLOCK_SIZE - block_offset;
              readlength = (if len < nread + readlength then len - nread else readlength);
              buffer = take block_offset buffer @ slice buf nread readlength
                         @ drop (block_offset + readlength) buffer
          in andThen (block_write buffer (sint (ptrs i ! block_num))) (\<lambda>_.
             write_loop e buf len off new_size i (nread + readlength) (block_num + 1) 0 buffer)))
      else ret (Some (i, nread)))"
  by pat_completeness auto
termination
  by (relation "measure (\<lambda>(e, buf, len, off, new_size, i, nread, block_num, block_offset, buffer).
      len - nread)") auto

declare write_loop.simps [simp del]

text \<open>The caller's buffer has \<open>len\<close> bytes.\<close>

definition fs_write :: "env \<Rightarrow> cstring \<Rightarrow> byte list \<Rightarrow> nat \<Rightarrow> (disk, int) io" where
  "fs_write e path buf off =
     (let len = length buf in
     andThen (path2inum path) (\<lambda>inode_num.
     if inode_num \<le> 0 then
       (if inode_num = - ENOTDIR then ret (- ENOTDIR) else ret (- ENOENT))
     else andThen (fetch inode_num) (\<lambda>r. case r of
       None \<Rightarrow> ret (- EOPNOTSUPP)
     | Some b \<Rightarrow>
         let i = decode_inode b in
         if S_ISDIR (mode i) then ret (- EISDIR)
         else if sint (size_i i) < int off then ret 0
         else if FS_BLOCK_SIZE * NUM_PTRS_INODE < off + len then ret (- ENOSPC)
         else let new_size = off + len in
         andThen (write_loop e buf len off new_size i 0 (off div FS_BLOCK_SIZE)
                    (off mod FS_BLOCK_SIZE) (stack e ''buffer'')) (\<lambda>w. case w of
           None \<Rightarrow> ret (- ENOSPC)
         | Some (i, nread) \<Rightarrow>
             let i = (if sint (size_i i) < int new_size then i\<lparr>size_i := word_of_nat new_size\<rparr> else i);
                 i = i\<lparr>mtime := now e\<rparr>
             in andThen (block_write (encode_inode i) inode_num) (\<lambda>_. ret (wrap32 (int nread)))))))"

section \<open>truncate\<close>

text \<open>
  \<open>for (i = 0; i < DIV_ROUND_UP(size, FS_BLOCK_SIZE); i++) free_blk(ptrs[i])\<close>, the loop
  that \<open>fs_truncate\<close> and \<open>fs_unlink\<close> share: \<open>n\<close> rounds starting at \<open>k\<close>.
\<close>

fun free_ptrs :: "env \<Rightarrow> fs_inode \<Rightarrow> nat \<Rightarrow> nat \<Rightarrow> (disk, unit) io" where
  "free_ptrs e i k 0 = ret ()"
| "free_ptrs e i k (Suc n) =
     (if NUM_PTRS_INODE \<le> k then halt Undef
      else andThen (free_blk e (sint (ptrs i ! k))) (\<lambda>_. free_ptrs e i (Suc k) n))"

definition free_data :: "env \<Rightarrow> fs_inode \<Rightarrow> (disk, unit) io" where
  "free_data e i = free_ptrs e i 0 (nat (DIV_ROUND_UP (sint (size_i i)) 4096))"

definition fs_truncate :: "env \<Rightarrow> cstring \<Rightarrow> int \<Rightarrow> (disk, int) io" where
  "fs_truncate e path len =
     (if len \<noteq> 0 then ret (- EINVAL)
      else andThen (path2inum path) (\<lambda>inode_num.
      if inode_num \<le> 0 then
        (if inode_num = - ENOTDIR then ret (- ENOTDIR) else ret (- ENOENT))
      else andThen (fetch inode_num) (\<lambda>r. case r of
        None \<Rightarrow> ret (- EOPNOTSUPP)
      | Some b \<Rightarrow>
          let i = decode_inode b in
          if S_ISDIR (mode i) then ret (- EISDIR)
          else andThen (free_data e i) (\<lambda>_.
            andThen (block_write (encode_inode (i\<lparr>size_i := 0\<rparr>)) inode_num) (\<lambda>_. ret 0)))))"

end
