(* ===== verification/DirOps.thy ===== *)
theory DirOps
  imports FileIO
begin

text \<open>
  The operations of \<open>fs5600.c\<close> that change directories: \<open>fs_create\<close>, \<open>fs_mkdir\<close>,
  \<open>fs_unlink\<close>, \<open>fs_rmdir\<close>, \<open>fs_rename\<close>. The code of create and mkdir up to the
  allocation is the same text, and so is their last part; unlink and rmdir share theirs
  too. Each such part is one definition here.
\<close>

section \<open>create and mkdir\<close>

text \<open>
  Up to the check that the parent is a directory: \<open>Inl\<close> a return code, or the number
  and inode of the parent and the last component.
\<close>

definition prepare_new :: "env \<Rightarrow> cstring \<Rightarrow> (disk, int + (int \<times> fs_inode \<times> cstring)) io" where
  "prepare_new e path =
     (if path = [] \<or> hd path \<noteq> slash then ret (Inl (- ENOENT))
      else andThen (path2inum path) (\<lambda>inode_n.
      if 0 < inode_n then ret (Inl (- EEXIST))
      else andThen (copy_tokens path) (\<lambda>toks.
      if toks = [] then halt Undef
      else if 27 < length (last toks) then ret (Inl (- EINVAL))
      else andThen (path2inum (parent_path path toks)) (\<lambda>inode_no_parent.
      if inode_no_parent < 0 then ret (Inl (- ENOENT))
      else andThen (load (stack e ''parent_inode'') inode_no_parent) (\<lambda>pb.
        let parent_inode = decode_inode pb in
        if \<not> S_ISDIR (mode parent_inode) then ret (Inl (- ENOTDIR))
        else ret (Inr (inode_no_parent, parent_inode, last toks)))))))"

text \<open>
  The inode of a new object. Fields the code does not set (the pointers of a file, all
  but the first of a directory) keep what the local variable held.
\<close>

definition new_inode :: "env \<Rightarrow> u32 \<Rightarrow> u32 \<Rightarrow> u32 \<Rightarrow> fs_inode" where
  "new_inode e m typ sz = (decode_inode (stack e ''new_file''))
     \<lparr>uid := ucast (ctx_uid e), gid := ucast (ctx_gid e), mode := (0xfff AND m) OR typ,
      size_i := sz, ctime := now e, mtime := now e\<rparr>"

text \<open>The last part: enter the name at the first free slot, write both parent blocks.\<close>

definition add_dirent :: "env \<Rightarrow> int \<Rightarrow> fs_inode \<Rightarrow> cstring \<Rightarrow> int \<Rightarrow> (disk, int) io" where
  "add_dirent e inode_no_parent parent_inode t new_inode_num =
     andThen (load (stack e ''dirs'') (sint (ptrs parent_inode ! 0))) (\<lambda>db.
       let dirs = decode_dirs db;
           k = scan (\<lambda>d. \<not> valid d) dirs
       in if 128 \<le> k then ret (- EINVAL)
          else let dirs = dirs[k := \<lparr>valid = True, inode = word_of_int new_inode_num,
                                     name = strcpy_into (name (dirs ! k)) t\<rparr>]
          in andThen (block_write (encode_dirs dirs) (sint (ptrs parent_inode ! 0))) (\<lambda>_.
             andThen (block_write (encode_inode parent_inode) inode_no_parent) (\<lambda>_. ret 0)))"

definition fs_create :: "env \<Rightarrow> cstring \<Rightarrow> u32 \<Rightarrow> (disk, int) io" where
  "fs_create e path m =
     andThen (prepare_new e path) (\<lambda>r. case r of
       Inl code \<Rightarrow> ret code
     | Inr (inode_no_parent, parent_inode, t) \<Rightarrow>
         andThen (alloc_blk e) (\<lambda>new_inode_num.
         andThen (block_write (encode_inode (new_inode e m (push_bit 15 1) 0)) new_inode_num) (\<lambda>_.
         add_dirent e inode_no_parent parent_inode t new_inode_num)))"

definition fs_mkdir :: "env \<Rightarrow> cstring \<Rightarrow> u32 \<Rightarrow> (disk, int) io" where
  "fs_mkdir e path m =
     andThen (prepare_new e path) (\<lambda>r. case r of
       Inl code \<Rightarrow> ret code
     | Inr (inode_no_parent, parent_inode, t) \<Rightarrow>
         andThen (alloc_blk e) (\<lambda>new_inode_num.
         andThen (alloc_blk e) (\<lambda>n.
         let new_file = new_inode e m (push_bit 14 1) 4096;
             new_file = new_file\<lparr>ptrs := (ptrs new_file)[0 := word_of_int n]\<rparr>
         in andThen (block_write zero_block (sint (ptrs new_file ! 0))) (\<lambda>_.
            andThen (block_write (encode_inode new_file) new_inode_num) (\<lambda>_.
            add_dirent e inode_no_parent parent_inode t new_inode_num)))))"

section \<open>unlink and rmdir\<close>

text \<open>
  Up to the read of the object's inode: a return code, or number and inode of the parent
  and of the object.
\<close>

definition prepare_del ::
  "env \<Rightarrow> cstring \<Rightarrow> (disk, int + (int \<times> fs_inode \<times> int \<times> fs_inode)) io" where
  "prepare_del e path =
     andThen (copy_tokens path) (\<lambda>toks.
     andThen (path2inum (parent_path path toks)) (\<lambda>inode_no_parent.
     if inode_no_parent < 0 then ret (Inl (- ENOENT))
     else andThen (load (stack e ''parent_inode'') inode_no_parent) (\<lambda>pb.
       let parent_inode = decode_inode pb in
       if \<not> S_ISDIR (mode parent_inode) then ret (Inl (- ENOTDIR))
       else andThen (path2inum path) (\<lambda>inode_n.
       if inode_n < 0 then ret (Inl (- ENOENT))
       else andThen (load (stack e ''fileinode'') inode_n) (\<lambda>fb.
         ret (Inr (inode_no_parent, parent_inode, inode_n, decode_inode fb)))))))"

text \<open>The last part: clear the first entry with the number, set the parent's \<open>mtime\<close>.
  \<open>dirs0\<close> is what the buffer \<open>dirs\<close> holds before it is read.\<close>

definition remove_dirent ::
  "env \<Rightarrow> byte list \<Rightarrow> int \<Rightarrow> fs_inode \<Rightarrow> int \<Rightarrow> (disk, int) io" where
  "remove_dirent e dirs0 inode_no_parent parent_inode inode_n =
     andThen (load dirs0 (sint (ptrs parent_inode ! 0))) (\<lambda>db.
       let dirs = decode_dirs db;
           k = scan (\<lambda>d. valid d \<and> uint (inode d) = inode_n) dirs;
           dirs = (if k < 128 then dirs[k := (dirs ! k)\<lparr>valid := False\<rparr>] else dirs)
       in andThen (block_write (encode_dirs dirs) (sint (ptrs parent_inode ! 0))) (\<lambda>_.
          andThen (block_write (encode_inode (parent_inode\<lparr>mtime := now e\<rparr>)) inode_no_parent) (\<lambda>_.
          ret 0)))"

definition fs_unlink :: "env \<Rightarrow> cstring \<Rightarrow> (disk, int) io" where
  "fs_unlink e path =
     andThen (prepare_del e path) (\<lambda>r. case r of
       Inl code \<Rightarrow> ret code
     | Inr (inode_no_parent, parent_inode, inode_n, fileinode) \<Rightarrow>
         if S_ISDIR (mode fileinode) then ret (- EISDIR)
         else andThen (free_data e fileinode) (\<lambda>_.
              andThen (free_blk e inode_n) (\<lambda>_.
              remove_dirent e (stack e ''dirs'') inode_no_parent parent_inode inode_n)))"

definition fs_rmdir :: "env \<Rightarrow> cstring \<Rightarrow> (disk, int) io" where
  "fs_rmdir e path =
     andThen (prepare_del e path) (\<lambda>r. case r of
       Inl code \<Rightarrow> ret code
     | Inr (inode_no_parent, parent_inode, inode_n, fileinode) \<Rightarrow>
         if \<not> S_ISDIR (mode fileinode) then ret (- ENOTDIR)
         else andThen (load (stack e ''dirs'') (sint (ptrs fileinode ! 0))) (\<lambda>db.
           if scan valid (decode_dirs db) < 128 then ret (- ENOTEMPTY)
           else andThen (free_blk e (sint (ptrs fileinode ! 0))) (\<lambda>_.
                andThen (free_blk e inode_n) (\<lambda>_.
                remove_dirent e db inode_no_parent parent_inode inode_n))))"

section \<open>rename\<close>

text \<open>
  The name is copied with \<open>strcpy\<close> and without a length check: 28 bytes or more leave
  the entry's name array. With no components \<open>src_tokens[src_count - 1]\<close> is read
  before the array, as soon as an entry is valid.
\<close>

definition fs_rename :: "cstring \<Rightarrow> cstring \<Rightarrow> (disk, int) io" where
  "fs_rename src_path dst_path =
     andThen (path2inum src_path) (\<lambda>inode_num1.
     if inode_num1 \<le> 0 then
       (if inode_num1 = - ENOTDIR then ret (- EINVAL) else ret (- ENOENT))
     else andThen (path2inum dst_path) (\<lambda>inode_num2.
     if 0 < inode_num2 then ret (- EEXIST)
     else andThen (copy_tokens src_path) (\<lambda>src_tokens.
     andThen (copy_tokens dst_path) (\<lambda>dst_tokens.
     if length dst_tokens \<noteq> length src_tokens then ret (- EINVAL)
     else if butlast src_tokens \<noteq> butlast dst_tokens then ret (- EINVAL)
     else andThen (path2inum (parent_path src_path src_tokens)) (\<lambda>inode_no_parent.
     if inode_no_parent < 0 then ret (- EINVAL)
     else andThen (fetch inode_no_parent) (\<lambda>r. case r of
       None \<Rightarrow> ret (- EINVAL)
     | Some pb \<Rightarrow>
         let parent_inode = decode_inode pb in
         andThen (fetch (sint (ptrs parent_inode ! 0))) (\<lambda>r. case r of
           None \<Rightarrow> ret (- EINVAL)
         | Some db \<Rightarrow>
             let dirs = decode_dirs db;
                 k = scan (\<lambda>d. valid d \<and> c_string (name d) = last src_tokens) dirs
             in if src_tokens = [] \<and> list_ex valid dirs then halt Undef
                else if k < 128 \<and> 28 \<le> length (last dst_tokens) then halt Undef
                else
                  let dirs = (if k < 128
                    then dirs[k := (dirs ! k)\<lparr>name := strcpy_into (name (dirs ! k)) (last dst_tokens)\<rparr>]
                    else dirs)
                  in andThen (block_write (encode_dirs dirs) (sint (ptrs parent_inode ! 0))) (\<lambda>w.
                     if w \<noteq> 0 then ret (- EINVAL) else ret 0))))))))"

section \<open>The operations vector\<close>

text \<open>\<open>fs_ops\<close>: one request for every entry, with its arguments.\<close>

datatype request =
    Init
  | Statfs cstring statvfs
  | Getattr cstring stat
  | Readdir cstring
  | Read cstring nat nat
  | Rename cstring cstring
  | Chmod cstring u32
  | Create cstring u32
  | Mkdir cstring u32
  | Unlink cstring
  | Rmdir cstring
  | Write cstring "byte list" nat
  | Truncate cstring int
  | Utime cstring "int option"

datatype reply =
    RDone
  | RCode int
  | RStatfs int statvfs
  | RStat int stat
  | RDir int "(cstring \<times> stat) list"
  | RData int "byte list"

fun fs_ops :: "env \<Rightarrow> request \<Rightarrow> (disk, reply) io" where
  "fs_ops e Init = andThen fs_init (\<lambda>_. ret RDone)"
| "fs_ops e (Statfs p st) = andThen (fs_statfs p st) (\<lambda>(r, s). ret (RStatfs r s))"
| "fs_ops e (Getattr p sb) = andThen (fs_getattr p sb) (\<lambda>(r, s). ret (RStat r s))"
| "fs_ops e (Readdir p) = andThen (fs_readdir p) (\<lambda>(r, l). ret (RDir r l))"
| "fs_ops e (Read p len off) = andThen (fs_read e p len off) (\<lambda>(r, bs). ret (RData r bs))"
| "fs_ops e (Rename s t) = andThen (fs_rename s t) (\<lambda>r. ret (RCode r))"
| "fs_ops e (Chmod p m) = andThen (fs_chmod e p m) (\<lambda>r. ret (RCode r))"
| "fs_ops e (Create p m) = andThen (fs_create e p m) (\<lambda>r. ret (RCode r))"
| "fs_ops e (Mkdir p m) = andThen (fs_mkdir e p m) (\<lambda>r. ret (RCode r))"
| "fs_ops e (Unlink p) = andThen (fs_unlink e p) (\<lambda>r. ret (RCode r))"
| "fs_ops e (Rmdir p) = andThen (fs_rmdir e p) (\<lambda>r. ret (RCode r))"
| "fs_ops e (Write p buf off) = andThen (fs_write e p buf off) (\<lambda>r. ret (RCode r))"
| "fs_ops e (Truncate p len) = andThen (fs_truncate e p len) (\<lambda>r. ret (RCode r))"
| "fs_ops e (Utime p ut) = andThen (fs_utime e p ut) (\<lambda>r. ret (RCode r))"

text \<open>A session: requests one after the other, each in its own environment, until one stops
  the process.\<close>

primrec session :: "(env \<times> request) list \<Rightarrow> (disk, reply list) io" where
  "session [] = ret []"
| "session (r # rs) =
     andThen (fs_ops (fst r) (snd r)) (\<lambda>x. andThen (session rs) (\<lambda>xs. ret (x # xs)))"

end
