(* ===== verification/Fsys.thy ===== *)
theory Fsys
  imports DirOps
begin

text \<open>
  What a disk means. A set \<open>N\<close> of live inode numbers and a disk determine an abstract
  file system: a map from inode numbers to directories (name to inode number) and files
  (byte sequences) with their attributes. \<open>consistent N d\<close> is the invariant that ties
  the two: every block belongs to at most one object, blocks in use are marked, the
  directory entries form a tree.
\<close>

section \<open>Numbers in pointers\<close>

lemma sint_unat:
  assumes "unat (w :: 32 word) < 2 ^ 31"
  shows "sint w = int (unat w)"
proof -
  have "uint w < 2 ^ 31"
    using assms by (metis of_nat_less_iff of_nat_unat of_nat_numeral of_nat_power)
  moreover have "- (2 ^ 31) \<le> uint w"
    using uint_ge_0 [of w] by (rule order_trans [rotated]) simp
  ultimately have "signed_take_bit 31 (uint w) = uint w"
    by (intro signed_take_bit_int_eq_self)
  then show ?thesis by (simp add: sint_uint)
qed

lemma uint_unat31: "uint (w :: 31 word) = int (unat w)"
  by simp

lemma unat_word32: "n < 2 ^ 32 \<Longrightarrow> unat (word_of_int (int n) :: 32 word) = n"
  by (simp add: unsigned_of_nat take_bit_nat_eq_self)

lemma unat_word31: "n < 2 ^ 31 \<Longrightarrow> unat (word_of_int (int n) :: 31 word) = n"
  by (simp add: unsigned_of_nat take_bit_nat_eq_self)

section \<open>Objects on the disk\<close>

definition inode_at :: "disk \<Rightarrow> nat \<Rightarrow> fs_inode" where
  "inode_at d n = decode_inode (blk d n)"

definition ptr :: "fs_inode \<Rightarrow> nat \<Rightarrow> nat" where
  "ptr i k = unat (ptrs i ! k)"

definition dirs_at :: "disk \<Rightarrow> fs_inode \<Rightarrow> fs_dirent list" where
  "dirs_at d i = decode_dirs (blk d (ptr i 0))"

definition fsize :: "fs_inode \<Rightarrow> nat" where
  "fsize i = nat (sint (size_i i))"

definition nblocks :: "fs_inode \<Rightarrow> nat" where
  "nblocks i = (fsize i + 4095) div 4096"

definition data_blocks :: "fs_inode \<Rightarrow> nat list" where
  "data_blocks i = map (ptr i) [0..<(if S_ISDIR (mode i) then 1 else nblocks i)]"

definition own :: "disk \<Rightarrow> nat \<Rightarrow> nat set" where
  "own d n = insert n (set (data_blocks (inode_at d n)))"

definition fbyte :: "disk \<Rightarrow> fs_inode \<Rightarrow> nat \<Rightarrow> byte" where
  "fbyte d i x = blk d (ptr i (x div 4096)) ! (x mod 4096)"

definition content :: "disk \<Rightarrow> fs_inode \<Rightarrow> byte list" where
  "content d i = map (fbyte d i) [0..<fsize i]"

section \<open>Directories as maps\<close>

definition dir_map :: "fs_dirent list \<Rightarrow> cstring \<Rightarrow> nat option" where
  "dir_map ds t =
     (let k = scan (\<lambda>e. valid e \<and> t = c_string (name e)) ds in
      if k < length ds then Some (unat (inode (ds ! k))) else None)"

definition dir_ok :: "fs_dirent list \<Rightarrow> bool" where
  "dir_ok ds \<longleftrightarrow> ok_dirs ds
     \<and> (\<forall>e\<in>set ds. valid e \<longrightarrow> 0 \<in> set (name e) \<and> ok_token (c_string (name e)))
     \<and> (\<forall>j<length ds. \<forall>k<length ds. valid (ds ! j) \<longrightarrow> valid (ds ! k) \<longrightarrow>
          c_string (name (ds ! j)) = c_string (name (ds ! k)) \<longrightarrow> j = k)"

lemma dir_map_iff:
  assumes "dir_ok ds"
  shows "dir_map ds t = Some n \<longleftrightarrow>
    (\<exists>k<length ds. valid (ds ! k) \<and> c_string (name (ds ! k)) = t \<and> unat (inode (ds ! k)) = n)"
    (is "_ \<longleftrightarrow> ?R")
proof
  assume "dir_map ds t = Some n"
  then show ?R
    using scan_hit [of "\<lambda>e. valid e \<and> t = c_string (name e)" ds]
    by (auto simp: dir_map_def Let_def split: if_splits)
next
  assume ?R
  then obtain k where k: "k < length ds" "valid (ds ! k)" "c_string (name (ds ! k)) = t"
    "unat (inode (ds ! k)) = n" by blast
  have "scan (\<lambda>e. valid e \<and> t = c_string (name e)) ds = k"
    using k(1-3) assms by (intro scan_unique) (auto simp: dir_ok_def)
  with k show "dir_map ds t = Some n"
    by (simp add: dir_map_def)
qed

lemma dir_map_None:
  "dir_map ds t = None \<longleftrightarrow> (\<forall>k<length ds. valid (ds ! k) \<longrightarrow> c_string (name (ds ! k)) \<noteq> t)"
  using scan_less_iff [of "\<lambda>e. valid e \<and> t = c_string (name e)" ds]
  by (simp add: dir_map_def Let_def all_set_conv_all_nth) (auto simp: in_set_conv_nth)

lemma c_string_shorter: "0 \<in> set bs \<Longrightarrow> length (c_string bs) < length bs"
  by (induction bs) (auto simp: c_string_def)

lemma dir_map_short:
  assumes "dir_ok ds" and "dir_map ds t = Some n"
  shows "length t \<le> 27" and "ok_token t"
proof -
  obtain k where k: "k < length ds" "valid (ds ! k)" "c_string (name (ds ! k)) = t"
    using assms by (auto simp: dir_map_iff)
  then have mem: "ds ! k \<in> set ds" by simp
  then have "0 \<in> set (name (ds ! k))" and "length (name (ds ! k)) = 28" and "ok_token t"
    using assms(1) k by (auto simp: dir_ok_def ok_dirs_def list_all_iff ok_dirent_def)
  then show "ok_token t" and "length t \<le> 27"
    using k(3) c_string_shorter [of "name (ds ! k)"] by auto
qed

section \<open>Directories as lists of slots\<close>

text \<open>
  The order in which a directory is listed: the names in its 128 slots, \<open>None\<close> where the
  entry is not valid. A new name takes the first free slot, a removed one frees its slot.
\<close>

definition slot_name :: "fs_dirent \<Rightarrow> cstring option" where
  "slot_name e = (if valid e then Some (c_string (name e)) else None)"

definition slots :: "disk \<Rightarrow> nat \<Rightarrow> cstring option list" where
  "slots d n = map slot_name (dirs_at d (inode_at d n))"

primrec enter :: "cstring \<Rightarrow> cstring option list \<Rightarrow> cstring option list" where
  "enter t [] = []"
| "enter t (x # xs) = (if x = None then Some t # xs else x # enter t xs)"

definition erase :: "cstring \<Rightarrow> cstring option list \<Rightarrow> cstring option list" where
  "erase t xs = map (\<lambda>x. if x = Some t then None else x) xs"

definition relabel :: "cstring \<Rightarrow> cstring \<Rightarrow> cstring option list \<Rightarrow> cstring option list" where
  "relabel t u xs = map (\<lambda>x. if x = Some t then Some u else x) xs"

lemma slots_enter:
  "slot_name e = Some t \<Longrightarrow> map slot_name (ds[scan (\<lambda>e. \<not> valid e) ds := e]) = enter t (map slot_name ds)"
  by (induction ds) (auto simp: slot_name_def)

text \<open>What an operation leaves alone: the superblock and the slots of the directories in \<open>M\<close>.\<close>

definition kept :: "nat set \<Rightarrow> disk \<Rightarrow> disk \<Rightarrow> bool" where
  "kept M d d' \<longleftrightarrow> blk d' 0 = blk d 0
     \<and> (\<forall>m\<in>M. S_ISDIR (mode (inode_at d m)) \<longrightarrow> slots d' m = slots d m)"

lemma kept_refl [simp]: "kept M d d"
  by (simp add: kept_def)

section \<open>The abstract file system\<close>

record attrs =
  a_uid :: u16
  a_gid :: u16
  a_mode :: u32
  a_ctime :: u32
  a_mtime :: u32

datatype obj =
    ADir attrs int "cstring \<Rightarrow> nat option"
  | AFile attrs "byte list"

type_synonym afs = "nat \<Rightarrow> obj option"

definition attrs_of :: "fs_inode \<Rightarrow> attrs" where
  "attrs_of i = \<lparr>a_uid = uid i, a_gid = gid i, a_mode = mode i, a_ctime = ctime i, a_mtime = mtime i\<rparr>"

definition view :: "disk \<Rightarrow> nat \<Rightarrow> obj" where
  "view d n = (let i = inode_at d n in
     if S_ISDIR (mode i) then ADir (attrs_of i) (sint (size_i i)) (dir_map (dirs_at d i))
     else AFile (attrs_of i) (content d i))"

definition absfs :: "nat set \<Rightarrow> disk \<Rightarrow> afs" where
  "absfs N d n = (if n \<in> N then Some (view d n) else None)"

fun children :: "obj option \<Rightarrow> cstring \<Rightarrow> nat option" where
  "children (Some (ADir a s m)) = m"
| "children _ = Map.empty"

fun is_adir :: "obj option \<Rightarrow> bool" where
  "is_adir (Some (ADir a s m)) = True"
| "is_adir _ = False"

text \<open>The entries form a tree below the root, inode 2.\<close>

definition tree_ok :: "afs \<Rightarrow> bool" where
  "tree_ok A \<longleftrightarrow> is_adir (A 2)
     \<and> (\<forall>p t n. children (A p) t = Some n \<longrightarrow> n \<noteq> 2 \<and> A n \<noteq> None)
     \<and> (\<forall>p q t u n. children (A p) t = Some n \<longrightarrow> children (A q) u = Some n \<longrightarrow> p = q \<and> t = u)"

section \<open>Consistency\<close>

definition block_ok :: "disk \<Rightarrow> nat \<Rightarrow> bool" where
  "block_ok d b \<longleftrightarrow> 2 \<le> b \<and> b < MAP_BITS \<and> b < nblks d \<and> b \<notin> free_set d"

definition node_ok :: "disk \<Rightarrow> nat \<Rightarrow> bool" where
  "node_ok d n \<longleftrightarrow>
     (\<forall>b\<in>own d n. block_ok d b)
     \<and> distinct (n # data_blocks (inode_at d n))
     \<and> (if S_ISDIR (mode (inode_at d n))
        then size_i (inode_at d n) \<noteq> 0 \<and> dir_ok (dirs_at d (inode_at d n))
        else 0 \<le> sint (size_i (inode_at d n)) \<and> fsize (inode_at d n) \<le> 4096 * 1019)"

definition consistent :: "nat set \<Rightarrow> disk \<Rightarrow> bool" where
  "consistent N d \<longleftrightarrow> mountable d \<and> (\<forall>n\<in>N. node_ok d n)
     \<and> (\<forall>n\<in>N. \<forall>m\<in>N. n \<noteq> m \<longrightarrow> own d n \<inter> own d m = {})
     \<and> tree_ok (absfs N d)"

text \<open>None of this looks at the history.\<close>

lemma same_image [simp]:
  fixes d :: disk and h
  defines "d2 \<equiv> d\<lparr>history := h\<rparr>"
  shows "nblks d2 = nblks d" "blk d2 = blk d" "dmap d2 = dmap d" "free_set d2 = free_set d"
    "mountable d2 \<longleftrightarrow> mountable d" "inode_at d2 = inode_at d" "own d2 = own d" "slots d2 = slots d"
    "view d2 = view d" "node_ok d2 = node_ok d" "absfs N d2 = absfs N d"
    "kept N d1 d2 \<longleftrightarrow> kept N d1 d" "consistent N d2 \<longleftrightarrow> consistent N d"
proof -
  show n: "nblks d2 = nblks d" and k: "blk d2 = blk d" by (simp_all add: d2_def)
  show dm: "dmap d2 = dmap d" by (simp only: dmap_def k)
  show fs: "free_set d2 = free_set d" by (simp only: free_set_def dm)
  show m: "mountable d2 \<longleftrightarrow> mountable d" by (simp only: mountable_def wf_disk_def dm n k)
  show i: "inode_at d2 = inode_at d" by (simp only: fun_eq_iff inode_at_def k simp_thms)
  show o: "own d2 = own d" by (simp only: fun_eq_iff own_def i simp_thms)
  have ds: "dirs_at d2 = dirs_at d" by (simp only: fun_eq_iff dirs_at_def k simp_thms)
  show sl: "slots d2 = slots d" by (simp only: fun_eq_iff slots_def i ds simp_thms)
  have "fbyte d2 = fbyte d" by (simp only: fun_eq_iff fbyte_def k simp_thms)
  then have "content d2 = content d" by (intro ext) (simp only: content_def)
  then show v: "view d2 = view d" by (intro ext) (simp only: view_def i ds)
  show av: "absfs N d2 = absfs N d" by (simp only: fun_eq_iff absfs_def v simp_thms)
  show "kept N d1 d2 \<longleftrightarrow> kept N d1 d" by (simp only: kept_def sl k)
  have b: "block_ok d2 = block_ok d" by (simp only: fun_eq_iff block_ok_def fs n simp_thms)
  show nd: "node_ok d2 = node_ok d" by (simp only: fun_eq_iff node_ok_def b o i ds simp_thms)
  show "consistent N d2 \<longleftrightarrow> consistent N d" by (simp only: consistent_def nd m o av)
qed

lemma consistentD:
  assumes "consistent N d"
  shows "mountable d" and "n \<in> N \<Longrightarrow> node_ok d n" and "tree_ok (absfs N d)"
    and "n \<in> N \<Longrightarrow> m \<in> N \<Longrightarrow> n \<noteq> m \<Longrightarrow> own d n \<inter> own d m = {}"
  using assms by (auto simp: consistent_def)

lemma own_self [simp]: "n \<in> own d n"
  by (simp add: own_def)

lemma absfs_in [simp]: "n \<in> N \<Longrightarrow> absfs N d n = Some (view d n)"
  by (simp add: absfs_def)

lemma absfs_out [simp]: "n \<notin> N \<Longrightarrow> absfs N d n = None"
  by (simp add: absfs_def)

lemma is_adir_view: "is_adir (Some (view d n)) \<longleftrightarrow> S_ISDIR (mode (inode_at d n))"
  by (simp add: view_def Let_def)

lemma children_view:
  "children (Some (view d n)) =
     (if S_ISDIR (mode (inode_at d n)) then dir_map (dirs_at d (inode_at d n)) else Map.empty)"
  by (simp add: view_def Let_def)

lemma root_in:
  assumes "consistent N d"
  shows "2 \<in> N" and "S_ISDIR (mode (inode_at d 2))"
proof -
  have adir: "is_adir (absfs N d 2)"
    using assms by (simp add: consistent_def tree_ok_def)
  then show "2 \<in> N" by (cases "2 \<in> N") auto
  with adir show "S_ISDIR (mode (inode_at d 2))" by (simp add: is_adir_view)
qed

lemma child_in:
  assumes "consistent N d" and "n \<in> N" and "S_ISDIR (mode (inode_at d n))"
    and "dir_map (dirs_at d (inode_at d n)) t = Some k"
  shows "k \<in> N" and "k \<noteq> 2"
proof -
  have "children (absfs N d n) t = Some k"
    using assms by (simp add: children_view)
  then have "k \<noteq> 2 \<and> absfs N d k \<noteq> None"
    using consistentD(3) [OF assms(1)] by (simp only: tree_ok_def) blast
  then show "k \<in> N" and "k \<noteq> 2"
    by (auto simp: absfs_def split: if_splits)
qed

text \<open>Reading the blocks of live objects always succeeds.\<close>

lemma block_ok_read: "block_ok d b \<Longrightarrow> block_read (int b) d = Some (blk d b)"
  by (simp add: block_ok_def block_read_in_range get_block_def)

lemma block_ok_write: "block_ok d b \<Longrightarrow> block_write buf (int b) d = (Inr 0, put_block b buf d)"
  by (simp add: block_ok_def block_write_in_range)

lemma block_ok_sint: "block_ok d (unat w) \<Longrightarrow> sint (w :: u32) = int (unat w)"
  by (rule sint_unat) (simp add: block_ok_def)

lemma node_block_ok: "node_ok d n \<Longrightarrow> b \<in> own d n \<Longrightarrow> block_ok d b"
  by (simp add: node_ok_def)

lemma node_read: "node_ok d n \<Longrightarrow> block_read (int n) d = Some (blk d n)"
  by (rule block_ok_read) (simp add: node_ok_def)

lemma dir_ptr_own: "S_ISDIR (mode (inode_at d n)) \<Longrightarrow> ptr (inode_at d n) 0 \<in> own d n"
  by (simp add: own_def data_blocks_def)

lemma dir_ptr:
  assumes "node_ok d n" and "S_ISDIR (mode (inode_at d n))"
  shows "block_ok d (ptr (inode_at d n) 0)"
    and "sint (ptrs (inode_at d n) ! 0) = int (ptr (inode_at d n) 0)"
proof -
  show b: "block_ok d (ptr (inode_at d n) 0)"
    using assms by (intro node_block_ok [OF _ dir_ptr_own])
  then show "sint (ptrs (inode_at d n) ! 0) = int (ptr (inode_at d n) 0)"
    unfolding ptr_def by (rule block_ok_sint)
qed

lemma dir_read:
  assumes "node_ok d n" and "S_ISDIR (mode (inode_at d n))"
  shows "block_read (sint (ptrs (inode_at d n) ! 0)) d = Some (blk d (ptr (inode_at d n) 0))"
  using dir_ptr [OF assms] by (simp add: block_ok_read)

text \<open>An object is determined by the blocks it owns.\<close>

lemma view_frame:
  assumes "\<And>b. b \<in> own d n \<Longrightarrow> blk d' b = blk d b"
  shows "inode_at d' n = inode_at d n" and "own d' n = own d n"
    and "S_ISDIR (mode (inode_at d n)) \<Longrightarrow> dirs_at d' (inode_at d n) = dirs_at d (inode_at d n)"
    and "view d' n = view d n"
proof -
  show i: "inode_at d' n = inode_at d n"
    using assms [of n] by (simp add: inode_at_def)
  show "own d' n = own d n" by (simp add: own_def i)
  show dirs: "S_ISDIR (mode (inode_at d n)) \<Longrightarrow> dirs_at d' (inode_at d n) = dirs_at d (inode_at d n)"
    by (simp add: dirs_at_def assms dir_ptr_own)
  have "content d' (inode_at d n) = content d (inode_at d n)" if "\<not> S_ISDIR (mode (inode_at d n))"
  proof -
    have "blk d' (ptr (inode_at d n) (x div 4096)) = blk d (ptr (inode_at d n) (x div 4096))"
      if "x < fsize (inode_at d n)" for x
    proof (rule assms)
      have "x div 4096 < nblocks (inode_at d n)"
        using that unfolding nblocks_def by linarith
      with \<open>\<not> S_ISDIR _\<close> show "ptr (inode_at d n) (x div 4096) \<in> own d n"
        by (simp add: own_def data_blocks_def)
    qed
    then show ?thesis by (simp add: content_def fbyte_def)
  qed
  with dirs show "view d' n = view d n"
    by (simp add: view_def i Let_def)
qed

lemma keptI:
  assumes "blk d' 0 = blk d 0" and "\<And>m b. m \<in> M \<Longrightarrow> b \<in> own d m \<Longrightarrow> blk d' b = blk d b"
  shows "kept M d d'"
  unfolding kept_def
proof (intro conjI ballI impI)
  fix m assume m: "m \<in> M" "S_ISDIR (mode (inode_at d m))"
  note f = view_frame [of d m d', OF assms(2) [OF m(1)]]
  show "slots d' m = slots d m" using f(1,3) m(2) by (simp add: slots_def)
qed (rule assms(1))

lemma kept_slots: "kept M d d' \<Longrightarrow> m \<in> M \<Longrightarrow> S_ISDIR (mode (inode_at d m)) \<Longrightarrow> slots d' m = slots d m"
  by (simp add: kept_def)

lemma kept_super: "kept M d d' \<Longrightarrow> blk d' 0 = blk d 0"
  by (simp add: kept_def)

lemma node_ok_frame:
  assumes "node_ok d n" and "\<And>b. b \<in> own d n \<Longrightarrow> blk d' b = blk d b"
    and "nblks d \<le> nblks d'" and "own d n \<inter> free_set d' = {}"
  shows "node_ok d' n"
proof -
  note f = view_frame [of d n d', OF assms(2)]
  have "\<forall>b\<in>own d n. block_ok d' b"
    using assms by (auto simp: node_ok_def block_ok_def)
  with assms(1) f show ?thesis
    by (auto simp: node_ok_def)
qed

end
