(* ===== verification/Resolve.thy ===== *)
theory Resolve
  imports Fsys
begin

text \<open>
  Path resolution against the abstract file system: \<open>resolve\<close> is what \<open>path2inum\<close>
  returns, error numbers included, as a function of the abstract state; \<open>alookup\<close> is
  the plain lookup of a component list. On a consistent disk the byte-level walk computes
  \<open>resolve\<close>.
\<close>

section \<open>Specification\<close>

fun alookup :: "afs \<Rightarrow> nat \<Rightarrow> cstring list \<Rightarrow> nat option" where
  "alookup A n [] = Some n"
| "alookup A n (t # ts) =
     (case children (A n) t of None \<Rightarrow> None | Some k \<Rightarrow> alookup A k ts)"

text \<open>
  The error number depends on where the walk stops: at the last component of a path with
  several components a missing name is \<open>ENOTDIR\<close>, elsewhere it is \<open>ENOENT\<close>, unless it is
  longer than the 27 characters an entry can hold.
\<close>

fun resolve :: "afs \<Rightarrow> bool \<Rightarrow> nat \<Rightarrow> cstring list \<Rightarrow> int" where
  "resolve A multi n [] = int n"
| "resolve A multi n (t # ts) =
     (case children (A n) t of
        None \<Rightarrow>
          (if 27 < length t then (if ts \<noteq> [] then - ENOTDIR else - ENOENT)
           else if multi \<and> ts = [] then - ENOTDIR else - ENOENT)
      | Some k \<Rightarrow>
          if ts = [] then int k
          else if is_adir (A k) then resolve A multi k ts else - ENOTDIR)"

lemma children_is_adir: "children x t = Some k \<Longrightarrow> is_adir x"
  by (cases x rule: is_adir.cases) auto

lemma alookup_is_adir: "alookup A n ts = Some k \<Longrightarrow> ts \<noteq> [] \<Longrightarrow> is_adir (A n)"
  by (cases ts) (auto split: option.splits dest: children_is_adir)

lemma resolve_alookup: "alookup A n ts = Some k \<Longrightarrow> resolve A multi n ts = int k"
proof (induction ts arbitrary: n)
  case Nil
  then show ?case by simp
next
  case (Cons t ts)
  then obtain j where j: "children (A n) t = Some j" and rest: "alookup A j ts = Some k"
    by (auto split: option.splits)
  with Cons.IH [OF rest] alookup_is_adir [OF rest] show ?case by auto
qed

lemma resolve_error:
  "alookup A n ts = None \<Longrightarrow> resolve A multi n ts \<in> {- ENOENT, - ENOTDIR}"
proof (induction ts arbitrary: n)
  case Nil
  then show ?case by simp
next
  case (Cons t ts)
  show ?case
  proof (cases "children (A n) t")
    case None
    then show ?thesis by simp
  next
    case (Some k)
    with Cons.prems have "alookup A k ts = None" and "ts \<noteq> []" by auto
    with Some Cons.IH show ?thesis by simp
  qed
qed

lemma resolve_cases:
  "resolve A multi n ts = (case alookup A n ts of Some k \<Rightarrow> int k | None \<Rightarrow> resolve A multi n ts)"
  by (simp add: resolve_alookup split: option.splits)

lemma alookup_append:
  "alookup A n (ts @ us) = (case alookup A n ts of None \<Rightarrow> None | Some k \<Rightarrow> alookup A k us)"
  by (induction ts arbitrary: n) (auto split: option.splits)

lemma alookup_butlast:
  assumes "ts \<noteq> []"
  shows "alookup A n ts = (case alookup A n (butlast ts) of None \<Rightarrow> None
           | Some p \<Rightarrow> children (A p) (last ts))"
proof -
  have "alookup A n ts = alookup A n (butlast ts @ [last ts])"
    using assms by simp
  then show ?thesis
    by (simp only: alookup_append) (simp split: option.splits)
qed

text \<open>With the parent resolved, a missing last component.\<close>

lemma resolve_missing:
  assumes "ts \<noteq> []" and "alookup A n (butlast ts) = Some p" and "is_adir (A p)"
    and "children (A p) (last ts) = None"
  shows "resolve A multi n ts =
    (if 27 < length (last ts) then - ENOENT else if multi then - ENOTDIR else - ENOENT)"
  using assms
proof (induction ts arbitrary: n)
  case Nil
  then show ?case by simp
next
  case (Cons t ts)
  show ?case
  proof (cases "ts = []")
    case True
    with Cons.prems show ?thesis by simp
  next
    case False
    with Cons.prems obtain k where k: "children (A n) t = Some k" "alookup A k (butlast ts) = Some p"
      by (auto split: option.splits)
    have "is_adir (A k)"
      using k(2) Cons.prems(3) False
      by (cases "butlast ts") (auto split: option.splits dest: children_is_adir)
    with Cons.IH [OF False k(2) Cons.prems(3)] Cons.prems(4) k False show ?thesis by simp
  qed
qed

section \<open>The walk computes it\<close>

lemma scan_dir_map:
  "dir_map (decode_dirs b) t = (let k = scan (\<lambda>e. valid e \<and> t = c_string (name e)) (decode_dirs b) in
     if k < 128 then Some (unat (inode (decode_dirs b ! k))) else None)"
  by (simp add: dir_map_def)

lemma walk_resolve:
  assumes C: "consistent N d" and "n \<in> N" and "S_ISDIR (mode (inode_at d n))" and "ts \<noteq> []"
  shows "walk d multi (inode_at d n) ts = resolve (absfs N d) multi n ts"
  using assms(2-)
proof (induction ts arbitrary: n)
  case Nil
  then show ?case by simp
next
  case (Cons t ts)
  let ?i = "inode_at d n"
  let ?b = "blk d (ptr ?i 0)"
  have ok: "node_ok d n" using consistentD(2) [OF C] Cons.prems by simp
  have size: "size_i ?i \<noteq> 0" and dok: "dir_ok (decode_dirs ?b)"
    using ok Cons.prems by (auto simp: node_ok_def dirs_at_def)
  have rd: "block_read (sint (ptrs ?i ! 0)) d = Some ?b"
    using ok Cons.prems by (intro dir_read)
  have ch: "children (Some (view d n)) = dir_map (decode_dirs ?b)"
    using Cons.prems by (simp add: children_view dirs_at_def)
  show ?case
  proof (cases "dir_map (decode_dirs ?b) t")
    case None
    then have "128 \<le> scan (\<lambda>e. valid e \<and> t = c_string (name e)) (decode_dirs ?b)"
      by (simp add: scan_dir_map Let_def split: if_splits)
    with None show ?thesis
      using Cons.prems size by (simp add: rd ch Let_def)
  next
    case (Some k)
    define j where "j = scan (\<lambda>e. valid e \<and> t = c_string (name e)) (decode_dirs ?b)"
    have j: "j < 128" and k: "unat (inode (decode_dirs ?b ! j)) = k"
      using Some by (simp_all add: scan_dir_map Let_def j_def [symmetric] split: if_splits)
    have short: "\<not> 27 < length t"
      using dir_map_short [OF dok Some] by simp
    have kN: "k \<in> N" using child_in [OF C] Cons.prems Some by (simp add: dirs_at_def)
    have num: "uint (inode (decode_dirs ?b ! j)) = int k" using k by (simp only: uint_unat31)
    have rdk: "block_read (int k) d = Some (blk d k)"
      using consistentD(2) [OF C kN] by (rule node_read)
    have next_walk: "walk d multi (inode_at d k) ts = resolve (absfs N d) multi k ts"
      if "ts \<noteq> []" "S_ISDIR (mode (inode_at d k))"
      using Cons.IH [OF kN] that by simp
    show ?thesis
      using Cons.prems size short j next_walk kN
      by (simp add: rd ch Some Let_def j_def [symmetric] num rdk inode_at_def [symmetric] is_adir_view)
  qed
qed

text \<open>
  \<open>path2inum\<close> on canonical paths. With one component the string is compared with \<open>"/"\<close>
  first; a component is not empty, so the test fails.
\<close>

lemma path2inum_run:
  assumes C: "consistent N d" and "list_all ok_token toks" and "toks \<noteq> []"
    and path: "path = mkpath toks \<or> path = mkpath toks @ [slash]"
    and "length path \<le> 300" and "length toks \<le> 11"
  shows "path2inum path d = (Inr (resolve (absfs N d) (1 < length toks) 2 toks), d)"
proof -
  obtain t ts where toks: "toks = t # ts" and t: "t \<noteq> []"
    using assms(2,3) by (cases toks) (auto simp: ok_token_def)
  have tok: "tokenise (tl path) = toks"
    using path
  proof
    assume "path = mkpath toks"
    then show ?thesis
      using tokenise_mkpath [OF assms(2)] by (simp add: toks mkpath_Cons)
  next
    assume "path = mkpath toks @ [slash]"
    then show ?thesis
      using tokenise_mkpath_end [OF assms(2)] by (simp add: toks mkpath_Cons)
  qed
  have "path \<noteq> []" and "hd path = slash" and "path \<noteq> [slash]"
    using path t by (auto simp: toks mkpath_Cons)
  moreover have "copy_tokens path d = (Inr toks, d)"
    using assms tok \<open>path \<noteq> []\<close> by (simp add: copy_tokens_def ret_def)
  moreover have "block_read 2 d = Some (blk d 2)"
    using node_read [OF consistentD(2) [OF C root_in(1) [OF C]]] by simp
  ultimately show ?thesis
    using walk_resolve [OF C root_in [OF C] assms(3)] assms(3)
    by (simp add: path2inum_def andThen_def run_simps inode_at_def)
qed

lemma path2inum_root: "path2inum [slash] d = (Inr 2, d)"
  by (simp add: path2inum_def run_simps)

lemma path2inum_mkpath:
  assumes "consistent N d" and "ok_path toks"
  shows "path2inum (mkpath toks) d = (Inr (resolve (absfs N d) (1 < length toks) 2 toks), d)"
  using assms by (intro path2inum_run) (auto simp: ok_path_def)

lemma path2inum_parent:
  assumes C: "consistent N d" and ok: "ok_path toks"
  shows "path2inum (parent_path (mkpath toks) toks) d =
    (Inr (resolve (absfs N d) (2 < length toks) 2 (butlast toks)), d)"
proof -
  have pp: "parent_path (mkpath toks) toks = mkpath (butlast toks) @ [slash]"
    using ok by (intro parent_path_mkpath) (simp add: ok_path_def)
  show ?thesis
  proof (cases "butlast toks = []")
    case True
    then show ?thesis by (simp add: pp path2inum_root)
  next
    case False
    have "list_all ok_token (butlast toks)"
      using ok by (auto simp: ok_path_def list_all_iff dest: in_set_butlastD)
    moreover have "length (parent_path (mkpath toks) toks) \<le> 300"
      using ok by (auto simp: parent_path_def ok_path_def min_def)
    moreover have "(1 < length (butlast toks)) = (2 < length toks)" and "length (butlast toks) \<le> 11"
      using ok by (auto simp: ok_path_def)
    ultimately show ?thesis
      using path2inum_run [OF C _ False, of "parent_path (mkpath toks) toks"] by (simp add: pp)
  qed
qed

text \<open>A resolved number is a live inode.\<close>

lemma alookup_in:
  assumes "consistent N d" and "n \<in> N" and "alookup (absfs N d) n ts = Some k"
  shows "k \<in> N"
  using assms(2,3)
proof (induction ts arbitrary: n)
  case Nil
  then show ?case by simp
next
  case (Cons t ts)
  then obtain j where j: "children (absfs N d n) t = Some j" "alookup (absfs N d) j ts = Some k"
    by (auto split: option.splits)
  then have "j \<in> N"
    using child_in(1) [OF assms(1) Cons.prems(1)] Cons.prems(1)
    by (auto simp: children_view split: if_splits)
  with j Cons.IH show ?case by simp
qed

lemma live_positive: "consistent N d \<Longrightarrow> n \<in> N \<Longrightarrow> 2 \<le> n \<and> n < 32768"
  using consistentD(2) [of N d n] by (auto simp: node_ok_def block_ok_def own_def)

lemma resolve_live:
  assumes "consistent N d" and "alookup (absfs N d) 2 toks = Some k"
  shows "resolve (absfs N d) multi 2 toks = int k" and "0 < int k" and "k \<in> N"
  using assms resolve_alookup alookup_in [OF assms(1) root_in(1) [OF assms(1)] assms(2)]
    live_positive [OF assms(1), of k] by auto

lemma resolve_not_found:
  assumes "alookup A n toks = None"
  shows "resolve A multi n toks < 0" and "resolve A multi n toks \<noteq> - ENOTDIR \<longleftrightarrow> resolve A multi n toks = - ENOENT"
  using resolve_error [OF assms, of multi] by auto

end
