(* ===== verification/Tree.thy ===== *)
theory Tree
  imports Resolve
begin

text \<open>
  The abstract operations and their laws: what create, mkdir, unlink, rmdir, rename,
  write and the attribute changes do to the map of objects, and that the entries stay a
  tree. The last section is the common frame of the refinement proofs: a disk that agrees
  with a consistent one except on some objects is consistent again.
\<close>

section \<open>Changing one object\<close>

fun set_children :: "(cstring \<Rightarrow> nat option) \<Rightarrow> obj \<Rightarrow> obj" where
  "set_children m (ADir a s m0) = ADir a s m"
| "set_children m (AFile a c) = AFile a c"

text \<open>Add a name to directory \<open>p\<close>, remove one, replace one.\<close>

definition a_link :: "nat \<Rightarrow> cstring \<Rightarrow> nat \<Rightarrow> afs \<Rightarrow> afs" where
  "a_link p t n A = A(p := map_option (set_children ((children (A p))(t \<mapsto> n))) (A p))"

definition a_unlink :: "nat \<Rightarrow> cstring \<Rightarrow> afs \<Rightarrow> afs" where
  "a_unlink p t A = A(p := map_option (set_children ((children (A p))(t := None))) (A p))"

definition a_rename :: "nat \<Rightarrow> cstring \<Rightarrow> cstring \<Rightarrow> afs \<Rightarrow> afs" where
  "a_rename p t u A = A(p := map_option
     (set_children ((children (A p))(t := None, u := children (A p) t))) (A p))"

lemma children_set: "is_adir x \<Longrightarrow> children (map_option (set_children m) x) = m"
  by (cases x rule: is_adir.cases) auto

lemma is_adir_set [simp]: "is_adir (map_option (set_children m) x) = is_adir x"
  by (cases x rule: is_adir.cases) auto

lemma children_empty: "\<not> is_adir x \<Longrightarrow> children x = Map.empty"
  by (cases x rule: is_adir.cases) auto

lemma tree_okD:
  assumes "tree_ok A"
  shows "is_adir (A 2)" and "children (A p) t = Some n \<Longrightarrow> n \<noteq> 2"
    and "children (A p) t = Some n \<Longrightarrow> A n \<noteq> None"
    and "children (A p) t = Some n \<Longrightarrow> children (A q) u = Some n \<Longrightarrow> p = q \<and> t = u"
  using assms unfolding tree_ok_def by metis+

text \<open>Same entries, same live numbers: still a tree.\<close>

lemma tree_ok_same:
  assumes "tree_ok A" and "is_adir (B 2)" and "\<And>p. children (B p) = children (A p)"
    and "\<And>p. A p \<noteq> None \<Longrightarrow> B p \<noteq> None"
  shows "tree_ok B"
  using assms by (simp add: tree_ok_def)

lemma tree_ok_new:
  assumes T: "tree_ok A" and p: "is_adir (A p)" and "children (A p) t = None"
    and x: "A x = None" and "x \<noteq> 2" and c: "children (Some ob) = Map.empty"
  shows "tree_ok ((a_link p t x A)(x \<mapsto> ob))"
proof -
  define B where "B = (a_link p t x A)(x \<mapsto> ob)"
  have px: "p \<noteq> x" using p x by auto
  have ch: "children (B q) = (if q = p then (children (A p))(t \<mapsto> x) else children (A q))" for q
    using px p x c by (auto simp: B_def a_link_def children_set)
  have dom: "A q \<noteq> None \<Longrightarrow> B q \<noteq> None" and "B x \<noteq> None" for q
    by (auto simp: B_def a_link_def)
  have fresh: "children (A q) u \<noteq> Some x" for q u
    using tree_okD(3) [OF T] x by metis
  show ?thesis
    unfolding B_def [symmetric] tree_ok_def
  proof (intro conjI allI impI)
    show "is_adir (B 2)"
      using tree_okD(1) [OF T] \<open>x \<noteq> 2\<close> by (auto simp: B_def a_link_def)
  next
    fix q u n assume "children (B q) u = Some n"
    then show "n \<noteq> 2" and "B n \<noteq> None"
      using tree_okD(2,3) [OF T] \<open>x \<noteq> 2\<close> dom \<open>B x \<noteq> None\<close> by (auto simp: ch split: if_splits)
  next
    fix q r u v n assume "children (B q) u = Some n" and "children (B r) v = Some n"
    then have "q = r \<and> u = v"
      using tree_okD(4) [OF T] fresh by (auto simp: ch split: if_splits)
    then show "q = r" and "u = v" by auto
  qed
qed

lemma tree_ok_removed:
  assumes T: "tree_ok A" and c: "children (A p) t = Some x" and e: "children (A x) = Map.empty"
  shows "tree_ok ((a_unlink p t A)(x := None))"
proof -
  define B where "B = (a_unlink p t A)(x := None)"
  have p: "is_adir (A p)" using c by (rule children_is_adir)
  have px: "p \<noteq> x" using c e by auto
  have x2: "x \<noteq> 2" using tree_okD(2) [OF T c] .
  have ch: "children (B q) = (if q = p then (children (A p))(t := None) else children (A q))" for q
    using px p e by (auto simp: B_def a_unlink_def children_set)
  have ne: "q = p \<and> u = t" if "children (A q) u = Some x" for q u
    using tree_okD(4) [OF T that c] .
  show ?thesis
    unfolding B_def [symmetric] tree_ok_def
  proof (intro conjI allI impI)
    show "is_adir (B 2)"
      using tree_okD(1) [OF T] x2 by (auto simp: B_def a_unlink_def)
  next
    fix q u n assume a: "children (B q) u = Some n"
    then have o: "children (A q) u = Some n" and "n \<noteq> x"
      using ne by (auto simp: ch split: if_splits)
    then show "n \<noteq> 2" and "B n \<noteq> None"
      using tree_okD(2,3) [OF T o] by (auto simp: B_def a_unlink_def)
  next
    fix q r u v n assume "children (B q) u = Some n" and "children (B r) v = Some n"
    then have "q = r \<and> u = v"
      using tree_okD(4) [OF T] by (auto simp: ch split: if_splits)
    then show "q = r" and "u = v" by auto
  qed
qed

lemma tree_ok_renamed:
  assumes T: "tree_ok A" and c: "children (A p) t = Some x" and u: "children (A p) u = None"
  shows "tree_ok (a_rename p t u A)"
proof -
  define B where "B = a_rename p t u A"
  have p: "is_adir (A p)" using c by (rule children_is_adir)
  have tu: "t \<noteq> u" using c u by auto
  have ch: "children (B q) = (if q = p then (children (A p))(t := None, u \<mapsto> x) else children (A q))" for q
    using p c by (auto simp: B_def a_rename_def children_set)
  have dom: "A q \<noteq> None \<Longrightarrow> B q \<noteq> None" for q
    by (auto simp: B_def a_rename_def)
  show ?thesis
    unfolding B_def [symmetric] tree_ok_def
  proof (intro conjI allI impI)
    show "is_adir (B 2)"
      using tree_okD(1) [OF T] by (auto simp: B_def a_rename_def)
  next
    fix q v n assume "children (B q) v = Some n"
    then have "\<exists>w. children (A q) w = Some n"
      using c by (auto simp: ch split: if_splits)
    then obtain w where w: "children (A q) w = Some n" ..
    show "n \<noteq> 2" and "B n \<noteq> None"
      using tree_okD(2,3) [OF T w] dom by auto
  next
    fix q r v w n assume a: "children (B q) v = Some n" and b: "children (B r) w = Some n"
    have old: "children (A q) (if q = p \<and> v = u then t else v) = Some n" "q = p \<Longrightarrow> v \<noteq> t"
      if "children (B q) v = Some n" for q v
      using that c tu by (auto simp: ch split: if_splits)
    have "q = r \<and> (if q = p \<and> v = u then t else v) = (if r = p \<and> w = u then t else w)"
      using tree_okD(4) [OF T old(1) [OF a] old(1) [OF b]] .
    then show "q = r" and "v = w"
      using old(2) [OF a] old(2) [OF b] by (auto split: if_splits)
  qed
qed

section \<open>Frame of the refinement proofs\<close>

lemma consistent_step:
  assumes C: "consistent N d" and M: "mountable d'" and le: "nblks d \<le> nblks d'"
    and sub: "N' - X \<subseteq> N"
    and frame: "\<And>m b. m \<in> N' - X \<Longrightarrow> b \<in> own d m \<Longrightarrow> blk d' b = blk d b"
    and free: "\<And>m. m \<in> N' - X \<Longrightarrow> own d m \<inter> free_set d' = {}"
    and ok: "\<And>m. m \<in> N' \<inter> X \<Longrightarrow> node_ok d' m"
    and dis: "\<And>m k. m \<in> N' \<inter> X \<Longrightarrow> k \<in> N' \<Longrightarrow> m \<noteq> k \<Longrightarrow> own d' m \<inter> own d' k = {}"
    and T: "tree_ok (absfs N' d')"
  shows "consistent N' d'"
proof -
  have same: "own d' m = own d m" if "m \<in> N' - X" for m
    using frame [OF that] by (rule view_frame)
  have "node_ok d' m" if "m \<in> N'" for m
  proof (cases "m \<in> X")
    case True
    with that ok show ?thesis by simp
  next
    case False
    with that sub have m: "m \<in> N' - X" "m \<in> N" by auto
    show ?thesis
      using consistentD(2) [OF C m(2)] frame [OF m(1)] le free [OF m(1)] by (rule node_ok_frame)
  qed
  moreover have "own d' m \<inter> own d' k = {}" if "m \<in> N'" "k \<in> N'" "m \<noteq> k" for m k
  proof (cases "m \<in> X \<or> k \<in> X")
    case True
    with that dis show ?thesis by blast
  next
    case False
    with that sub have "m \<in> N" "k \<in> N" "m \<in> N' - X" "k \<in> N' - X" by auto
    with consistentD(4) [OF C] that(3) same show ?thesis by simp
  qed
  ultimately show ?thesis
    using M T by (simp add: consistent_def)
qed

lemma absfs_step:
  assumes "N' - X \<subseteq> N" and "\<And>m b. m \<in> N' - X \<Longrightarrow> b \<in> own d m \<Longrightarrow> blk d' b = blk d b"
    and "m \<in> N'" and "m \<notin> X"
  shows "absfs N' d' m = absfs N d m"
  using assms view_frame(4) [of d m d'] by (auto simp: absfs_def)

text \<open>What the map block, the free set and the live objects have to do with each other.\<close>

lemma own_block_ok: "consistent N d \<Longrightarrow> m \<in> N \<Longrightarrow> b \<in> own d m \<Longrightarrow> block_ok d b"
  using consistentD(2) node_block_ok by blast

lemma own_not_map: "consistent N d \<Longrightarrow> m \<in> N \<Longrightarrow> 1 \<notin> own d m"
  using own_block_ok [of N d m 1] by (auto simp: block_ok_def)

lemma own_not_free: "consistent N d \<Longrightarrow> m \<in> N \<Longrightarrow> own d m \<inter> free_set d = {}"
  using own_block_ok by (fastforce simp: block_ok_def)

lemma own_inside: "consistent N d \<Longrightarrow> m \<in> N \<Longrightarrow> b \<in> own d m \<Longrightarrow> b < nblks d"
  using own_block_ok by (fastforce simp: block_ok_def)

lemma free_not_live: "consistent N d \<Longrightarrow> x \<in> free_set d \<Longrightarrow> x \<notin> N"
  using own_not_free [of N d x] own_self [of x d] by blast

lemma free_set_range: "x \<in> free_set d \<Longrightarrow> 3 \<le> x \<and> x < 32768"
  by (simp add: free_set_def)

lemma super_block:
  assumes "consistent N d"
  shows "0 < nblks d" and "m \<in> N \<Longrightarrow> 0 \<notin> own d m" and "0 \<notin> free_set d"
proof -
  show "0 < nblks d" using consistentD(1) [OF assms] by (simp add: mountable_def)
  show "0 \<notin> own d m" if "m \<in> N" using own_block_ok [OF assms that, of 0] by (auto simp: block_ok_def)
  show "0 \<notin> free_set d" using free_set_range [of 0 d] by auto
qed

text \<open>A path that names a live object.\<close>

lemma path_live:
  assumes "consistent N d" and "ok_path toks" and "alookup (absfs N d) 2 toks = Some n"
  shows "path2inum (mkpath toks) d = (Inr (int n), d)" and "n \<in> N"
    and "block_read (int n) d = Some (blk d n)" and "0 < int n" and "node_ok d n" and "n < 32768"
proof -
  show n: "n \<in> N" and "0 < int n"
    using resolve_live [OF assms(1,3)] by auto
  then show "node_ok d n" and "n < 32768"
    using consistentD(2) [OF assms(1)] live_positive [OF assms(1)] by auto
  then show "block_read (int n) d = Some (blk d n)"
    by (intro node_read)
  show "path2inum (mkpath toks) d = (Inr (int n), d)"
    using path2inum_mkpath [OF assms(1,2)] resolve_live [OF assms(1,3)] by simp
qed

lemma path_dead:
  assumes "consistent N d" and "ok_path toks" and "alookup (absfs N d) 2 toks = None"
  obtains r where "path2inum (mkpath toks) d = (Inr r, d)" and "r = - ENOENT \<or> r = - ENOTDIR"
    and "r = resolve (absfs N d) (1 < length toks) 2 toks"
  using path2inum_mkpath [OF assms(1,2)] resolve_error [OF assms(3)] by blast

end
