(* ===== verification/FileSpec.thy ===== *)
theory FileSpec
  imports Tree
begin

text \<open>
  File contents as byte sequences: reading returns a segment, writing replaces one (and
  extends the file), truncation frees the data blocks. The loops of \<open>fs_read\<close> and
  \<open>fs_write\<close> are related to the bytes at file positions (\<open>fbyte\<close>); \<open>wrote\<close> is the
  effect of a part of the write loop, and it composes.
\<close>

section \<open>Reading\<close>

lemma fsize_int: "0 \<le> sint (size_i i) \<Longrightarrow> int (fsize i) = sint (size_i i)"
  by (simp add: fsize_def)

lemma div_block:
  assumes "x mod 4096 + r \<le> 4096" and "j < r"
  shows "(x + j) div 4096 = x div (4096 :: nat)"
proof (rule div_nat_eqI)
  define q where "q = x div 4096"
  have x: "x = 4096 * q + x mod 4096" by (simp add: q_def)
  with assms have "4096 * q \<le> x + j" and "x + j < 4096 * q + 4096" by linarith+
  then show "4096 * (x div 4096) \<le> x + j" and "x + j < 4096 * Suc (x div 4096)"
    by (simp_all add: q_def [symmetric])
qed

lemma mod_block: "x mod 4096 + r \<le> 4096 \<Longrightarrow> j < r \<Longrightarrow> (x + j) mod 4096 = x mod (4096 :: nat) + j"
  by (simp add: mod_nat_eqI)

lemma slice_fbyte:
  assumes "wf_disk d" and "x mod 4096 + r \<le> 4096"
  shows "slice (blk d (ptr i (x div 4096))) (x mod 4096) r = map (fbyte d i) [x..<x + r]"
proof (rule nth_equalityI)
  show "length (slice (blk d (ptr i (x div 4096))) (x mod 4096) r) = length (map (fbyte d i) [x..<x + r])"
    using assms by (simp add: length_blk)
next
  fix j assume "j < length (slice (blk d (ptr i (x div 4096))) (x mod 4096) r)"
  then have j: "j < r" by simp
  then show "slice (blk d (ptr i (x div 4096))) (x mod 4096) r ! j = map (fbyte d i) [x..<x + r] ! j"
    using assms by (simp add: slice_nth length_blk fbyte_def div_block [OF assms(2)] mod_block [OF assms(2)])
qed

lemma upt_join: "a \<le> b \<Longrightarrow> b \<le> c \<Longrightarrow> [a..<b] @ [b..<c] = [a..<c]"
  by (metis le_add_diff_inverse upt_add_eq_append)

lemma length_content [simp]: "length (content d i) = fsize i"
  by (simp add: content_def)

lemma content_segment:
  "take len (drop off (content d i)) = map (fbyte d i) [off..<off + min len (fsize i - off)]"
proof (rule nth_equalityI)
  fix j assume "j < length (take len (drop off (content d i)))"
  then show "take len (drop off (content d i)) ! j
      = map (fbyte d i) [off..<off + min len (fsize i - off)] ! j"
    by (auto simp: content_def)
qed simp

text \<open>A file whose mapped blocks can be read.\<close>

definition readable :: "disk \<Rightarrow> fs_inode \<Rightarrow> bool" where
  "readable d i \<longleftrightarrow> 0 \<le> sint (size_i i) \<and> fsize i \<le> 4096 * 1019
     \<and> (\<forall>k<nblocks i. block_ok d (ptr i k))"

lemma readable_block:
  assumes "readable d i" and "x < fsize i"
  shows "x div 4096 < 1019" and "block_ok d (ptr i (x div 4096))"
    and "block_read (sint (ptrs i ! (x div 4096))) d = Some (blk d (ptr i (x div 4096)))"
proof -
  show "x div 4096 < 1019"
    using assms by (auto simp: readable_def)
  have "x div 4096 < nblocks i"
    using assms(2) unfolding nblocks_def by linarith
  then show b: "block_ok d (ptr i (x div 4096))"
    using assms(1) by (simp add: readable_def)
  then show "block_read (sint (ptrs i ! (x div 4096))) d = Some (blk d (ptr i (x div 4096)))"
    using block_ok_read [OF b] block_ok_sint [of d "ptrs i ! (x div 4096)"] by (simp add: ptr_def)
qed

text \<open>The two ways through the loop head.\<close>

lemma read_loop_done:
  assumes "\<not> (nread < len \<and> int (nread + off) < sint (size_i i))"
  shows "read_loop i len off nread bn bo buffer out d = (Inr (nread, out), d)"
  using assms by (subst read_loop.simps) (simp only: if_False ret_run)

lemma read_loop_step:
  assumes "nread < len \<and> nread + off < s" and sz: "sint (size_i i) = int s"
    and "bn < 1019" and "bo < 4096" and "block_read (sint (ptrs i ! bn)) d = Some b"
    and r: "r = min (4096 - bo) (min (len - nread) (s - (nread + off)))"
  shows "read_loop i len off nread bn bo buffer out d =
    read_loop i len off (nread + r) (bn + 1) 0 b (out @ slice b bo r) d"
proof -
  have rl: "(if sint (size_i i) < int (nread + off + (if len < nread + (4096 - bo) then len - nread else 4096 - bo))
      then nat (sint (size_i i)) - off - nread
      else (if len < nread + (4096 - bo) then len - nread else 4096 - bo)) = r"
    using assms(1,4) unfolding r sz by (auto simp: min_def)
  have "\<not> (1019 \<le> bn \<or> 4096 \<le> bo)" using assms by simp
  moreover have "nread < len \<and> int (nread + off) < sint (size_i i)" using assms by simp
  ultimately show ?thesis
    using assms(5) by (subst read_loop.simps)
       (simp only: simp_thms if_True if_False Let_def rl andThen_def load_def
          prod.case sum.case option.case)
qed

lemma read_loop_run:
  assumes R: "readable d i" and W: "wf_disk d"
  shows "(nread < len \<and> nread + off < fsize i \<longrightarrow>
            bn = (nread + off) div 4096 \<and> bo = (nread + off) mod 4096) \<Longrightarrow>
     m = min (len - nread) (fsize i - (nread + off)) \<Longrightarrow>
     read_loop i len off nread bn bo buffer out d =
       (Inr (nread + m, out @ map (fbyte d i) [nread + off..<nread + off + m]), d)"
proof (induction "len - nread" arbitrary: nread bn bo buffer out m rule: less_induct)
  case less
  have sz: "sint (size_i i) = int (fsize i)"
    using R by (simp add: readable_def fsize_int)
  show ?case
  proof (cases "nread < len \<and> nread + off < fsize i")
    case False
    then have "m = 0" using less.prems(2) by auto
    with False show ?thesis
      by (subst read_loop_done) (auto simp: sz)
  next
    case True
    define x where "x = nread + off"
    have b: "bn = x div 4096" "bo = x mod 4096" "x < fsize i"
      using less.prems(1) True by (simp_all add: x_def)
    define r where "r = min (4096 - bo) (min (len - nread) (fsize i - x))"
    have r: "0 < r" "bo + r \<le> 4096" "r \<le> len - nread" "r \<le> fsize i - x"
      using True b by (auto simp: r_def x_def)
    have buf: "slice (blk d (ptr i bn)) bo r = map (fbyte d i) [x..<x + r]"
      using slice_fbyte [OF W, of x r i] r(2) by (simp add: b)
    have nxt: "nread + r < len \<and> nread + r + off < fsize i \<longrightarrow>
        bn + 1 = (nread + r + off) div 4096 \<and> 0 = (nread + r + off) mod 4096"
    proof
      assume "nread + r < len \<and> nread + r + off < fsize i"
      then have "r = 4096 - bo" unfolding r_def x_def by linarith
      moreover have "bo \<le> 4096" and "x = 4096 * bn + bo" using r b by simp_all
      ultimately have "x + r = 4096 * (bn + 1)" by simp
      then show "bn + 1 = (nread + r + off) div 4096 \<and> 0 = (nread + r + off) mod 4096"
        by (simp add: x_def ac_simps)
    qed
    have IH: "read_loop i len off (nread + r) (bn + 1) 0 (blk d (ptr i bn)) out' d =
        (Inr (nread + r + (m - r), out' @ map (fbyte d i) [nread + r + off..<nread + r + off + (m - r)]), d)" for out'
    proof (rule less.hyps)
      show "len - (nread + r) < len - nread" using r True by linarith
      show "m - r = min (len - (nread + r)) (fsize i - (nread + r + off))"
        unfolding less.prems(2) using r by (simp add: min_diff)
    qed (rule nxt)
    have "read_loop i len off nread bn bo buffer out d =
        read_loop i len off (nread + r) (bn + 1) 0 (blk d (ptr i bn)) (out @ slice (blk d (ptr i bn)) bo r) d"
      using True readable_block [OF R b(3)] b(1,2)
      by (intro read_loop_step [OF _ sz]) (simp_all add: r_def x_def)
    also have "\<dots> = (Inr (nread + m, out @ map (fbyte d i) [x..<x + r] @ map (fbyte d i) [x + r..<x + m]), d)"
      using IH buf r(3,4) less.prems(2) by (simp add: x_def ac_simps)
    also have "map (fbyte d i) [x..<x + r] @ map (fbyte d i) [x + r..<x + m] = map (fbyte d i) [x..<x + m]"
      using r(3,4) less.prems(2) by (subst map_append [symmetric], subst upt_join) (auto simp: x_def)
    finally show ?thesis by (simp add: x_def)
  qed
qed

lemma node_readable:
  assumes "node_ok d n" and "\<not> S_ISDIR (mode (inode_at d n))"
  shows "readable d (inode_at d n)"
  using assms by (auto simp: node_ok_def readable_def own_def data_blocks_def)

lemma view_file:
  assumes "view d n = AFile a c"
  shows "\<not> S_ISDIR (mode (inode_at d n))" and "a = attrs_of (inode_at d n)"
    and "c = content d (inode_at d n)"
  using assms by (auto simp: view_def Let_def split: if_splits)

lemma view_dir:
  assumes "view d n = ADir a s m"
  shows "S_ISDIR (mode (inode_at d n))" and "a = attrs_of (inode_at d n)"
    and "s = sint (size_i (inode_at d n))" and "m = dir_map (dirs_at d (inode_at d n))"
  using assms by (auto simp: view_def Let_def split: if_splits)

lemma fs_read_file:
  assumes C: "consistent N d" and P: "ok_path toks"
    and L: "alookup (absfs N d) 2 toks = Some n" and V: "absfs N d n = Some (AFile a c)"
  shows "fs_read e (mkpath toks) len off d =
    (Inr (int (length (take len (drop off c))), take len (drop off c)), d)"
proof -
  note p = path_live [OF C P L]
  let ?i = "inode_at d n"
  have f: "\<not> S_ISDIR (mode ?i)" and c: "c = content d ?i"
    using V p(2) view_file [of d n a c] by auto
  have R: "readable d ?i" using p(5) f by (rule node_readable)
  have sz: "sint (size_i ?i) = int (fsize ?i)" and bnd: "fsize ?i \<le> 4096 * 1019"
    using R by (simp_all add: readable_def fsize_int)
  show ?thesis
  proof (cases "fsize ?i \<le> off")
    case True
    then show ?thesis
      using p(1,3,4) f sz c
      by (simp add: fs_read_def andThen_def run_simps Let_def inode_at_def [symmetric])
  next
    case False
    define m where "m = min len (fsize ?i - off)"
    have "read_loop ?i len off 0 (off div 4096) (off mod 4096) (stack e ''buffer'') [] d =
        (Inr (0 + m, [] @ map (fbyte d ?i) [0 + off..<0 + off + m]), d)"
      using R C by (intro read_loop_run) (simp_all add: m_def consistent_def mountable_def)
    moreover have "take len (drop off c) = map (fbyte d ?i) [off..<off + m]"
      by (simp add: c content_segment m_def)
    moreover have "wrap32 (int m) = int m"
      using bnd by (intro wrap32_id) (auto simp: m_def)
    ultimately show ?thesis
      using p(1,3,4) f sz False
      by (simp add: fs_read_def andThen_def run_simps Let_def inode_at_def [symmetric])
  qed
qed

end
