(* ===== verification/WriteSpec.thy ===== *)
theory WriteSpec
  imports FileSpec
begin

text \<open>
  \<open>fs_write\<close> and \<open>fs_truncate\<close> against byte sequences. \<open>mapped d i M\<close> says that the
  first \<open>M\<close> pointers of an inode in memory name distinct good blocks; \<open>wrote\<close> is the
  effect of a part of the write loop on the positions \<open>lo \<dots> hi\<close>, and it composes.
\<close>

section \<open>Effects of the write loop\<close>

definition mapped :: "disk \<Rightarrow> fs_inode \<Rightarrow> nat \<Rightarrow> bool" where
  "mapped d i M \<longleftrightarrow> mountable d \<and> length (ptrs i) = 1019 \<and> M \<le> 1019
     \<and> (\<forall>k<M. block_ok d (ptr i k)) \<and> inj_on (ptr i) {..<M}"

definition wrote ::
  "disk \<Rightarrow> fs_inode \<Rightarrow> nat \<Rightarrow> disk \<Rightarrow> fs_inode \<Rightarrow> nat \<Rightarrow> nat \<Rightarrow> nat \<Rightarrow> (nat \<Rightarrow> byte) \<Rightarrow> bool" where
  "wrote d i M d' i' M' lo hi src \<longleftrightarrow>
     M \<le> M' \<and> hi \<le> 4096 * M' \<and> i'\<lparr>ptrs := []\<rparr> = i\<lparr>ptrs := []\<rparr> \<and> (\<forall>k<M. ptr i' k = ptr i k)
     \<and> (\<forall>x. lo \<le> x \<longrightarrow> x < hi \<longrightarrow> fbyte d' i' x = src x)
     \<and> (\<forall>x<4096 * M. \<not> (lo \<le> x \<and> x < hi) \<longrightarrow> fbyte d' i' x = fbyte d i x)
     \<and> nblks d \<le> nblks d'
     \<and> ptr i' ` {M..<M'} \<subseteq> free_set d \<and> free_set d' = free_set d - ptr i' ` {M..<M'}
     \<and> (\<forall>b. b \<noteq> 1 \<longrightarrow> b < nblks d \<longrightarrow> b \<notin> free_set d \<longrightarrow> b \<notin> ptr i ` {..<M} \<longrightarrow> blk d' b = blk d b)"

lemma wroteD:
  assumes "wrote d i M d' i' M' lo hi src"
  shows "M \<le> M'" and "hi \<le> 4096 * M'" and "i'\<lparr>ptrs := []\<rparr> = i\<lparr>ptrs := []\<rparr>" and "k < M \<Longrightarrow> ptr i' k = ptr i k"
    and "lo \<le> x \<Longrightarrow> x < hi \<Longrightarrow> fbyte d' i' x = src x"
    and "x < 4096 * M \<Longrightarrow> \<not> (lo \<le> x \<and> x < hi) \<Longrightarrow> fbyte d' i' x = fbyte d i x"
    and "nblks d \<le> nblks d'" and "ptr i' ` {M..<M'} \<subseteq> free_set d"
    and "free_set d' = free_set d - ptr i' ` {M..<M'}"
    and "b \<noteq> 1 \<Longrightarrow> b < nblks d \<Longrightarrow> b \<notin> free_set d \<Longrightarrow> b \<notin> ptr i ` {..<M} \<Longrightarrow> blk d' b = blk d b"
  using assms by (simp_all add: wrote_def)

lemma wrote_nothing: "hi \<le> lo \<Longrightarrow> hi \<le> 4096 * M \<Longrightarrow> wrote d i M d i M lo hi src"
  by (simp add: wrote_def)

lemma image_split: "a \<le> b \<Longrightarrow> b \<le> c \<Longrightarrow> f ` {a..<c} = f ` {a..<b} \<union> f ` {b..<(c :: nat)}"
  by (metis image_Un ivl_disj_un_two(3))

lemma wrote_trans:
  assumes 1: "wrote d i M d1 i1 M1 lo mid src" and 2: "wrote d1 i1 M1 d2 i2 M2 mid hi src"
    and "lo \<le> mid" and "mid \<le> hi"
  shows "wrote d i M d2 i2 M2 lo hi src"
proof -
  note a = wroteD [OF 1] and b = wroteD [OF 2]
  have img1: "ptr i2 ` {M..<M1} = ptr i1 ` {M..<M1}"
    using b(4) by (intro image_cong) auto
  have img: "ptr i2 ` {M..<M2} = ptr i1 ` {M..<M1} \<union> ptr i2 ` {M1..<M2}"
    using image_split [of M M1 M2 "ptr i2"] a(1) b(1) img1 by simp
  have "fbyte d2 i2 x = src x" if "lo \<le> x" "x < hi" for x
  proof (cases "mid \<le> x")
    case True
    with that b(5) show ?thesis by simp
  next
    case False
    then have "fbyte d2 i2 x = fbyte d1 i1 x"
      using a(2) by (intro b(6)) auto
    with False that a(5) show ?thesis by simp
  qed
  moreover have "fbyte d2 i2 x = fbyte d i x" if "x < 4096 * M" "\<not> (lo \<le> x \<and> x < hi)" for x
  proof -
    have "fbyte d2 i2 x = fbyte d1 i1 x"
      using that a(1) assms(3,4) by (intro b(6)) auto
    also have "\<dots> = fbyte d i x"
      using that assms(3,4) by (intro a(6)) auto
    finally show ?thesis .
  qed
  moreover have "blk d2 c = blk d c"
    if "c \<noteq> 1" "c < nblks d" "c \<notin> free_set d" "c \<notin> ptr i ` {..<M}" for c
  proof -
    have "c \<notin> ptr i1 ` {..<M1}"
    proof
      assume "c \<in> ptr i1 ` {..<M1}"
      then obtain k where k: "k < M1" "c = ptr i1 k" by auto
      show False
      proof (cases "k < M")
        case True
        with k that(4) a(4) [of k] show False by auto
      next
        case False
        with k have "c \<in> ptr i1 ` {M..<M1}" by simp
        with a(8) that(3) show False by blast
      qed
    qed
    then have "blk d2 c = blk d1 c"
      using that a(7,9) by (intro b(10)) auto
    also have "\<dots> = blk d c" using that by (rule a(10))
    finally show ?thesis .
  qed
  moreover have "i2\<lparr>ptrs := []\<rparr> = i\<lparr>ptrs := []\<rparr>"
    using a(3) b(3) by simp
  ultimately show ?thesis
    unfolding wrote_def
    using a b img by (auto simp: Diff_Un)
qed

section \<open>One round of the loop\<close>

definition patched :: "byte list \<Rightarrow> nat \<Rightarrow> byte list \<Rightarrow> nat \<Rightarrow> nat \<Rightarrow> byte list" where
  "patched b bo buf nread r = take bo b @ slice buf nread r @ drop (bo + r) b"

lemma length_patched:
  "length b = 4096 \<Longrightarrow> bo + r \<le> 4096 \<Longrightarrow> nread + r \<le> length buf \<Longrightarrow> length (patched b bo buf nread r) = 4096"
  by (simp add: patched_def)

lemma nth_patched:
  assumes "length b = 4096" and "bo + r \<le> 4096" and "nread + r \<le> length buf" and "j < 4096"
  shows "patched b bo buf nread r ! j = (if bo \<le> j \<and> j < bo + r then buf ! (nread + (j - bo)) else b ! j)"
  using assms by (auto simp: patched_def nth_append slice_nth min_def)

lemma write_loop_done:
  assumes "\<not> (nread < len \<and> nread + off < ns)"
  shows "write_loop e buf len off ns i nread bn bo buffer d = (Inr (Some (i, nread)), d)"
  using assms by (subst write_loop.simps) (simp only: if_False ret_run)

lemma round_len:
  "bo < 4096 \<Longrightarrow> r = min (4096 - bo) (len - nread) \<Longrightarrow> nread < len \<Longrightarrow>
     (if len < nread + (4096 - bo) then len - nread else 4096 - bo) = (r :: nat)"
  by (auto simp: min_def)

lemma write_loop_old:
  assumes "nread < len" and "nread + off < ns" and "bn < 1019" and "bo < 4096"
    and nb: "\<not> beyond_mapped i bn"
    and rd: "block_read (sint (ptrs i ! bn)) d = Some b"
    and r: "r = min (4096 - bo) (len - nread)"
    and wr: "block_write (patched b bo buf nread r) (sint (ptrs i ! bn)) d = (Inr w, d1)"
  shows "write_loop e buf len off ns i nread bn bo buffer d =
    write_loop e buf len off ns i (nread + r) (bn + 1) 0 (patched b bo buf nread r) d1"
proof -
  have g: "nread < len \<and> nread + off < ns" "\<not> (1019 \<le> bn \<or> 4096 \<le> bo)"
    using assms by auto
  show ?thesis
    using g nb rd wr
    by (subst write_loop.simps)
       (simp only: simp_thms if_True if_False Let_def round_len [OF assms(4) r assms(1)]
          andThen_ret andThen_def load_def prod.case sum.case option.case patched_def [symmetric])
qed

lemma write_loop_new:
  assumes "nread < len" and "nread + off < ns" and "bn < 1019" and "bo < 4096"
    and nb: "beyond_mapped i bn"
    and al: "alloc_blk e d = (Inr n, d1)"
    and i1: "i1 = i\<lparr>ptrs := (ptrs i)[bn := word_of_int n]\<rparr>" and nz: "ptrs i1 ! bn \<noteq> 0"
    and rd: "load buffer (sint (ptrs i1 ! bn)) d1 = (Inr b, d1)"
    and r: "r = min (4096 - bo) (len - nread)"
    and wr: "block_write (patched b bo buf nread r) (sint (ptrs i1 ! bn)) d1 = (Inr w, d2)"
  shows "write_loop e buf len off ns i nread bn bo buffer d =
    write_loop e buf len off ns i1 (nread + r) (bn + 1) 0 (patched b bo buf nread r) d2"
proof -
  have g: "nread < len \<and> nread + off < ns" "\<not> (1019 \<le> bn \<or> 4096 \<le> bo)"
    using assms by auto
  have nb1: "beyond_mapped i1 bn" using nb by (simp add: beyond_mapped_def i1)
  show ?thesis
    using g nb nb1 nz al rd wr
    by (subst write_loop.simps)
       (simp only: simp_thms if_True if_False Let_def round_len [OF assms(4) r assms(1)]
          i1 [symmetric] andThen_def ret_def prod.case sum.case patched_def [symmetric])
qed

lemma mountable_length: "mountable d \<Longrightarrow> length (blk d b) = 4096"
  by (simp add: mountable_def wf_disk_def)

lemma block_ok_put:
  assumes "block_ok d b" and "2 \<le> nblks d" and "l \<noteq> 1"
  shows "block_ok (put_block l c d) b"
  using assms by (auto simp: block_ok_def free_set_put)

text \<open>Overwriting a block the file already has.\<close>

lemma step_old:
  assumes M: "mapped d i M" and bn: "bn < M" and x0: "nread + off = 4096 * bn + bo"
    and "bo + r \<le> 4096" and "nread + r \<le> length buf"
    and d1: "d1 = put_block (ptr i bn) (patched (blk d (ptr i bn)) bo buf nread r) d"
  shows "mapped d1 i M" and "wrote d i M d1 i M (nread + off) (nread + off + r) (\<lambda>x. buf ! (x - off))"
proof -
  let ?p = "ptr i bn"
  have mt: "mountable d" and ok: "\<And>k. k < M \<Longrightarrow> block_ok d (ptr i k)" and inj: "inj_on (ptr i) {..<M}"
    using M by (auto simp: mapped_def)
  have p1: "?p \<noteq> 1" and p: "?p < nblks d" using ok [OF bn] by (auto simp: block_ok_def)
  have len: "length (patched (blk d ?p) bo buf nread r) = 4096"
    using assms(4,5) mountable_length [OF mt] by (intro length_patched)
  have fs: "free_set d1 = free_set d"
    using free_set_put p1 mountable_blocks [OF mt] by (simp add: d1)
  show m1: "mapped d1 i M"
    using M len p1 mountable_blocks [OF mt] unfolding d1 mapped_def
    by (auto intro!: block_ok_put)
  have fb: "fbyte d1 i x = (if nread + off \<le> x \<and> x < nread + off + r then buf ! (x - off) else fbyte d i x)"
    if x: "x < 4096 * M" for x
  proof (cases "x div 4096 = bn")
    case True
    then have j: "x = 4096 * bn + x mod 4096" by auto
    have "fbyte d1 i x = patched (blk d ?p) bo buf nread r ! (x mod 4096)"
      by (simp add: fbyte_def True d1)
    also have "\<dots> = (if bo \<le> x mod 4096 \<and> x mod 4096 < bo + r
        then buf ! (nread + (x mod 4096 - bo)) else fbyte d i x)"
      using nth_patched [OF mountable_length [OF mt] assms(4,5)] by (simp add: fbyte_def True)
    also have "\<dots> = (if nread + off \<le> x \<and> x < nread + off + r then buf ! (x - off) else fbyte d i x)"
    proof -
      have "(bo \<le> x mod 4096 \<and> x mod 4096 < bo + r) = (nread + off \<le> x \<and> x < nread + off + r)"
        using x0 j by linarith
      moreover have "nread + (x mod 4096 - bo) = x - off" if "bo \<le> x mod 4096"
        using x0 j that by linarith
      ultimately show ?thesis by auto
    qed
    finally show ?thesis .
  next
    case False
    have k: "x div 4096 < M" using x by (simp add: div_less_iff_less_mult mult.commute)
    then have "ptr i (x div 4096) \<noteq> ?p"
      using inj_onD [OF inj, of "x div 4096" bn] False bn by auto
    then have "fbyte d1 i x = fbyte d i x"
      using ok [OF k] by (simp add: fbyte_def d1 blk_put_other block_ok_def)
    moreover have "\<not> (nread + off \<le> x \<and> x < nread + off + r)"
    proof
      assume "nread + off \<le> x \<and> x < nread + off + r"
      then have "4096 * bn \<le> x" and "x < 4096 * bn + 4096" using x0 assms(4) by linarith+
      then have "x div 4096 = bn" by (intro div_nat_eqI) auto
      with False show False ..
    qed
    ultimately show ?thesis by auto
  qed
  have top: "nread + off + r \<le> 4096 * M"
    using x0 assms(4) bn mult_le_mono2 [of "Suc bn" M 4096] by simp
  show "wrote d i M d1 i M (nread + off) (nread + off + r) (\<lambda>x. buf ! (x - off))"
    unfolding wrote_def
  proof (intro conjI allI impI)
    fix b assume "b \<noteq> 1" "b < nblks d" "b \<notin> free_set d" "b \<notin> ptr i ` {..<M}"
    moreover from this bn have "b \<noteq> ?p" by auto
    ultimately show "blk d1 b = blk d b" by (simp add: d1 blk_put_other)
  qed (use top fb fs p bn in \<open>auto simp: d1\<close>)
qed

text \<open>Appending a block that was free.\<close>

lemma step_new:
  assumes M: "mapped d i M" and bn: "M < 1019" and x0: "nread + off = 4096 * M"
    and "r \<le> 4096" and "nread + r \<le> length buf" and "length b = 4096"
    and n: "n \<in> free_set d"
    and fs1: "free_set (put_block 1 (bit_set (dmap d) n) d) = free_set d - {n}"
    and d2: "d2 = put_block n (patched b 0 buf nread r) (put_block 1 (bit_set (dmap d) n) d)"
    and i1: "i1 = i\<lparr>ptrs := (ptrs i)[M := word_of_int (int n)]\<rparr>"
  shows "mapped d2 i1 (M + 1)"
    and "wrote d i M d2 i1 (M + 1) (nread + off) (nread + off + r) (\<lambda>x. buf ! (x - off))"
proof -
  have mt: "mountable d" and lp: "length (ptrs i) = 1019"
    and ok: "\<And>k. k < M \<Longrightarrow> block_ok d (ptr i k)" and inj: "inj_on (ptr i) {..<M}"
    using M by (auto simp: mapped_def)
  have n3: "3 \<le> n" "n < 32768" using n by (simp_all add: free_set_def)
  have pM: "ptr i1 M = n" using n3 lp bn by (simp add: ptr_def i1 unat_word32 del: of_int_of_nat_eq)
  have pk: "k < M \<Longrightarrow> ptr i1 k = ptr i k" for k by (simp add: ptr_def i1)
  have fresh: "k < M \<Longrightarrow> ptr i k \<noteq> n" for k using ok [of k] n by (auto simp: block_ok_def)
  have nb: "nblks d2 = max (nblks d) (Suc n)" "2 \<le> nblks (put_block 1 (bit_set (dmap d) n) d)"
    using mountable_blocks [OF mt] by (auto simp: d2)
  have fs: "free_set d2 = free_set d - {n}"
    using n3 nb(2) fs1 by (simp add: d2 free_set_put)
  have keep: "blk d2 c = blk d c" if "c \<noteq> 1" "c \<noteq> n" "c < nblks d" for c
    using that by (simp add: d2 blk_put_other)
  have "mountable d2"
    using mt n3 assms(4-6) by (simp add: d2 length_patched)
  moreover have "block_ok d2 (ptr i1 k)" if "k < M + 1" for k
  proof (cases "k = M")
    case True
    then show ?thesis using n3 nb fs by (simp add: pM block_ok_def)
  next
    case False
    then have k: "k < M" using that by simp
    with ok [OF k] show ?thesis by (auto simp: pk [OF k] block_ok_def nb(1) fs)
  qed
  moreover have "inj_on (ptr i1) {..<M + 1}"
  proof (rule inj_onI)
    fix j k assume "j \<in> {..<M + 1}" "k \<in> {..<M + 1}" and eq: "ptr i1 j = ptr i1 k"
    then have "j < M \<or> j = M" and "k < M \<or> k = M" by auto
    then show "j = k"
      using eq fresh [of j] fresh [of k] inj_onD [OF inj, of j k] by (auto simp: pk pM)
  qed
  ultimately show "mapped d2 i1 (M + 1)"
    using bn lp by (simp add: mapped_def i1)
  have "fbyte d2 i1 x = buf ! (x - off)" if "nread + off \<le> x" "x < nread + off + r" for x
  proof -
    have q: "x div 4096 = M" using that x0 assms(4) by (intro div_nat_eqI) auto
    then have j: "x = 4096 * M + x mod 4096" by auto
    then have jr: "x mod 4096 < 0 + r" and idx: "nread + (x mod 4096 - 0) = x - off"
      using that x0 by linarith+
    have "fbyte d2 i1 x = patched b 0 buf nread r ! (x mod 4096)"
      by (simp add: fbyte_def q pM d2)
    also have "\<dots> = buf ! (x - off)"
      using jr idx assms(4) nth_patched [OF assms(6) _ assms(5), of 0 "x mod 4096"] by simp
    finally show ?thesis .
  qed
  moreover have "fbyte d2 i1 x = fbyte d i x" if "x < 4096 * M" for x
  proof -
    have k: "x div 4096 < M" using that by (simp add: div_less_iff_less_mult mult.commute)
    then show ?thesis
      using ok [OF k] fresh [OF k] by (auto simp: fbyte_def pk block_ok_def intro!: arg_cong [where f = "\<lambda>c. c ! _"] keep)
  qed
  moreover have "ptr i1 ` {M..<M + 1} = {n}" using pM by simp
  ultimately show "wrote d i M d2 i1 (M + 1) (nread + off) (nread + off + r) (\<lambda>x. buf ! (x - off))"
    unfolding wrote_def
  proof (intro conjI allI impI)
    fix c assume "c \<noteq> 1" "c < nblks d" "c \<notin> free_set d"
    moreover from this n have "c \<noteq> n" by auto
    ultimately show "blk d2 c = blk d c" by (intro keep)
  qed (use x0 assms(4) n fs nb(1) pk in \<open>auto simp: i1\<close>)
qed

section \<open>The loop\<close>

lemma DIV_ROUND_UP_size:
  assumes "0 \<le> sint (size_i i)" and "fsize i \<le> 4096 * 1019"
  shows "DIV_ROUND_UP (sint (size_i i)) 4096 = int (nblocks i)"
proof -
  have "sint (size_i i) = int (fsize i)" using assms by (simp add: fsize_def)
  moreover have "wrap32 (int (fsize i) + 4096 - 1) = int (fsize i + 4095)"
    using assms(2) by (subst wrap32_id) auto
  moreover have "int (fsize i + 4095) sdiv 4096 = int ((fsize i + 4095) div 4096)"
    by (simp add: signed_divide_int_def zdiv_int)
  ultimately show ?thesis by (simp add: DIV_ROUND_UP_def nblocks_def)
qed

lemma beyond_mapped_iff:
  "0 \<le> sint (size_i i) \<Longrightarrow> fsize i \<le> 4096 * 1019 \<Longrightarrow> beyond_mapped i k \<longleftrightarrow> nblocks i \<le> k"
  by (simp add: beyond_mapped_def DIV_ROUND_UP_size)

text \<open>
  Where the loop stands: \<open>K\<close> blocks belong to the file of the size on the disk, \<open>M\<close> with
  those allocated since. The position is in an old block, or at the start of the next new one.
\<close>

definition loop_at :: "nat \<Rightarrow> nat \<Rightarrow> nat \<Rightarrow> nat \<Rightarrow> nat \<Rightarrow> nat \<Rightarrow> nat \<Rightarrow> bool" where
  "loop_at K off len M nread bn bo \<longleftrightarrow>
     nread \<le> len \<and> (nread + off \<le> 4096 * M \<or> nread < len) \<and> K \<le> M
     \<and> (nread < len \<longrightarrow> bn = (nread + off) div 4096 \<and> bo = (nread + off) mod 4096 \<and>
          (if bn < K then M = K else bn = M \<and> bo = 0))"

lemma loop_at_round:
  assumes "loop_at K off len M nread bn bo" and "nread < len" and "off + len \<le> 4096 * 1019"
    and r: "r = min (4096 - bo) (len - nread)"
  shows "nread + off = 4096 * bn + bo" and "bo < 4096" and "bn < 1019" and "0 < r" and "bo + r \<le> 4096"
    and "nread + r \<le> len" and "nread + r < len \<Longrightarrow> nread + r + off = 4096 * (bn + 1)"
    and "bn < K \<Longrightarrow> M = K" and "\<not> bn < K \<Longrightarrow> bn = M" and "\<not> bn < K \<Longrightarrow> bo = 0" and "K \<le> M"
proof -
  have b: "bn = (nread + off) div 4096" "bo = (nread + off) mod 4096"
    and br: "if bn < K then M = K else bn = M \<and> bo = 0" and KM: "K \<le> M"
    using assms(1,2) by (auto simp: loop_at_def)
  show x: "nread + off = 4096 * bn + bo" and bo: "bo < 4096" using b by auto
  show "bn < 1019" using x assms(2,3) by linarith
  show "0 < r" and "bo + r \<le> 4096" and "nread + r \<le> len" using bo assms(2) by (auto simp: r)
  show "nread + r < len \<Longrightarrow> nread + r + off = 4096 * (bn + 1)" using x bo unfolding r by simp
  show "bn < K \<Longrightarrow> M = K" and "\<not> bn < K \<Longrightarrow> bn = M" and "\<not> bn < K \<Longrightarrow> bo = 0" and "K \<le> M"
    using br KM by auto
qed

lemma loop_at_next:
  assumes "loop_at K off len M nread bn bo" and "nread < len" and "off + len \<le> 4096 * 1019"
    and r: "r = min (4096 - bo) (len - nread)"
  shows "loop_at K off len (max M (bn + 1)) (nread + r) (bn + 1) 0"
proof -
  note R = loop_at_round [OF assms]
  have "nread + r + off \<le> 4096 * (bn + 1)" using R(1,5) by simp
  also have "\<dots> \<le> 4096 * max M (bn + 1)" by (intro mult_le_mono2 max.cobounded2)
  finally have "nread + r + off \<le> 4096 * max M (bn + 1)" .
  moreover have "if bn + 1 < K then max M (bn + 1) = K else bn + 1 = max M (bn + 1)"
    using R(8,9,11) by (cases "bn < K") auto
  ultimately show ?thesis
    using R(6,7,11) by (auto simp: loop_at_def)
qed

lemma beyond_size:
  assumes "0 \<le> sint (size_i i)" and "nat (sint (size_i i)) \<le> 4096 * 1019"
    and "K = (nat (sint (size_i i)) + 4095) div 4096"
  shows "beyond_mapped i bn \<longleftrightarrow> K \<le> bn"
  using assms by (subst beyond_mapped_iff) (auto simp: fsize_def nblocks_def)

text \<open>One round, in an old block and in a new one.\<close>

lemma round_old:
  assumes sz: "0 \<le> sint (size_i i)" "nat (sint (size_i i)) \<le> 4096 * 1019"
    and K: "K = (nat (sint (size_i i)) + 4095) div 4096" and ns: "off + length buf \<le> 4096 * 1019"
    and m: "mapped d i M" and at: "loop_at K off (length buf) M nread bn bo" and more: "nread < length buf"
    and old: "bn < K" and r: "r = min (4096 - bo) (length buf - nread)"
  obtains b d1 where
    "write_loop e buf (length buf) off (off + length buf) i nread bn bo buffer d =
     write_loop e buf (length buf) off (off + length buf) i (nread + r) (bn + 1) 0 b d1"
    and "length b = 4096" and "mapped d1 i M"
    and "wrote d i M d1 i M (nread + off) (nread + off + r) (\<lambda>x. buf ! (x - off))"
    and "d1 = put_block (ptr i bn) b d"
proof -
  note R = loop_at_round [OF at more ns r]
  have bM: "bn < M" using R(8) old by simp
  have ok: "block_ok d (ptr i bn)" and mt: "mountable d" using m bM by (auto simp: mapped_def)
  have si: "sint (ptrs i ! bn) = int (ptr i bn)"
    using ok block_ok_sint [of d "ptrs i ! bn"] by (simp add: ptr_def)
  have "\<not> beyond_mapped i bn" using beyond_size [OF sz K] old by simp
  then have "write_loop e buf (length buf) off (off + length buf) i nread bn bo buffer d =
      write_loop e buf (length buf) off (off + length buf) i (nread + r) (bn + 1) 0
        (patched (blk d (ptr i bn)) bo buf nread r)
        (put_block (ptr i bn) (patched (blk d (ptr i bn)) bo buf nread r) d)"
    using more R(2,3) ok
    by (intro write_loop_old) (auto simp: si block_ok_read block_ok_write r)
  from that [OF this length_patched [OF mountable_length [OF mt] R(5,6)] step_old [OF m bM R(1,5,6) refl] refl]
  show ?thesis .
qed

lemma round_new:
  assumes sz: "0 \<le> sint (size_i i)" "nat (sint (size_i i)) \<le> 4096 * 1019"
    and K: "K = (nat (sint (size_i i)) + 4095) div 4096" and ns: "off + length buf \<le> 4096 * 1019"
    and m: "mapped d i M" and at: "loop_at K off (length buf) M nread bn bo" and more: "nread < length buf"
    and new: "\<not> bn < K" and r: "r = min (4096 - bo) (length buf - nread)"
    and lb: "length buffer = 4096" and room: "free_set d \<noteq> {}"
  obtains b d2 i1 where
    "write_loop e buf (length buf) off (off + length buf) i nread bn bo buffer d =
     write_loop e buf (length buf) off (off + length buf) i1 (nread + r) (bn + 1) 0 b d2"
    and "length b = 4096" and "mapped d2 i1 (M + 1)"
    and "wrote d i M d2 i1 (M + 1) (nread + off) (nread + off + r) (\<lambda>x. buf ! (x - off))"
    and "card (free_set d) = Suc (card (free_set d2))"
    and "\<exists>n. n \<in> free_set d \<and> d2 = put_block n b (put_block 1 (bit_set (dmap d) n) d)"
proof -
  note R = loop_at_round [OF at more ns r]
  have bM: "bn = M" and bo0: "bo = 0" using R(9,10) new by auto
  have M: "M < 1019" using R(3) bM by simp
  have mt: "mountable d" and lp: "length (ptrs i) = 1019" using m by (simp_all add: mapped_def)
  obtain n where n: "n \<in> free_set d"
    and al: "alloc_blk e d = (Inr (int n), put_block 1 (bit_set (dmap d) n) d)"
    and fs1: "free_set (put_block 1 (bit_set (dmap d) n) d) = free_set d - {n}"
    using alloc_blk_Some [OF mt room] by metis
  define da where "da = put_block 1 (bit_set (dmap d) n) d"
  define i1 where "i1 = i\<lparr>ptrs := (ptrs i)[M := word_of_int (int n)]\<rparr>"
  have n3: "3 \<le> n" "n < 32768" using n by (simp_all add: free_set_def)
  have pn: "unat (ptrs i1 ! bn) = n"
    using lp n3 M bM by (simp add: i1_def unat_word32 del: of_int_of_nat_eq)
  then have si: "sint (ptrs i1 ! bn) = int n" and nz: "ptrs i1 ! bn \<noteq> 0"
    using n3 sint_unat [of "ptrs i1 ! bn"] by auto
  have "wf_disk da" using mt by (simp add: da_def mountable_def wf_put_block)
  then obtain b where rd: "load buffer (int n) da = (Inr b, da)" and lb: "length b = 4096"
    using wf_disk_load [of da buffer "int n"] lb by auto
  define d2 where "d2 = put_block n (patched b 0 buf nread r) da"
  have step: "write_loop e buf (length buf) off (off + length buf) i nread bn bo buffer d =
      write_loop e buf (length buf) off (off + length buf) i1 (nread + r) (bn + 1) 0 (patched b bo buf nread r) d2"
  proof (rule write_loop_new [OF more _ R(3,2) _ al])
    show "block_write (patched b bo buf nread r) (sint (ptrs i1 ! bn)) (put_block 1 (bit_set (dmap d) n) d) = (Inr 0, d2)"
      using n3 by (simp add: si d2_def da_def bo0 block_write_in_range)
    show "i1 = i\<lparr>ptrs := (ptrs i)[bn := word_of_int (int n)]\<rparr>"
      by (simp only: i1_def bM)
    show "load buffer (sint (ptrs i1 ! bn)) (put_block 1 (bit_set (dmap d) n) d)
        = (Inr b, put_block 1 (bit_set (dmap d) n) d)"
      using rd by (simp only: si da_def)
  qed (use new beyond_size [OF sz K] nz more in \<open>simp_all add: r\<close>)
  have r4: "r \<le> 4096" using R(5) by simp
  note s = step_new [OF m M R(1) [unfolded bM bo0 add_0_right] r4 R(6) lb n fs1 d2_def [unfolded da_def] i1_def]
  have "free_set d2 = free_set d - {n}" using wroteD(9) [OF s(2)] pn bM by (simp add: ptr_def)
  then have "card (free_set d) = Suc (card (free_set d2))" using n card.remove [of "free_set d" n] by simp
  moreover have "d2 = put_block n (patched b bo buf nread r) (put_block 1 (bit_set (dmap d) n) d)"
    by (simp add: d2_def da_def bo0)
  ultimately show ?thesis using that [OF step length_patched [OF lb R(5,6)] s] n by blast
qed

lemma write_loop_run:
  assumes sz: "0 \<le> sint sz" "nat (sint sz) \<le> 4096 * 1019" and K: "K = (nat (sint sz) + 4095) div 4096"
    and ns: "off + length buf \<le> 4096 * 1019" and W: "W = (off + length buf + 4095) div 4096"
  shows "mapped d i M \<Longrightarrow> size_i i = sz \<Longrightarrow> length buffer = 4096 \<Longrightarrow>
     loop_at K off (length buf) M nread bn bo \<Longrightarrow> W \<le> M + card (free_set d) \<Longrightarrow>
     \<exists>d' i'. write_loop e buf (length buf) off (off + length buf) i nread bn bo buffer d
         = (Inr (Some (i', length buf)), d')
       \<and> mapped d' i' (max M W)
       \<and> wrote d i M d' i' (max M W) (nread + off) (off + length buf) (\<lambda>x. buf ! (x - off))"
proof (induction "length buf - nread" arbitrary: d i M nread bn bo buffer rule: less_induct)
  case less
  note m = less.prems(1) and at = less.prems(4)
  let ?ns = "off + length buf" and ?src = "\<lambda>x. buf ! (x - off)"
  show ?case
  proof (cases "nread < length buf")
    case False
    then have n: "nread = length buf" and hi: "?ns \<le> 4096 * M"
      using at by (auto simp: loop_at_def)
    then have "max M W = M" by (auto simp: W)
    with n hi m show ?thesis by (simp add: write_loop_done wrote_nothing add.commute)
  next
    case True
    define r where "r = min (4096 - bo) (length buf - nread)"
    note R = loop_at_round [OF at True ns r_def] and nx = loop_at_next [OF at True ns r_def]
    have "4096 * (bn + 1) \<le> ?ns + 4095" using R(1) True by simp
    then have bW: "bn + 1 \<le> W" unfolding W by (simp add: less_eq_div_iff_mult_less_eq mult.commute)
    have fin: "length buf - (nread + r) < length buf - nread" using R(4,6) True by linarith
    have sz': "0 \<le> sint (size_i i)" "nat (sint (size_i i)) \<le> 4096 * 1019"
      "K = (nat (sint (size_i i)) + 4095) div 4096"
      using sz K less.prems(2) by auto
    obtain b d1 i1 M1 where step: "write_loop e buf (length buf) off ?ns i nread bn bo buffer d =
        write_loop e buf (length buf) off ?ns i1 (nread + r) (bn + 1) 0 b d1"
      and b: "length b = 4096" and m1: "mapped d1 i1 M1" and M1: "M1 = max M (bn + 1)"
      and w1: "wrote d i M d1 i1 M1 (nread + off) (nread + off + r) ?src"
      and room: "W \<le> M1 + card (free_set d1)"
    proof (cases "bn < K")
      case old: True
      obtain b d1 where *: "write_loop e buf (length buf) off ?ns i nread bn bo buffer d =
          write_loop e buf (length buf) off ?ns i (nread + r) (bn + 1) 0 b d1"
        "length b = 4096" "mapped d1 i M" "wrote d i M d1 i M (nread + off) (nread + off + r) ?src"
        by (rule round_old [OF sz' ns m at True old r_def])
      have "M = max M (bn + 1)" using R(8) old by simp
      moreover have "free_set d1 = free_set d" using wroteD(9) [OF *(4)] by simp
      ultimately show thesis using that [OF *(1-3) _ *(4)] less.prems(5) by simp
    next
      case new: False
      have "bn = M" using R(9) new .
      then have "free_set d \<noteq> {}" using less.prems(5) bW by auto
      then obtain b d2 i1 where *: "write_loop e buf (length buf) off ?ns i nread bn bo buffer d =
          write_loop e buf (length buf) off ?ns i1 (nread + r) (bn + 1) 0 b d2"
        "length b = 4096" "mapped d2 i1 (M + 1)"
        "wrote d i M d2 i1 (M + 1) (nread + off) (nread + off + r) ?src"
        "card (free_set d) = Suc (card (free_set d2))"
        by (rule round_new [OF sz' ns m at True new r_def less.prems(3)])
      then show thesis using that [OF *(1-3) _ *(4)] less.prems(5) \<open>bn = M\<close> by simp
    qed
    have si1: "size_i i1 = sz"
      using wroteD(3) [OF w1] less.prems(2) by (metis fs_inode.select_convs(6) fs_inode.surjective fs_inode.update_convs(7))
    have mx: "max M1 W = max M W" using bW M1 by simp
    have "\<exists>d' i'. write_loop e buf (length buf) off ?ns i1 (nread + r) (bn + 1) 0 b d1
         = (Inr (Some (i', length buf)), d')
       \<and> mapped d' i' (max M1 W) \<and> wrote d1 i1 M1 d' i' (max M1 W) (nread + r + off) ?ns ?src"
      by (rule less.hyps [OF fin m1 si1 b nx [folded M1] room])
    then obtain d' i' where run: "write_loop e buf (length buf) off ?ns i1 (nread + r) (bn + 1) 0 b d1
         = (Inr (Some (i', length buf)), d')"
      and m': "mapped d' i' (max M W)" and w: "wrote d1 i1 M1 d' i' (max M W) (nread + off + r) ?ns ?src"
      unfolding mx by (auto simp: ac_simps)
    have "wrote d i M d' i' (max M W) (nread + off) ?ns ?src"
      using R(6) by (intro wrote_trans [OF w1 w]) auto
    with run m' step show ?thesis by auto
  qed
qed

section \<open>write\<close>

text \<open>Replace the bytes from \<open>off\<close> on, and extend.\<close>

definition splice :: "nat \<Rightarrow> byte list \<Rightarrow> byte list \<Rightarrow> byte list" where
  "splice off buf c = take off c @ buf @ drop (off + length buf) c"

lemma length_splice: "off \<le> length c \<Longrightarrow> length (splice off buf c) = max (length c) (off + length buf)"
  by (simp add: splice_def max_def)

lemma nth_splice:
  "off \<le> length c \<Longrightarrow> x < max (length c) (off + length buf) \<Longrightarrow>
     splice off buf c ! x = (if off \<le> x \<and> x < off + length buf then buf ! (x - off) else c ! x)"
  by (auto simp: splice_def nth_append min_def)

text \<open>Blocks a file needs for \<open>n\<close> bytes, and the room a write needs.\<close>

definition blocks_for :: "nat \<Rightarrow> nat" where
  "blocks_for n = (n + 4095) div 4096"

definition room_for :: "disk \<Rightarrow> nat \<Rightarrow> nat \<Rightarrow> bool" where
  "room_for d old new \<longleftrightarrow> blocks_for new - blocks_for old \<le> card (free_set d)"

lemma nblocks_le: "fsize i \<le> 4096 * 1019 \<Longrightarrow> nblocks i \<le> 1019"
  using div_le_mono [of "fsize i + 4095" 4177919 4096] by (simp add: nblocks_def)

lemma file_mapped:
  assumes C: "consistent N d" and n: "n \<in> N" and f: "\<not> S_ISDIR (mode (inode_at d n))"
  shows "mapped d (inode_at d n) (nblocks (inode_at d n))"
proof -
  have ok: "node_ok d n" using C n by (rule consistentD(2))
  then have "nblocks (inode_at d n) \<le> 1019"
    using f by (intro nblocks_le) (simp add: node_ok_def)
  moreover have "inj_on (ptr (inode_at d n)) {..<nblocks (inode_at d n)}"
    using ok f by (simp add: node_ok_def data_blocks_def distinct_map atLeast0LessThan [symmetric])
  moreover have "block_ok d (ptr (inode_at d n) k)" if "k < nblocks (inode_at d n)" for k
    using ok f that by (auto simp: node_ok_def own_def data_blocks_def)
  ultimately show ?thesis
    using consistentD(1) [OF C] by (simp add: mapped_def) (simp add: inode_at_def)
qed

lemma fbyte_ptrs: "ptrs i = ptrs j \<Longrightarrow> fbyte d i x = fbyte d j x"
  by (simp add: fbyte_def ptr_def)

text \<open>
  Putting an inode back in its block: the object there is the inode's, over blocks that
  did not change.
\<close>

lemma inode_at_put [simp]: "ok_inode i \<Longrightarrow> inode_at (put_block n (encode_inode i) d) n = i"
  by (simp add: inode_at_def)

lemma fbyte_put: "ptr i (x div 4096) \<noteq> n \<Longrightarrow> ptr i (x div 4096) < nblks d \<Longrightarrow>
    fbyte (put_block n b d) i x = fbyte d i x"
  by (simp add: fbyte_def blk_put_other)

lemma sint_of_nat32: "n < 2 ^ 31 \<Longrightarrow> sint (word_of_nat n :: u32) = int n"
  by (subst sint_unat) (simp_all add: unsigned_of_nat take_bit_nat_eq_self)

text \<open>
  The common end of write and truncate: a live file's data blocks have changed, its inode is
  replaced. Everything else stays, and the disk is consistent.
\<close>

lemma file_replaced:
  assumes C: "consistent N d" and n: "n \<in> N" and f: "\<not> S_ISDIR (mode (inode_at d n))"
    and mt: "mountable d1" and le: "nblks d \<le> nblks d1"
    and oki: "ok_inode i" and fi: "\<not> S_ISDIR (mode i)"
    and sz: "0 \<le> sint (size_i i)" "fsize i \<le> 4096 * 1019"
    and ok: "\<And>k. k < nblocks i \<Longrightarrow> block_ok d1 (ptr i k)" and inj: "inj_on (ptr i) {..<nblocks i}"
    and mine: "\<And>k. k < nblocks i \<Longrightarrow> ptr i k \<in> own d n - {n} \<or> ptr i k \<in> free_set d"
    and free: "free_set d1 \<subseteq> free_set d \<union> (own d n - {n})"
    and frame: "\<And>b. b \<noteq> 1 \<Longrightarrow> b < nblks d \<Longrightarrow> b \<notin> free_set d \<Longrightarrow> b \<notin> own d n - {n} \<Longrightarrow> blk d1 b = blk d b"
    and d': "d' = put_block n (encode_inode i) d1"
  shows "consistent N d'"
    and "absfs N d' = (absfs N d)(n \<mapsto> AFile (attrs_of i) (content d1 i))"
    and "kept N d d'"
proof -
  note own_ok = own_block_ok [OF C]
  have n3: "n \<noteq> 1" "n < nblks d" "n \<notin> free_set d"
    using own_ok [OF n own_self] by (auto simp: block_ok_def)
  have ni: "inode_at d' n = i" using oki by (simp add: d')
  have db: "data_blocks i = map (ptr i) [0..<nblocks i]" using fi by (simp add: data_blocks_def)
  have fs: "free_set d' = free_set d1"
    using n3 mountable_blocks [OF mt] by (simp add: d' free_set_put)
  have pn: "k < nblocks i \<Longrightarrow> ptr i k \<noteq> n" for k using mine [of k] n3 by auto
  have own': "own d' n = insert n (ptr i ` {..<nblocks i})"
    by (simp add: own_def ni db atLeast0LessThan)
  have others: "blk d' b = blk d b" "b \<notin> free_set d'" if "m \<in> N - {n}" "b \<in> own d m" for m b
  proof -
    have m: "m \<in> N" "m \<noteq> n" using that by auto
    have b: "b \<noteq> 1" "b < nblks d" "b \<notin> free_set d" "b \<notin> own d n"
      using own_ok [OF m(1) that(2)] consistentD(4) [OF C m(1) n m(2)] that(2) by (auto simp: block_ok_def)
    have "b \<noteq> n" using b(4) own_self by metis
    then show "blk d' b = blk d b"
      using frame [of b] b le by (simp add: d' blk_put_other)
    show "b \<notin> free_set d'" using b free by (auto simp: fs)
  qed
  have "blk d' 0 = blk d 0"
  proof -
    note z = super_block [OF C]
    have "n \<noteq> 0" using z(2) [OF n] own_self [of n d] by metis
    then have "blk d' 0 = blk d1 0" using z(1) le by (simp add: d' blk_put_other)
    also have "\<dots> = blk d 0" using z(1,3) z(2) [OF n] by (intro frame) auto
    finally show ?thesis .
  qed
  then have "kept (N - {n}) d d'" using others(1) by (rule keptI)
  then show "kept N d d'" using f by (auto simp: kept_def)
  have node: "node_ok d' n"
    unfolding node_ok_def
  proof (intro conjI ballI)
    fix b assume "b \<in> own d' n"
    then consider "b = n" | k where "k < nblocks i" "b = ptr i k" by (auto simp: own')
    then show "block_ok d' b"
    proof cases
      case 1
      have "n \<notin> free_set d1" using free n3 by auto
      then show ?thesis using 1 own_ok [OF n own_self] by (auto simp: d' block_ok_def fs [unfolded d'])
    next
      case 2
      then show ?thesis
        using ok [OF 2(1)] n3 mountable_blocks [OF mt] unfolding d' by (intro block_ok_put) auto
    qed
  next
    show "distinct (n # data_blocks (inode_at d' n))"
      using pn inj by (auto simp: ni db distinct_map atLeast0LessThan)
  qed (use fi sz in \<open>simp add: ni\<close>)
  have cont: "content d' i = content d1 i"
  proof -
    have "fbyte d' i x = fbyte d1 i x" if "x < fsize i" for x
    proof -
      have k: "x div 4096 < nblocks i" using that unfolding nblocks_def by linarith
      then show ?thesis using pn [OF k] ok [OF k] by (auto simp: d' block_ok_def intro!: fbyte_put)
    qed
    then show ?thesis by (simp add: content_def)
  qed
  have view': "view d' n = AFile (attrs_of i) (content d1 i)"
    using fi by (simp add: view_def ni cont Let_def)
  show abs: "absfs N d' = (absfs N d)(n \<mapsto> AFile (attrs_of i) (content d1 i))"
  proof
    fix m
    show "absfs N d' m = ((absfs N d)(n \<mapsto> AFile (attrs_of i) (content d1 i))) m"
      using n view' others(1) view_frame(4) [of d m d'] by (auto simp: absfs_def)
  qed
  have old: "children (absfs N d n) = Map.empty" "n \<noteq> 2"
    using n f root_in(2) [OF C] by (auto simp: children_view)
  have "tree_ok (absfs N d')"
    unfolding abs
    by (rule tree_ok_same [OF consistentD(3) [OF C]])
       (use tree_okD(1) [OF consistentD(3) [OF C]] old in auto)
  then show "consistent N d'"
  proof (rule consistent_step [where X = "{n}", OF C, rotated -1])
    fix m k assume a: "m \<in> N \<inter> {n}" "k \<in> N" "m \<noteq> k"
    then have k: "k \<in> N - {n}" by auto
    have "own d' k = own d k" using others(1) [OF k] by (rule view_frame(2))
    moreover have "own d' n \<subseteq> own d n \<union> free_set d" using mine own_self by (auto simp: own')
    ultimately show "own d' m \<inter> own d' k = {}"
      using a consistentD(4) [OF C n] own_not_free [OF C] by blast
  qed (use mt le others node oki n3 in \<open>auto simp: d' intro: le_trans\<close>)
qed

lemma max_blocks: "(max a b + 4095) div 4096 = max ((a + 4095) div 4096) ((b + 4095) div (4096 :: nat))"
  by (simp add: max_def div_le_mono) (metis add_le_cancel_right antisym div_le_mono linorder_le_cases)

lemma tail_start:
  assumes "off \<le> s" and "\<not> off div 4096 < (s + 4095) div (4096 :: nat)"
  shows "off div 4096 = (s + 4095) div 4096" and "off mod 4096 = 0"
proof -
  have "off div 4096 \<le> (s + 4095) div 4096" using assms(1) by (intro div_le_mono) simp
  with assms(2) show q: "off div 4096 = (s + 4095) div 4096" by simp
  have "off mod 4096 + 4096 * (off div 4096) = off" by simp
  moreover have "s + 4095 < 4096 * ((s + 4095) div 4096) + 4096" by simp
  ultimately show "off mod 4096 = 0" using assms(1) q by linarith
qed

lemma file_loop_start:
  assumes "off \<le> fsize i"
  shows "loop_at ((nat (sint (size_i i)) + 4095) div 4096) off len (nblocks i) 0 (off div 4096) (off mod 4096)"
  using assms tail_start [of off "fsize i"]
  by (auto simp: loop_at_def nblocks_def fsize_def [symmetric])

lemma card_ptrs:
  assumes "wrote d i M d' i' M' lo hi src" and "mapped d' i' M'"
  shows "card (free_set d') = card (free_set d) - (M' - M)"
proof -
  note W = wroteD [OF assms(1)]
  have "inj_on (ptr i') {M..<M'}" using assms(2) by (auto simp: mapped_def intro: inj_on_subset)
  then have "card (ptr i' ` {M..<M'}) = M' - M" by (simp add: card_image)
  then show ?thesis
    using W(8) finite_subset [OF W(8)] by (simp add: W(9) card_Diff_subset)
qed

lemma fs_write_run:
  assumes C: "consistent N d" and P: "ok_path toks" and e: "wf_env e"
    and L: "alookup (absfs N d) 2 toks = Some n" and V: "absfs N d n = Some (AFile a c)"
    and off: "off \<le> length c" and top: "off + length buf \<le> 4096 * 1019"
    and room: "room_for d (length c) (off + length buf)"
  shows "\<exists>d'. fs_write e (mkpath toks) buf off d = (Inr (int (length buf)), d') \<and> consistent N d'
    \<and> absfs N d' = (absfs N d)(n \<mapsto> AFile (a\<lparr>a_mtime := now e\<rparr>) (splice off buf c))
    \<and> kept N d d' \<and> card (free_set d') = card (free_set d) - (blocks_for (off + length buf) - blocks_for (length c))"
proof -
  note p = path_live [OF C P L]
  let ?i = "inode_at d n" and ?ns = "off + length buf"
  have f: "\<not> S_ISDIR (mode ?i)" and a: "a = attrs_of ?i" and c: "c = content d ?i"
    using V p(2) view_file [of d n a c] by auto
  have R: "readable d ?i" using p(5) f by (rule node_readable)
  have sz: "0 \<le> sint (size_i ?i)" "sint (size_i ?i) = int (fsize ?i)" "fsize ?i \<le> 4096 * 1019"
    using R by (simp_all add: readable_def fsize_int)
  let ?M = "max (nblocks ?i) ((?ns + 4095) div 4096)"
  have mp: "mapped d ?i (nblocks ?i)" using C p(2) f by (rule file_mapped)
  have "\<exists>d1 i1. write_loop e buf (length buf) off ?ns ?i 0 (off div 4096) (off mod 4096) (stack e ''buffer'') d
       = (Inr (Some (i1, length buf)), d1)
     \<and> mapped d1 i1 ?M \<and> wrote d ?i (nblocks ?i) d1 i1 ?M (0 + off) ?ns (\<lambda>x. buf ! (x - off))"
  proof (rule write_loop_run [OF sz(1) _ refl top refl mp refl])
    show "nat (sint (size_i ?i)) \<le> 4096 * 1019" using sz(3) by (simp add: fsize_def)
    show "loop_at ((nat (sint (size_i ?i)) + 4095) div 4096) off (length buf) (nblocks ?i) 0
        (off div 4096) (off mod 4096)"
      using file_loop_start [of off ?i "length buf"] off by (simp add: c)
    show "(?ns + 4095) div 4096 \<le> nblocks ?i + card (free_set d)"
      using room by (simp add: room_for_def blocks_for_def c nblocks_def)
  qed (use e in \<open>auto simp: wf_env_def\<close>)
  then obtain d1 i1 where run: "write_loop e buf (length buf) off ?ns ?i 0 (off div 4096) (off mod 4096)
       (stack e ''buffer'') d = (Inr (Some (i1, length buf)), d1)"
    and m: "mapped d1 i1 ?M" and w: "wrote d ?i (nblocks ?i) d1 i1 ?M off ?ns (\<lambda>x. buf ! (x - off))"
    by auto
  note W = wroteD [OF w]
  define i2 where "i2 = (if sint (size_i i1) < int ?ns then i1\<lparr>size_i := word_of_nat ?ns\<rparr> else i1)\<lparr>mtime := now e\<rparr>"
  have same: "size_i i1 = size_i ?i" "mode i1 = mode ?i" "uid i1 = uid ?i" "gid i1 = gid ?i" "ctime i1 = ctime ?i"
    using W(3) by (metis fs_inode.surjective fs_inode.update_convs(7) fs_inode.select_convs)+
  have i2: "ptrs i2 = ptrs i1" "mode i2 = mode ?i" "attrs_of i2 = a\<lparr>a_mtime := now e\<rparr>"
    using same by (auto simp: i2_def a attrs_of_def)
  have si2: "sint (size_i i2) = int (max (fsize ?i) ?ns)"
    using same(1) sz top sint_of_nat32 [of ?ns] by (auto simp: i2_def max_def)
  then have f2: "fsize i2 = max (fsize ?i) ?ns" by (simp add: fsize_def)
  have nb2: "nblocks i2 = ?M" by (simp add: nblocks_def f2 max_blocks)
  have ptr2: "ptr i2 k = ptr i1 k" for k by (simp add: ptr_def i2)
  then have ptr_fun: "ptr i2 = ptr i1" by (simp add: fun_eq_iff)
  have data: "own d n - {n} = ptr ?i ` {..<nblocks ?i}"
    using p(5) f by (auto simp: own_def data_blocks_def node_ok_def)
  have rep: "consistent N (put_block n (encode_inode i2) d1)"
    "absfs N (put_block n (encode_inode i2) d1) = (absfs N d)(n \<mapsto> AFile (attrs_of i2) (content d1 i2))"
    "kept N d (put_block n (encode_inode i2) d1)"
  proof -
    have "ptr i2 k \<in> own d n - {n} \<or> ptr i2 k \<in> free_set d" if "k < nblocks i2" for k
    proof (cases "k < nblocks ?i")
      case True
      then show ?thesis using W(4) by (simp add: data ptr2)
    next
      case False
      then have "ptr i2 k \<in> ptr i1 ` {nblocks ?i..<?M}" using that by (simp add: nb2 ptr2)
      with W(8) show ?thesis by blast
    qed
    note mine = this
    have mt1: "mountable d1" and ok1: "\<And>k. k < nblocks i2 \<Longrightarrow> block_ok d1 (ptr i2 k)"
      and inj1: "inj_on (ptr i2) {..<nblocks i2}" and oki: "ok_inode i2"
      using m ptr_fun by (simp_all add: mapped_def nb2 ok_inode_def i2(1))
    note fr = file_replaced [OF C p(2) f mt1 W(7) oki _ _ _ ok1 inj1 mine _ _ refl]
    show "consistent N (put_block n (encode_inode i2) d1)"
      by (rule fr(1)) (use f si2 f2 sz top W(9,10) in \<open>auto simp: i2(2) data\<close>)
    show "absfs N (put_block n (encode_inode i2) d1) = (absfs N d)(n \<mapsto> AFile (attrs_of i2) (content d1 i2))"
      by (rule fr(2)) (use f si2 f2 sz top W(9,10) in \<open>auto simp: i2(2) data\<close>)
    show "kept N d (put_block n (encode_inode i2) d1)"
      by (rule fr(3)) (use f si2 f2 sz top W(9,10) in \<open>auto simp: i2(2) data\<close>)
  qed
  have cont: "content d1 i2 = splice off buf c"
  proof (rule nth_equalityI)
    show "length (content d1 i2) = length (splice off buf c)"
      using off by (simp add: f2 length_splice) (simp add: c)
  next
    fix x assume "x < length (content d1 i2)"
    then have x: "x < max (length c) ?ns" by (simp add: f2 c)
    have "content d1 i2 ! x = fbyte d1 i1 x"
      using x fbyte_ptrs [OF i2(1)] by (simp add: content_def f2 c)
    also have "\<dots> = splice off buf c ! x"
    proof (cases "off \<le> x \<and> x < ?ns")
      case True
      then show ?thesis using W(5) off x by (simp add: nth_splice)
    next
      case False
      then have xc: "x < fsize ?i" using x off by (auto simp: c)
      then have "x < 4096 * nblocks ?i" by (auto simp: nblocks_def)
      with W(6) False have "fbyte d1 i1 x = fbyte d ?i x" by auto
      with False xc show ?thesis using off x by (subst nth_splice) (auto simp: c content_def)
    qed
    finally show "content d1 i2 ! x = splice off buf c ! x" .
  qed
  have n1: "0 < n" "n < 2 ^ 19 - 1" using p(4,6) by auto
  have "\<not> sint (size_i ?i) < int off" using off by (simp add: sz c)
  moreover have "wrap32 (int (length buf)) = int (length buf)" using top by (intro wrap32_id) auto
  ultimately have "fs_write e (mkpath toks) buf off d = (Inr (int (length buf)), put_block n (encode_inode i2) d1)"
    using p f top run n1
    by (simp add: fs_write_def andThen_def run_simps Let_def inode_at_def [symmetric]
        block_write_in_range i2_def)
  moreover have "n \<noteq> 1" using own_not_map [OF C p(2)] own_self [of n d] by metis
  then have "card (free_set (put_block n (encode_inode i2) d1))
      = card (free_set d) - (blocks_for ?ns - blocks_for (length c))"
    using card_ptrs [OF w m] m mountable_blocks [of d1]
    by (simp add: free_set_put mapped_def blocks_for_def c nblocks_def) (simp add: max_def)
  ultimately show ?thesis using rep cont i2(3) by auto
qed

lemma fs_write_file:
  assumes "consistent N d" and "ok_path toks" and "wf_env e"
    and "alookup (absfs N d) 2 toks = Some n" and "absfs N d n = Some (AFile a c)"
    and "off \<le> length c" and "off + length buf \<le> 4096 * 1019"
    and "room_for d (length c) (off + length buf)"
  shows "\<exists>d'. fs_write e (mkpath toks) buf off d = (Inr (int (length buf)), d') \<and> consistent N d'
    \<and> absfs N d' = (absfs N d)(n \<mapsto> AFile (a\<lparr>a_mtime := now e\<rparr>) (splice off buf c))"
  using fs_write_run [OF assms] by blast

section \<open>truncate\<close>

text \<open>The loop of \<open>free_blk\<close> calls: the blocks leave the map, nothing else changes.\<close>

lemma free_ptrs_run:
  assumes "k + n \<le> 1019"
  shows "mountable d \<Longrightarrow> (\<forall>j<k + n. 3 \<le> ptr i j \<and> ptr i j < 32768) \<Longrightarrow>
    \<exists>d'. free_ptrs e i k n d = (Inr (), d') \<and> mountable d' \<and> nblks d' = nblks d
      \<and> free_set d' = free_set d \<union> ptr i ` {k..<k + n}
      \<and> (\<forall>b. b \<noteq> 1 \<longrightarrow> blk d' b = blk d b)"
  using assms
proof (induction n arbitrary: k d)
  case 0
  then show ?case by (simp add: ret_def)
next
  case (Suc n)
  let ?b = "ptr i k"
  have b: "3 \<le> ?b" "?b < 32768" using Suc.prems(2) by auto
  have si: "sint (ptrs i ! k) = int ?b"
    unfolding ptr_def using b(2) by (intro sint_unat) (simp add: ptr_def)
  define d1 where "d1 = put_block 1 (bit_clear (dmap d) ?b) d"
  have nb: "3 \<le> nblks d" using Suc.prems(1) by (rule mountable_blocks)
  have m1: "mountable d1" and n1: "nblks d1 = nblks d"
    using Suc.prems(1) nb b by (auto simp: d1_def)
  have fs: "free_set d1 = insert ?b (free_set d)"
    using free_blk_free_set [OF Suc.prems(1) b(2)] b(1) by (auto simp: d1_def)
  have fr: "c \<noteq> 1 \<Longrightarrow> blk d1 c = blk d c" for c
    using nb by (simp add: d1_def blk_put_inside)
  have "free_blk e (sint (ptrs i ! k)) d = (Inr (), d1)"
    using b by (simp add: free_blk_run [OF Suc.prems(1)] si d1_def)
  moreover obtain d' where "free_ptrs e i (Suc k) n d1 = (Inr (), d')" and "mountable d'" and "nblks d' = nblks d1"
    and "free_set d' = free_set d1 \<union> ptr i ` {Suc k..<Suc k + n}" and "\<forall>b. b \<noteq> 1 \<longrightarrow> blk d' b = blk d1 b"
    using Suc.IH [OF m1, of "Suc k"] Suc.prems(2,3) by auto
  moreover have "ptr i ` {k..<k + Suc n} = insert ?b (ptr i ` {Suc k..<Suc k + n})"
  proof -
    have "{k..<k + Suc n} = insert k {Suc k..<Suc k + n}" by auto
    then show ?thesis by simp
  qed
  ultimately show ?case
    using Suc.prems(3) fs fr n1 by (simp add: andThen_def)
qed

lemma own_ge3:
  assumes C: "consistent N d" and n: "n \<in> N" and "n \<noteq> 2" and b: "b \<in> own d n"
  shows "3 \<le> b" and "b < 32768"
proof -
  have "b \<noteq> 2"
    using consistentD(4) [OF C n root_in(1) [OF C] assms(3)] b own_self [of 2 d] by auto
  then show "3 \<le> b" and "b < 32768"
    using own_block_ok [OF C n b] by (auto simp: block_ok_def)
qed

lemma file_not_root: "consistent N d \<Longrightarrow> \<not> S_ISDIR (mode (inode_at d n)) \<Longrightarrow> n \<noteq> 2"
  using root_in(2) by auto

text \<open>\<open>free_data\<close> on a live file.\<close>

lemma free_data_run:
  assumes C: "consistent N d" and n: "n \<in> N" and f: "\<not> S_ISDIR (mode (inode_at d n))"
  obtains d' where "free_data e (inode_at d n) d = (Inr (), d')" and "mountable d'"
    and "nblks d' = nblks d" and "free_set d' = free_set d \<union> (own d n - {n})"
    and "\<And>b. b \<noteq> 1 \<Longrightarrow> blk d' b = blk d b"
proof -
  let ?i = "inode_at d n"
  have ok: "node_ok d n" using C n by (rule consistentD(2))
  have R: "readable d ?i" using ok f by (rule node_readable)
  have "nblocks ?i \<le> 1019" using R by (intro nblocks_le) (simp add: readable_def)
  moreover have data: "own d n - {n} = ptr ?i ` {0..<0 + nblocks ?i}"
    using ok f by (auto simp: own_def data_blocks_def node_ok_def)
  moreover have "\<forall>j<0 + nblocks ?i. 3 \<le> ptr ?i j \<and> ptr ?i j < 32768"
  proof (intro allI impI)
    fix j assume "j < 0 + nblocks ?i"
    then have "ptr ?i j \<in> own d n - {n}" unfolding data by auto
    then show "3 \<le> ptr ?i j \<and> ptr ?i j < 32768"
      using own_ge3 [OF C n file_not_root [OF C f]] by auto
  qed
  ultimately obtain d' where "free_ptrs e ?i 0 (nblocks ?i) d = (Inr (), d')" "mountable d'" "nblks d' = nblks d"
    "free_set d' = free_set d \<union> (own d n - {n})" "\<forall>b. b \<noteq> 1 \<longrightarrow> blk d' b = blk d b"
    using free_ptrs_run [of 0 "nblocks ?i" d ?i e] consistentD(1) [OF C] by auto
  then show ?thesis
    using that R by (simp add: free_data_def DIV_ROUND_UP_size readable_def)
qed

lemma fs_truncate_run:
  assumes C: "consistent N d" and P: "ok_path toks"
    and L: "alookup (absfs N d) 2 toks = Some n" and V: "absfs N d n = Some (AFile a c)"
  shows "\<exists>d'. fs_truncate e (mkpath toks) 0 d = (Inr 0, d') \<and> consistent N d'
    \<and> absfs N d' = (absfs N d)(n \<mapsto> AFile a [])
    \<and> free_set d' = free_set d \<union> (own d n - {n}) \<and> kept N d d'"
proof -
  note p = path_live [OF C P L]
  let ?i = "inode_at d n"
  have f: "\<not> S_ISDIR (mode ?i)" and a: "a = attrs_of ?i"
    using V p(2) view_file [of d n a c] by auto
  obtain d1 where run: "free_data e ?i d = (Inr (), d1)" and m: "mountable d1" "nblks d1 = nblks d"
    and fs: "free_set d1 = free_set d \<union> (own d n - {n})" and fr: "\<And>b. b \<noteq> 1 \<Longrightarrow> blk d1 b = blk d b"
    by (rule free_data_run [OF C p(2) f, of e]) blast
  define i where "i = ?i\<lparr>size_i := 0\<rparr>"
  have i: "ok_inode i" "\<not> S_ISDIR (mode i)" "nblocks i = 0" "fsize i = 0" "size_i i = 0" "attrs_of i = a"
    using f by (simp_all add: i_def inode_at_def ok_inode_def nblocks_def fsize_def attrs_of_def a)
  note rep = file_replaced [OF C p(2) f m(1) _ i(1,2) _ _ _ _ _ _ _ refl]
  have "consistent N (put_block n (encode_inode i) d1)"
    by (rule rep(1)) (use m fs fr i in auto)
  moreover have "absfs N (put_block n (encode_inode i) d1) = (absfs N d)(n \<mapsto> AFile (attrs_of i) (content d1 i))"
    by (rule rep(2)) (use m fs fr i in auto)
  moreover have "kept N d (put_block n (encode_inode i) d1)"
    by (rule rep(3)) (use m fs fr i in auto)
  moreover have n1: "0 < n" "n < 2 ^ 19 - 1" "n \<noteq> 1"
    using p(4,6) own_not_map [OF C p(2)] own_self [of n d] by auto
  moreover have "fs_truncate e (mkpath toks) 0 d = (Inr 0, put_block n (encode_inode i) d1)"
    using p f run n1
    by (simp add: fs_truncate_def andThen_def run_simps Let_def inode_at_def [symmetric]
        block_write_in_range i_def)
  moreover have "free_set (put_block n (encode_inode i) d1) = free_set d \<union> (own d n - {n})"
    using n1 mountable_blocks [OF m(1)] by (simp add: free_set_put fs)
  ultimately show ?thesis using i by (simp add: content_def)
qed

lemma fs_truncate_file:
  assumes "consistent N d" and "ok_path toks"
    and "alookup (absfs N d) 2 toks = Some n" and "absfs N d n = Some (AFile a c)"
  shows "\<exists>d'. fs_truncate e (mkpath toks) 0 d = (Inr 0, d') \<and> consistent N d'
    \<and> absfs N d' = (absfs N d)(n \<mapsto> AFile a []) \<and> free_set d' = free_set d \<union> (own d n - {n})"
  using fs_truncate_run [OF assms, of e] by blast

end
