(* ===== verification/DirSpec.thy ===== *)
theory DirSpec
  imports WriteSpec
begin

text \<open>
  The directory operations against the abstract file system: filling a free slot adds a
  name to the map of a directory, clearing a slot removes it, \<open>strcpy\<close> into a slot
  renames; create, mkdir, unlink, rmdir and rename are the abstract operations of
  \<open>Tree\<close> and keep the disk consistent.
\<close>

section \<open>Slots and names\<close>

lemma map_eq_iffI: "(\<And>t n. f t = Some n \<longleftrightarrow> g t = Some n) \<Longrightarrow> f = g"
  by (rule ext) (metis option.exhaust)

lemma dir_okD:
  assumes "dir_ok ds"
  shows "length ds = 128" and "k < 128 \<Longrightarrow> length (name (ds ! k)) = 28"
    and "k < 128 \<Longrightarrow> valid (ds ! k) \<Longrightarrow> 0 \<in> set (name (ds ! k)) \<and> ok_token (c_string (name (ds ! k)))"
    and "j < 128 \<Longrightarrow> k < 128 \<Longrightarrow> valid (ds ! j) \<Longrightarrow> valid (ds ! k) \<Longrightarrow>
       c_string (name (ds ! j)) = c_string (name (ds ! k)) \<Longrightarrow> j = k"
proof -
  show l: "length ds = 128" using assms by (simp add: dir_ok_def ok_dirs_def)
  then show "k < 128 \<Longrightarrow> length (name (ds ! k)) = 28"
    using assms by (auto simp: dir_ok_def ok_dirs_def list_all_length ok_dirent_def)
  show "k < 128 \<Longrightarrow> valid (ds ! k) \<Longrightarrow> 0 \<in> set (name (ds ! k)) \<and> ok_token (c_string (name (ds ! k)))"
    using assms l by (simp add: dir_ok_def)
  show "j < 128 \<Longrightarrow> k < 128 \<Longrightarrow> valid (ds ! j) \<Longrightarrow> valid (ds ! k) \<Longrightarrow>
       c_string (name (ds ! j)) = c_string (name (ds ! k)) \<Longrightarrow> j = k"
    using assms l by (simp add: dir_ok_def)
qed

lemma dir_okI:
  assumes "length ds = 128" and "\<And>k. k < 128 \<Longrightarrow> length (name (ds ! k)) = 28"
    and "\<And>k. k < 128 \<Longrightarrow> valid (ds ! k) \<Longrightarrow> 0 \<in> set (name (ds ! k)) \<and> ok_token (c_string (name (ds ! k)))"
    and "\<And>j k. j < 128 \<Longrightarrow> k < 128 \<Longrightarrow> valid (ds ! j) \<Longrightarrow> valid (ds ! k) \<Longrightarrow>
       c_string (name (ds ! j)) = c_string (name (ds ! k)) \<Longrightarrow> j = k"
  shows "dir_ok ds"
  using assms by (auto simp: dir_ok_def ok_dirs_def list_all_length ok_dirent_def in_set_conv_nth)

lemma strcpy_name:
  assumes "ok_token t" and "length t \<le> 27" and "length nm = 28"
  shows "length (strcpy_into nm t) = 28" and "0 \<in> set (strcpy_into nm t)"
    and "c_string (strcpy_into nm t) = t"
  using assms by (auto simp: strcpy_into_def ok_token_def length_strcpy_into) (simp add: c_string_strcpy [unfolded strcpy_into_def, simplified])

text \<open>
  Changing one slot to an entry with a name that no other valid slot has; the slot may
  have been free or hold another name.
\<close>

lemma slot_set:
  assumes D: "dir_ok ds" and k: "k < 128" and e: "valid e" "length (name e) = 28" "0 \<in> set (name e)"
      "ok_token (c_string (name e))"
    and new: "\<And>j. j < 128 \<Longrightarrow> j \<noteq> k \<Longrightarrow> valid (ds ! j) \<Longrightarrow> c_string (name (ds ! j)) \<noteq> c_string (name e)"
  shows "dir_ok (ds[k := e])"
    and "dir_map (ds[k := e]) = (\<lambda>t. if t = c_string (name e) then Some (unat (inode e))
       else if valid (ds ! k) \<and> t = c_string (name (ds ! k)) then None else dir_map ds t)"
proof -
  note d = dir_okD [OF D]
  show ok: "dir_ok (ds[k := e])"
  proof (rule dir_okI)
    fix i j assume "i < 128" "j < 128" "valid (ds[k := e] ! i)" "valid (ds[k := e] ! j)"
      and eq: "c_string (name (ds[k := e] ! i)) = c_string (name (ds[k := e] ! j))"
    then show "i = j"
      using new [of i] new [of j] d(4) [of i j] d(1) k
      by (cases "i = k"; cases "j = k") auto
  qed (use d k e in \<open>auto simp: nth_list_update split: if_splits\<close>)
  show "dir_map (ds[k := e]) = (\<lambda>t. if t = c_string (name e) then Some (unat (inode e))
       else if valid (ds ! k) \<and> t = c_string (name (ds ! k)) then None else dir_map ds t)"
  proof (rule map_eq_iffI)
    fix t n
    have "dir_map (ds[k := e]) t = Some n \<longleftrightarrow>
        (t = c_string (name e) \<and> n = unat (inode e)) \<or>
        (\<exists>j<128. j \<noteq> k \<and> valid (ds ! j) \<and> c_string (name (ds ! j)) = t \<and> unat (inode (ds ! j)) = n)"
      using k d(1) e(1) by (auto simp: dir_map_iff [OF ok] nth_list_update)
    also have "\<dots> \<longleftrightarrow> (if t = c_string (name e) then Some (unat (inode e))
       else if valid (ds ! k) \<and> t = c_string (name (ds ! k)) then None else dir_map ds t) = Some n"
      using new d(4) k by (auto simp: dir_map_iff [OF D] d(1))
    finally show "dir_map (ds[k := e]) t = Some n \<longleftrightarrow> (if t = c_string (name e) then Some (unat (inode e))
       else if valid (ds ! k) \<and> t = c_string (name (ds ! k)) then None else dir_map ds t) = Some n" .
  qed
qed

lemma slot_add:
  assumes D: "dir_ok ds" and k: "k < 128" "\<not> valid (ds ! k)" and t: "ok_token t" "length t \<le> 27"
    and new: "dir_map ds t = None" and x: "x < 2 ^ 31"
    and e: "e = \<lparr>valid = True, inode = word_of_int (int x), name = strcpy_into (name (ds ! k)) t\<rparr>"
  shows "dir_ok (ds[k := e])" and "dir_map (ds[k := e]) = (dir_map ds)(t \<mapsto> x)"
proof -
  note d = dir_okD [OF D] and s = strcpy_name [OF t dir_okD(2) [OF D k(1)]]
  have e': "valid e" "length (name e) = 28" "0 \<in> set (name e)" "ok_token (c_string (name e))"
    and nm: "c_string (name e) = t" and num: "unat (inode e) = x"
    using s t x by (simp_all add: e unat_word31 del: of_int_of_nat_eq)
  have n: "c_string (name (ds ! j)) \<noteq> c_string (name e)" if "j < 128" "j \<noteq> k" "valid (ds ! j)" for j
    using new that by (auto simp: dir_map_None nm d(1))
  show "dir_ok (ds[k := e])" using slot_set(1) [OF D k(1) e' n] .
  show "dir_map (ds[k := e]) = (dir_map ds)(t \<mapsto> x)"
    using slot_set(2) [OF D k(1) e' n] k(2) by (simp add: nm num fun_eq_iff)
qed

lemma slot_rename:
  assumes D: "dir_ok ds" and k: "k < 128" "valid (ds ! k)" and t: "ok_token u" "length u \<le> 27"
    and old: "c_string (name (ds ! k)) = t" and new: "dir_map ds u = None"
    and e: "e = (ds ! k)\<lparr>name := strcpy_into (name (ds ! k)) u\<rparr>"
  shows "dir_ok (ds[k := e])" and "dir_map (ds[k := e]) = (dir_map ds)(t := None, u := dir_map ds t)"
proof -
  note d = dir_okD [OF D] and s = strcpy_name [OF t dir_okD(2) [OF D k(1)]]
  have e': "valid e" "length (name e) = 28" "0 \<in> set (name e)" "ok_token (c_string (name e))"
    and nm: "c_string (name e) = u" and num: "inode e = inode (ds ! k)"
    using s t k by (simp_all add: e)
  have n: "c_string (name (ds ! j)) \<noteq> c_string (name e)" if "j < 128" "j \<noteq> k" "valid (ds ! j)" for j
    using new that by (auto simp: dir_map_None nm d(1))
  have "dir_map ds t = Some (unat (inode (ds ! k)))"
    using k old d(1) by (auto simp: dir_map_iff [OF D])
  then show "dir_ok (ds[k := e])" and "dir_map (ds[k := e]) = (dir_map ds)(t := None, u := dir_map ds t)"
    using slot_set [OF D k(1) e' n] k(2) old by (auto simp: nm num fun_eq_iff)
qed

lemma slot_clear:
  assumes D: "dir_ok ds" and k: "k < 128" "valid (ds ! k)" and t: "c_string (name (ds ! k)) = t"
  shows "dir_ok (ds[k := (ds ! k)\<lparr>valid := False\<rparr>])"
    and "dir_map (ds[k := (ds ! k)\<lparr>valid := False\<rparr>]) = (dir_map ds)(t := None)"
proof -
  note d = dir_okD [OF D]
  show ok: "dir_ok (ds[k := (ds ! k)\<lparr>valid := False\<rparr>])"
    using d k by (intro dir_okI) (auto simp: nth_list_update split: if_splits)
  show "dir_map (ds[k := (ds ! k)\<lparr>valid := False\<rparr>]) = (dir_map ds)(t := None)"
  proof (rule map_eq_iffI)
    fix u n
    have "dir_map (ds[k := (ds ! k)\<lparr>valid := False\<rparr>]) u = Some n \<longleftrightarrow>
        (\<exists>j<128. j \<noteq> k \<and> valid (ds ! j) \<and> c_string (name (ds ! j)) = u \<and> unat (inode (ds ! j)) = n)"
      using k d(1) by (auto simp: dir_map_iff [OF ok] nth_list_update split: if_splits)
    also have "\<dots> \<longleftrightarrow> u \<noteq> t \<and> dir_map ds u = Some n"
      unfolding dir_map_iff [OF D] d(1) using k t d(4) by metis
    also have "\<dots> \<longleftrightarrow> ((dir_map ds)(t := None)) u = Some n" by auto
    finally show "dir_map (ds[k := (ds ! k)\<lparr>valid := False\<rparr>]) u = Some n \<longleftrightarrow> ((dir_map ds)(t := None)) u = Some n" .
  qed
qed

text \<open>The same three changes, on the list of slots.\<close>

lemma slots_erase:
  assumes D: "dir_ok ds" and k: "k < 128" "valid (ds ! k)" and t: "c_string (name (ds ! k)) = t"
  shows "map slot_name (ds[k := (ds ! k)\<lparr>valid := False\<rparr>]) = erase t (map slot_name ds)"
proof (rule nth_equalityI)
  fix j assume "j < length (map slot_name (ds[k := (ds ! k)\<lparr>valid := False\<rparr>]))"
  then have j: "j < 128" by (simp add: dir_okD(1) [OF D])
  then show "map slot_name (ds[k := (ds ! k)\<lparr>valid := False\<rparr>]) ! j = erase t (map slot_name ds) ! j"
    using dir_okD(1) [OF D] dir_okD(4) [OF D j k(1)] k t
    by (cases "j = k") (auto simp: erase_def slot_name_def)
qed (simp add: erase_def)

lemma slots_relabel:
  assumes D: "dir_ok ds" and k: "k < 128" "valid (ds ! k)" and t: "c_string (name (ds ! k)) = t"
    and u: "ok_token u" "length u \<le> 27"
  shows "map slot_name (ds[k := (ds ! k)\<lparr>name := strcpy_into (name (ds ! k)) u\<rparr>]) = relabel t u (map slot_name ds)"
proof (rule nth_equalityI)
  fix j assume "j < length (map slot_name (ds[k := (ds ! k)\<lparr>name := strcpy_into (name (ds ! k)) u\<rparr>]))"
  then have j: "j < 128" by (simp add: dir_okD(1) [OF D])
  then show "map slot_name (ds[k := (ds ! k)\<lparr>name := strcpy_into (name (ds ! k)) u\<rparr>]) ! j
      = relabel t u (map slot_name ds) ! j"
    using dir_okD(1) [OF D] dir_okD(4) [OF D j k(1)] k t strcpy_name(3) [OF u dir_okD(2) [OF D k(1)]]
    by (cases "j = k") (auto simp: relabel_def slot_name_def)
qed (simp add: relabel_def)

section \<open>Replacing a directory's blocks\<close>

lemma dir_own: "S_ISDIR (mode (inode_at d p)) \<Longrightarrow> own d p = {p, ptr (inode_at d p) 0}"
  by (simp add: own_def data_blocks_def)

lemma dir_updated:
  assumes C: "consistent N d" and p: "p \<in> N" and D: "S_ISDIR (mode (inode_at d p))"
    and m1: "mountable d1" and le: "nblks d \<le> nblks d1" and kp: "own d p \<inter> free_set d1 = {}"
    and ds: "dir_ok ds'" and i: "ok_inode i'" "ptrs i' = ptrs (inode_at d p)"
      "size_i i' = size_i (inode_at d p)" "S_ISDIR (mode i')"
    and d2: "d2 = put_block p (encode_inode i') (put_block (ptr (inode_at d p) 0) (encode_dirs ds') d1)"
  shows "mountable d2" and "nblks d1 \<le> nblks d2" and "free_set d2 = free_set d1"
    and "node_ok d2 p" and "own d2 p = own d p"
    and "view d2 p = ADir (attrs_of i') (sint (size_i (inode_at d p))) (dir_map ds')"
    and "\<And>b. b \<notin> own d p \<Longrightarrow> b < nblks d1 \<Longrightarrow> blk d2 b = blk d1 b"
    and "slots d2 p = map slot_name ds'"
proof -
  let ?q = "ptr (inode_at d p) 0"
  have own: "own d p = {p, ?q}" using D by (rule dir_own)
  have ok: "node_ok d p" using C p by (rule consistentD(2))
  have pq: "p \<noteq> ?q" using ok D by (simp add: node_ok_def data_blocks_def)
  have okd: "ok_dirs ds'" using ds by (simp add: dir_ok_def)
  have b1: "p \<noteq> 1" "?q \<noteq> 1" "2 \<le> nblks d1"
    using own_not_map [OF C p] own mountable_blocks [OF m1] by auto
  show "mountable d2" and "nblks d1 \<le> nblks d2"
    using m1 i(1) okd b1(1,2) by (auto simp: d2)
  show fs: "free_set d2 = free_set d1"
    using b1 by (simp add: d2 free_set_put)
  have in2: "inode_at d2 p = i'" using i(1) by (simp add: d2)
  have q': "ptr i' 0 = ?q" using i(2) by (simp add: ptr_def)
  have dirs2: "dirs_at d2 i' = ds'"
    using pq okd by (simp add: dirs_at_def q' d2 blk_put_other)
  show "slots d2 p = map slot_name ds'"
    by (simp add: slots_def in2 dirs2)
  show own2: "own d2 p = own d p"
    using i(4) by (simp add: own_def in2 data_blocks_def q') (simp add: D)
  show "view d2 p = ADir (attrs_of i') (sint (size_i (inode_at d p))) (dir_map ds')"
    using i by (simp add: view_def in2 dirs2 Let_def)
  have "block_ok d2 b" if "b \<in> own d p" for b
    using own_block_ok [OF C p that] kp that le by (auto simp: block_ok_def fs [symmetric] d2)
  then show "node_ok d2 p"
    using ok ds i D pq unfolding node_ok_def by (simp add: own2 in2 dirs2 data_blocks_def q')
  show "\<And>b. b \<notin> own d p \<Longrightarrow> b < nblks d1 \<Longrightarrow> blk d2 b = blk d1 b"
    by (simp add: d2 own blk_put_other)
qed

section \<open>create and mkdir: the checks\<close>

text \<open>The return code of the checks, or \<open>None\<close> when the object may be made.\<close>

definition new_error :: "afs \<Rightarrow> cstring list \<Rightarrow> int option" where
  "new_error A toks =
     (if alookup A 2 toks \<noteq> None then Some (- EEXIST)
      else if 27 < length (last toks) then Some (- EINVAL)
      else case alookup A 2 (butlast toks) of
        None \<Rightarrow> Some (- ENOENT)
      | Some p \<Rightarrow> if is_adir (A p) then None else Some (- ENOTDIR))"

lemma parent_run:
  assumes C: "consistent N d" and P: "ok_path toks"
  shows "path2inum (parent_path (mkpath toks) toks) d = (Inr (case alookup (absfs N d) 2 (butlast toks) of
      Some p \<Rightarrow> int p | None \<Rightarrow> resolve (absfs N d) (2 < length toks) 2 (butlast toks)), d)"
  using path2inum_parent [OF C P] resolve_cases by simp

lemma path_nonempty: "ok_path toks \<Longrightarrow> mkpath toks \<noteq> [] \<and> hd (mkpath toks) = slash \<and> toks \<noteq> []"
  by (cases toks) (auto simp: ok_path_def mkpath_Cons)

lemma prepare_new_run:
  assumes C: "consistent N d" and P: "ok_path toks"
  shows "prepare_new e (mkpath toks) d = (Inr (case new_error (absfs N d) toks of
      Some code \<Rightarrow> Inl code
    | None \<Rightarrow> (let p = the (alookup (absfs N d) 2 (butlast toks))
               in Inr (int p, inode_at d p, last toks))), d)"
proof -
  let ?A = "absfs N d"
  note ne = path_nonempty [OF P]
  have cp: "copy_tokens (mkpath toks) d = (Inr toks, d)" using P by (rule copy_tokens_run)
  have pi: "path2inum (mkpath toks) d = (Inr (resolve ?A (1 < length toks) 2 toks), d)"
    using path2inum_mkpath [OF C P] .
  show ?thesis
  proof (cases "alookup ?A 2 toks")
    case (Some n)
    then show ?thesis
      using ne pi resolve_live [OF C Some] by (simp add: prepare_new_def andThen_def ret_def new_error_def)
  next
    case None
    note neg = resolve_not_found(1) [OF None, of "1 < length toks"]
    show ?thesis
    proof (cases "alookup ?A 2 (butlast toks)")
      case no_parent: None
      then show ?thesis
        using ne pi cp neg None parent_run [OF C P] resolve_not_found(1) [OF no_parent]
        by (simp add: prepare_new_def andThen_def ret_def new_error_def)
    next
      case parent: (Some p)
      have pN: "p \<in> N" using resolve_live(3) [OF C parent] .
      have "block_read (int p) d = Some (blk d p)"
        using consistentD(2) [OF C pN] by (rule node_read)
      then show ?thesis
        using ne pi cp neg None parent parent_run [OF C P] pN
        by (simp add: prepare_new_def andThen_def run_simps new_error_def Let_def
            inode_at_def [symmetric] is_adir_view)
    qed
  qed
qed

section \<open>create and mkdir: entering the name\<close>

lemma zero_slice: "32 * k + 32 \<le> 4096 \<Longrightarrow> slice zero_block (32 * k) 32 = replicate 32 0"
  by (simp add: slice_def zero_block_def min_def)

lemma slice_replicate: "off + n \<le> m \<Longrightarrow> slice (replicate m 0) off n = replicate n 0"
  by (simp add: slice_def min_def)

lemma zero_dirs: "k < 128 \<Longrightarrow> \<not> valid (decode_dirs zero_block ! k)"
proof -
  assume k: "k < 128"
  have "le_word (replicate 4 0) = (0 :: u32)" by (simp add: numeral_eq_Suc)
  with k show ?thesis
    by (simp add: decode_dirs_def decode_dirent_def zero_slice slice_replicate Let_def)
qed

lemma length_zero_block [simp]: "length zero_block = 4096"
  by (simp add: zero_block_def)

lemma zero_dir_ok: "dir_ok (decode_dirs zero_block)"
proof (rule dir_okI)
  fix k :: nat assume "k < 128"
  then show "length (name (decode_dirs zero_block ! k)) = 28"
    using dirs_codec.ok_dec [of zero_block] by (simp add: ok_dirs_def list_all_length ok_dirent_def)
qed (simp_all add: zero_dirs)

lemma zero_dir_map: "dir_map (decode_dirs zero_block) = Map.empty"
  by (rule ext) (simp add: dir_map_None zero_dirs)

lemma type_bits:
  "S_ISDIR ((0xfff AND m) OR push_bit 14 1)" "\<not> S_ISDIR ((0xfff AND m) OR push_bit 15 1)"
proof -
  have "((0xfff AND m) OR v) AND 0xF000 = v AND 0xF000" for v :: u32
  proof -
    have "(0xfff AND m) AND 0xF000 = m AND (0xfff AND 0xF000)" by (simp only: ac_simps)
    then show ?thesis by (simp add: bit.conj_disj_distrib2)
  qed
  then show "S_ISDIR ((0xfff AND m) OR push_bit 14 1)" "\<not> S_ISDIR ((0xfff AND m) OR push_bit 15 1)"
    by (simp_all add: S_ISDIR_def)
qed

definition free_slot :: "disk \<Rightarrow> nat \<Rightarrow> bool" where
  "free_slot d p \<longleftrightarrow> list_ex (\<lambda>e. \<not> valid e) (dirs_at d (inode_at d p))"

lemma add_dirent_run:
  assumes C: "consistent N d" and p: "p \<in> N" and D: "S_ISDIR (mode (inode_at d p))"
    and le: "nblks d \<le> nblks d1" and same: "\<And>b. b \<in> own d p \<Longrightarrow> blk d1 b = blk d b"
    and slot: "free_slot d p"
    and t: "ok_token t" "length t \<le> 27" "dir_map (dirs_at d (inode_at d p)) t = None" and x: "x < 2 ^ 31"
  obtains ds' where "dir_ok ds'" and "dir_map ds' = (dir_map (dirs_at d (inode_at d p)))(t \<mapsto> x)"
    and "map slot_name ds' = enter t (slots d p)"
    and "add_dirent e (int p) (inode_at d p) t (int x) d1 =
      (Inr 0, put_block p (encode_inode (inode_at d p))
        (put_block (ptr (inode_at d p) 0) (encode_dirs ds') d1))"
proof -
  let ?i = "inode_at d p" and ?ds = "dirs_at d (inode_at d p)"
  have ok: "node_ok d p" using C p by (rule consistentD(2))
  then have dok: "dir_ok ?ds" using D by (simp add: node_ok_def)
  define k where "k = scan (\<lambda>e. \<not> valid e) ?ds"
  have "k < length ?ds" using slot unfolding k_def free_slot_def by (simp add: scan_less_iff list_ex_iff)
  then have k: "k < 128" "\<not> valid (?ds ! k)"
    using scan_hit [of "\<lambda>e. \<not> valid e" ?ds] by (simp_all add: k_def dirs_at_def)
  define ds' where "ds' = ?ds[k := \<lparr>valid = True, inode = word_of_int (int x),
      name = strcpy_into (name (?ds ! k)) t\<rparr>]"
  note q = dir_ptr [OF ok D]
  have pb: "block_ok d p" using ok by (rule node_block_ok) simp
  have pq: "0 < p" "p < 2 ^ 19 - 1" "0 < ptr ?i 0" "ptr ?i 0 < 2 ^ 19 - 1" "ptr ?i 0 < nblks d1"
    using pb q(1) le by (auto simp: block_ok_def)
  have qd: "blk d1 (ptr ?i 0) = blk d (ptr ?i 0)" using D by (intro same dir_ptr_own)
  have rd: "block_read (int (ptr ?i 0)) d1 = Some (blk d (ptr ?i 0))"
    using pq qd by (simp add: block_read_in_range get_block_def)
  have "add_dirent e (int p) ?i t (int x) d1 =
      (Inr 0, put_block p (encode_inode ?i) (put_block (ptr ?i 0) (encode_dirs ds') d1))"
    using pq k(1)
    by (simp add: add_dirent_def andThen_def run_simps q(2) rd Let_def dirs_at_def [symmetric]
        k_def [symmetric] ds'_def block_write_in_range)
  moreover have "map slot_name ds' = enter t (slots d p)"
    unfolding ds'_def k_def slots_def
    by (rule slots_enter) (use strcpy_name(3) [OF t(1,2) dir_okD(2) [OF dok k(1)]] in \<open>simp add: slot_name_def k_def\<close>)
  ultimately show ?thesis
    using that slot_add [OF dok k t x refl] by (simp add: ds'_def)
qed

text \<open>
  The general step: on \<open>d1\<close> the blocks of a new object \<open>x\<close> have been allocated and
  written; its name is entered in \<open>p\<close>.
\<close>

lemma new_linked:
  assumes C: "consistent N d" and p: "p \<in> N" and D: "S_ISDIR (mode (inode_at d p))"
    and m1: "mountable d1" and le: "nblks d \<le> nblks d1"
    and frame: "\<And>b. b \<noteq> 1 \<Longrightarrow> b < nblks d \<Longrightarrow> b \<notin> free_set d \<Longrightarrow> blk d1 b = blk d b"
    and F: "F \<subseteq> free_set d" "free_set d1 = free_set d - F" "x \<in> F" "own d1 x \<subseteq> F"
    and okx: "node_ok d1 x" and ch: "children (Some (view d1 x)) = Map.empty"
    and ds: "dir_ok ds'" "dir_map ds' = (dir_map (dirs_at d (inode_at d p)))(t \<mapsto> x)"
    and t: "dir_map (dirs_at d (inode_at d p)) t = None"
    and d2: "d2 = put_block p (encode_inode (inode_at d p)) (put_block (ptr (inode_at d p) 0) (encode_dirs ds') d1)"
  shows "consistent (insert x N) d2"
    and "absfs (insert x N) d2 = (a_link p t x (absfs N d))(x \<mapsto> view d1 x)"
    and "free_set d2 = free_set d - F"
    and "kept (N - {p}) d d2" and "slots d2 p = map slot_name ds'"
    and "S_ISDIR (mode (inode_at d1 x)) \<Longrightarrow> slots d2 x = slots d1 x"
proof -
  have same: "blk d1 b = blk d b" if "m \<in> N" "b \<in> own d m" for m b
    using own_block_ok [OF C that] by (intro frame) (auto simp: block_ok_def)
  have oki: "ok_inode (inode_at d p)" by (simp add: inode_at_def)
  have kp: "own d m \<inter> free_set d1 = {}" if "m \<in> N" for m
    using own_not_free [OF C that] F by auto
  note U = dir_updated [OF C p D m1 le kp [OF p] ds(1) oki refl refl D d2]
  have xN: "x \<notin> N" using F free_not_live [OF C] by auto
  have x2: "x \<noteq> 2" "x \<noteq> p" using xN root_in(1) [OF C] p by auto
  have ownF: "own d m \<inter> F = {}" if "m \<in> N" for m using own_not_free [OF C that] F by auto
  have bx: "blk d2 b = blk d1 b" if "b \<in> own d1 x" for b
    using that F(4) ownF [OF p] node_block_ok [OF okx that] by (intro U(7)) (auto simp: block_ok_def)
  have viewx: "view d2 x = view d1 x" and ownx: "own d2 x = own d1 x"
    using view_frame [of d1 x d2] bx by auto
  have "own d1 x \<inter> free_set d2 = {}"
    unfolding U(3) by (auto dest!: node_block_ok [OF okx] simp: block_ok_def)
  with okx bx U(2) have okx2: "node_ok d2 x" by (rule node_ok_frame)
  have rest: "blk d2 b = blk d b" if "m \<in> N" "m \<noteq> p" "b \<in> own d m" for m b
  proof -
    have "b \<notin> own d p" using consistentD(4) [OF C that(1) p that(2)] that(3) by auto
    then have "blk d2 b = blk d1 b"
      using own_inside [OF C that(1,3)] le by (intro U(7)) auto
    with same [OF that(1,3)] show ?thesis by simp
  qed
  have viewp: "view d p = ADir (attrs_of (inode_at d p)) (sint (size_i (inode_at d p))) (dir_map (dirs_at d (inode_at d p)))"
    using D by (simp add: view_def Let_def)
  have sub: "insert x N - {p, x} \<subseteq> N" by auto
  note z = super_block [OF C]
  have "blk d2 0 = blk d1 0" using z(1) le by (intro U(7) z(2) [OF p]) auto
  also have "blk d1 0 = blk d 0" using z(1,3) by (intro frame) auto
  finally show "kept (N - {p}) d d2" using rest by (intro keptI) auto
  show "slots d2 p = map slot_name ds'" by (rule U(8))
  show "slots d2 x = slots d1 x" if "S_ISDIR (mode (inode_at d1 x))"
    using view_frame(1,3) [of d1 x d2, OF bx] that by (simp add: slots_def)
  show abs: "absfs (insert x N) d2 = (a_link p t x (absfs N d))(x \<mapsto> view d1 x)"
  proof
    fix m
    consider "m = x" | "m = p" | "m \<noteq> x" "m \<noteq> p" by blast
    then show "absfs (insert x N) d2 m = ((a_link p t x (absfs N d))(x \<mapsto> view d1 x)) m"
    proof cases
      case 1
      then show ?thesis by (simp add: viewx)
    next
      case 2
      then show ?thesis using x2 p by (simp add: U(6) a_link_def viewp ds(2))
    next
      case 3
      then show ?thesis
        using rest [of m] view_frame(4) [of d m d2] by (auto simp: a_link_def absfs_def)
    qed
  qed
  show fs: "free_set d2 = free_set d - F" by (simp add: U(3) F(2))
  have T: "tree_ok (absfs (insert x N) d2)"
    unfolding abs
    using p D x2 xN t ch consistentD(3) [OF C]
    by (intro tree_ok_new) (simp_all add: is_adir_view children_view)
  show "consistent (insert x N) d2"
  proof (rule consistent_step [OF C U(1) _ sub])
    fix m k assume a: "m \<in> insert x N \<inter> {p, x}" "k \<in> insert x N" "m \<noteq> k"
    have ownk: "own d2 j = own d j" if "j \<in> N" "j \<noteq> p" for j
      using rest [OF that] by (rule view_frame(2))
    have all: "own d2 j = own d j" if "j \<in> N" for j
      using ownk [OF that] U(5) by (cases "j = p") auto
    show "own d2 m \<inter> own d2 k = {}"
    proof (cases "m = x \<or> k = x")
      case True
      then obtain j where "j \<in> N" "{m, k} = {x, j}" using a by auto
      then show ?thesis using ownF [of j] F(4) all [of j] ownx by (auto simp: doubleton_eq_iff)
    next
      case False
      then have "m \<in> N" "k \<in> N" using a by auto
      then show ?thesis using consistentD(4) [OF C _ _ a(3)] all by auto
    qed
  next
    fix m assume "m \<in> insert x N - {p, x}"
    then show "own d m \<inter> free_set d2 = {}" using kp [of m] U(3) by auto
  qed (use le U rest okx2 T in \<open>auto intro: le_trans\<close>)
qed

section \<open>create\<close>

definition new_attrs :: "env \<Rightarrow> u32 \<Rightarrow> u32 \<Rightarrow> attrs" where
  "new_attrs e m typ = \<lparr>a_uid = ucast (ctx_uid e), a_gid = ucast (ctx_gid e),
     a_mode = (0xfff AND m) OR typ, a_ctime = now e, a_mtime = now e\<rparr>"

lemma new_inode_ok: "ok_inode (new_inode e m typ sz)"
  using ok_decode_inode [of "stack e ''new_file''"] by (simp add: new_inode_def ok_inode_def)

lemma new_inode_simps [simp]:
  "mode (new_inode e m typ sz) = (0xfff AND m) OR typ"
  "size_i (new_inode e m typ sz) = sz"
  "attrs_of (new_inode e m typ sz) = new_attrs e m typ"
  by (simp_all add: new_inode_def attrs_of_def new_attrs_def)

text \<open>What \<open>new_error\<close> says about the parent when there is no error.\<close>

lemma new_parent:
  assumes C: "consistent N d" and P: "ok_path toks" and ok: "new_error (absfs N d) toks = None"
  obtains p where "alookup (absfs N d) 2 (butlast toks) = Some p" and "p \<in> N"
    and "S_ISDIR (mode (inode_at d p))" and "ok_token (last toks)" and "length (last toks) \<le> 27"
    and "dir_map (dirs_at d (inode_at d p)) (last toks) = None"
proof -
  have ne: "toks \<noteq> []" "ok_token (last toks)" using P by (auto simp: ok_path_def list_all_iff)
  obtain p where p: "alookup (absfs N d) 2 (butlast toks) = Some p" "is_adir (absfs N d p)"
    and m: "alookup (absfs N d) 2 toks = None" "length (last toks) \<le> 27"
    using ok by (auto simp: new_error_def split: if_splits option.splits)
  have pN: "p \<in> N" using resolve_live(3) [OF C p(1)] .
  then have D: "S_ISDIR (mode (inode_at d p))" using p(2) by (simp add: is_adir_view)
  have "children (absfs N d p) (last toks) = None"
    using m(1) alookup_butlast [OF ne(1)] p(1) by simp
  then have "dir_map (dirs_at d (inode_at d p)) (last toks) = None"
    using pN D by (simp add: children_view)
  with that p(1) pN D ne m(2) show ?thesis by blast
qed

text \<open>create up to the directory entry: \<open>d1\<close> has the new object in the block \<open>x\<close>.\<close>

lemma create_object:
  assumes C: "consistent N d" and P: "ok_path toks"
    and ok: "new_error (absfs N d) toks = None" and L: "alookup (absfs N d) 2 (butlast toks) = Some p"
    and room: "free_set d \<noteq> {}"
  obtains d1 x where "x = Min (free_set d)" and "x \<in> free_set d"
    and "fs_create e (mkpath toks) m d = add_dirent e (int p) (inode_at d p) (last toks) (int x) d1"
    and "mountable d1" and "nblks d \<le> nblks d1"
    and "\<And>b. b \<noteq> 1 \<Longrightarrow> b < nblks d \<Longrightarrow> b \<notin> free_set d \<Longrightarrow> blk d1 b = blk d b"
    and "free_set d1 = free_set d - {x}" and "own d1 x = {x}" and "node_ok d1 x"
    and "view d1 x = AFile (new_attrs e m (push_bit 15 1)) []"
    and "through (spares d) d d1"
proof -
  have mt: "mountable d" using C by (rule consistentD(1))
  obtain x where xm: "x = Min (free_set d)" and x: "x \<in> free_set d"
    and al: "alloc_blk e d = (Inr (int x), put_block 1 (bit_set (dmap d) x) d)"
    and fs0: "free_set (put_block 1 (bit_set (dmap d) x) d) = free_set d - {x}"
    by (rule alloc_blk_Some [OF mt room])
  define i where "i = new_inode e m (push_bit 15 1) 0"
  define d1 where "d1 = put_block x (encode_inode i) (put_block 1 (bit_set (dmap d) x) d)"
  have x3: "3 \<le> x" "x < 32768" using x by (auto simp: free_set_def)
  have oki: "ok_inode i" by (simp add: i_def new_inode_ok)
  have m1: "mountable d1" and le: "nblks d \<le> nblks d1" "x < nblks d1"
    using mt oki x3 by (auto simp: d1_def)
  have fs1: "free_set d1 = free_set d - {x}"
    using x3 fs0 mountable_blocks [OF mt] by (simp add: d1_def free_set_put)
  have frame: "blk d1 b = blk d b" if "b \<noteq> 1" "b < nblks d" "b \<notin> free_set d" for b
  proof -
    have "b \<noteq> x" using that x by auto
    with that show ?thesis by (simp add: d1_def blk_put_other)
  qed
  have inx: "inode_at d1 x = i" using oki by (simp add: d1_def)
  have fi: "\<not> S_ISDIR (mode i)" "fsize i = 0" "nblocks i = 0"
    using type_bits(2) [of m] by (simp_all add: i_def fsize_def nblocks_def)
  have ownx: "own d1 x = {x}" by (simp add: own_def inx data_blocks_def fi)
  have okx: "node_ok d1 x"
    using x3 le fs1 fi by (simp add: node_ok_def ownx block_ok_def inx data_blocks_def) (simp add: i_def)
  have vx: "view d1 x = AFile (new_attrs e m (push_bit 15 1)) []"
    using fi by (simp add: view_def inx content_def Let_def) (simp add: i_def)
  have wr: "block_write (encode_inode (new_inode e m (push_bit 15 1) 0)) (int x)
      (put_block 1 (bit_set (dmap d) x) d) = (Inr 0, d1)"
    using x3 by (simp add: block_write_in_range d1_def i_def)
  have "fs_create e (mkpath toks) m d = add_dirent e (int p) (inode_at d p) (last toks) (int x) d1"
    using prepare_new_run [OF C P, of e] ok L al wr
    by (simp add: fs_create_def andThen_def ret_def Let_def)
  moreover have "through (spares d) d d1"
    using mt x oki unfolding d1_def
    by (intro through_put stays spares_refl spares_put spares_take) simp_all
  ultimately show ?thesis using that xm x m1 le(1) frame fs1 ownx okx vx by blast
qed

lemma new_parent_is:
  assumes C: "consistent N d" and P: "ok_path toks" and ok: "new_error (absfs N d) toks = None"
    and L: "alookup (absfs N d) 2 (butlast toks) = Some p"
  shows "p \<in> N" and "S_ISDIR (mode (inode_at d p))" and "ok_token (last toks)" and "length (last toks) \<le> 27"
    and "dir_map (dirs_at d (inode_at d p)) (last toks) = None"
proof -
  obtain q where "alookup (absfs N d) 2 (butlast toks) = Some q" and "q \<in> N"
    and "S_ISDIR (mode (inode_at d q))" and "ok_token (last toks)" and "length (last toks) \<le> 27"
    and "dir_map (dirs_at d (inode_at d q)) (last toks) = None"
    by (rule new_parent [OF C P ok])
  with L show "p \<in> N" and "S_ISDIR (mode (inode_at d p))" and "ok_token (last toks)"
    and "length (last toks) \<le> 27" and "dir_map (dirs_at d (inode_at d p)) (last toks) = None" by auto
qed

text \<open>The name of an object made on \<open>d1\<close> goes into a free slot.\<close>

lemma object_entered:
  assumes C: "consistent N d" and P: "ok_path toks"
    and ok: "new_error (absfs N d) toks = None" and L: "alookup (absfs N d) 2 (butlast toks) = Some p"
    and slot: "free_slot d p"
    and m1: "mountable d1" and le: "nblks d \<le> nblks d1"
    and frame: "\<And>b. b \<noteq> 1 \<Longrightarrow> b < nblks d \<Longrightarrow> b \<notin> free_set d \<Longrightarrow> blk d1 b = blk d b"
    and F: "F \<subseteq> free_set d" "free_set d1 = free_set d - F" "x \<in> F" "own d1 x \<subseteq> F"
    and okx: "node_ok d1 x" and leaf: "children (Some (view d1 x)) = Map.empty"
  shows "\<exists>d'. add_dirent e (int p) (inode_at d p) (last toks) (int x) d1 = (Inr 0, d')
    \<and> consistent (insert x N) d' \<and> free_set d' = free_set d - F
    \<and> absfs (insert x N) d' = (a_link p (last toks) x (absfs N d))(x \<mapsto> view d1 x)
    \<and> kept (N - {p}) d d' \<and> slots d' p = enter (last toks) (slots d p)
    \<and> (S_ISDIR (mode (inode_at d1 x)) \<longrightarrow> slots d' x = slots d1 x)"
proof -
  note p = new_parent_is [OF C P ok L]
  have same: "blk d1 b = blk d b" if "b \<in> own d p" for b
    using own_block_ok [OF C p(1) that] by (intro frame) (auto simp: block_ok_def)
  have x: "x < 2 ^ 31" using F(1,3) free_set_range [of x d] by auto
  obtain ds' where ds: "dir_ok ds'" "dir_map ds' = (dir_map (dirs_at d (inode_at d p)))(last toks \<mapsto> x)"
    and sl: "map slot_name ds' = enter (last toks) (slots d p)"
    and add: "add_dirent e (int p) (inode_at d p) (last toks) (int x) d1 =
      (Inr 0, put_block p (encode_inode (inode_at d p)) (put_block (ptr (inode_at d p) 0) (encode_dirs ds') d1))"
    by (rule add_dirent_run [OF C p(1,2) le same slot p(3-5) x])
  show ?thesis
    using new_linked [OF C p(1,2) m1 le frame F okx leaf ds p(5) refl, unfolded sl] add by blast
qed

lemma fs_create_run:
  assumes C: "consistent N d" and P: "ok_path toks"
    and ok: "new_error (absfs N d) toks = None" and L: "alookup (absfs N d) 2 (butlast toks) = Some p"
    and room: "free_set d \<noteq> {}" and slot: "free_slot d p"
  shows "\<exists>d' x. x = Min (free_set d) \<and> fs_create e (mkpath toks) m d = (Inr 0, d')
    \<and> consistent (insert x N) d' \<and> free_set d' = free_set d - {x}
    \<and> absfs (insert x N) d' = (a_link p (last toks) x (absfs N d))
         (x \<mapsto> AFile (new_attrs e m (push_bit 15 1)) [])
    \<and> kept (N - {p}) d d' \<and> slots d' p = enter (last toks) (slots d p)"
proof -
  obtain d1 x where x: "x = Min (free_set d)" "x \<in> free_set d"
    and run: "fs_create e (mkpath toks) m d = add_dirent e (int p) (inode_at d p) (last toks) (int x) d1"
    and m1: "mountable d1" and le: "nblks d \<le> nblks d1"
    and frame: "\<And>b. b \<noteq> 1 \<Longrightarrow> b < nblks d \<Longrightarrow> b \<notin> free_set d \<Longrightarrow> blk d1 b = blk d b"
    and fs: "free_set d1 = free_set d - {x}" and own: "own d1 x = {x}" and okx: "node_ok d1 x"
    and v: "view d1 x = AFile (new_attrs e m (push_bit 15 1)) []"
    by (rule create_object [OF C P ok L room, of e m]) blast
  have "{x} \<subseteq> free_set d" "x \<in> {x}" "children (Some (view d1 x)) = Map.empty" using x(2) v by auto
  from object_entered [OF C P ok L slot m1 le frame this(1) fs this(2) equalityD1 [OF own] okx this(3), of e] show ?thesis
    using run v x(1) by auto
qed

lemma fs_create_ok:
  assumes "consistent N d" and "ok_path toks"
    and "new_error (absfs N d) toks = None" and "alookup (absfs N d) 2 (butlast toks) = Some p"
    and "free_set d \<noteq> {}" and "free_slot d p"
  shows "\<exists>d' x. x = Min (free_set d) \<and> fs_create e (mkpath toks) m d = (Inr 0, d')
    \<and> consistent (insert x N) d' \<and> free_set d' = free_set d - {x}
    \<and> absfs (insert x N) d' = (a_link p (last toks) x (absfs N d))
         (x \<mapsto> AFile (new_attrs e m (push_bit 15 1)) [])"
  using fs_create_run [OF assms, of e m] by blast

section \<open>mkdir\<close>

lemma mkdir_object:
  assumes C: "consistent N d" and P: "ok_path toks"
    and ok: "new_error (absfs N d) toks = None" and L: "alookup (absfs N d) 2 (butlast toks) = Some p"
    and room: "2 \<le> card (free_set d)"
  obtains d1 x y where "x = Min (free_set d)" and "y = Min (free_set d - {x})" and "{x, y} \<subseteq> free_set d"
    and "fs_mkdir e (mkpath toks) m d = add_dirent e (int p) (inode_at d p) (last toks) (int x) d1"
    and "mountable d1" and "nblks d \<le> nblks d1"
    and "\<And>b. b \<noteq> 1 \<Longrightarrow> b < nblks d \<Longrightarrow> b \<notin> free_set d \<Longrightarrow> blk d1 b = blk d b"
    and "free_set d1 = free_set d - {x, y}" and "own d1 x = {x, y}" and "node_ok d1 x"
    and "view d1 x = ADir (new_attrs e m (push_bit 14 1)) 4096 Map.empty"
    and "slots d1 x = replicate 128 None" and "through (spares d) d d1"
proof -
  have mt: "mountable d" using C by (rule consistentD(1))
  have "free_set d \<noteq> {}" using room by auto
  then obtain x where xm: "x = Min (free_set d)" and x: "x \<in> free_set d"
    and al: "alloc_blk e d = (Inr (int x), put_block 1 (bit_set (dmap d) x) d)"
    and fs0: "free_set (put_block 1 (bit_set (dmap d) x) d) = free_set d - {x}"
    by (rule alloc_blk_Some [OF mt])
  define da where "da = put_block 1 (bit_set (dmap d) x) d"
  have mta: "mountable da" using mt by (simp add: da_def)
  have fsa: "free_set da = free_set d - {x}" using fs0 by (simp add: da_def)
  have "card (free_set da) \<noteq> 0" using room x by (simp add: fsa card_Diff_singleton)
  then have "free_set da \<noteq> {}" by auto
  then obtain y where ym: "y = Min (free_set da)" and y: "y \<in> free_set da"
    and al2: "alloc_blk e da = (Inr (int y), put_block 1 (bit_set (dmap da) y) da)"
    and fs2: "free_set (put_block 1 (bit_set (dmap da) y) da) = free_set da - {y}"
    by (rule alloc_blk_Some [OF mta])
  define db where "db = put_block 1 (bit_set (dmap da) y) da"
  define i where "i = (let f = new_inode e m (push_bit 14 1) 4096 in f\<lparr>ptrs := (ptrs f)[0 := word_of_int (int y)]\<rparr>)"
  define d1 where "d1 = put_block x (encode_inode i) (put_block y zero_block db)"
  have x3: "3 \<le> x" "x < 32768" and y3: "3 \<le> y" "y < 32768"
    using free_set_range [OF x] free_set_range [OF y] by auto
  have xy: "x \<noteq> y" using y by (auto simp: fsa)
  have oki: "ok_inode i" and iy: "ptrs i ! 0 = word_of_int (int y)"
    using new_inode_ok [of e m "push_bit 14 1" 4096] by (simp_all add: i_def Let_def ok_inode_def)
  have py: "ptr i 0 = y" using y3 by (simp add: ptr_def iy unat_word32 del: of_int_of_nat_eq)
  have sy: "sint (ptrs i ! 0) = int y" using py y3 sint_unat [of "ptrs i ! 0"] by (simp add: ptr_def)
  have mtb: "mountable db" using mta by (simp add: db_def)
  then have m1: "mountable d1" using oki x3 y3 by (simp add: d1_def)
  have le: "nblks d \<le> nblks d1" "x < nblks d1" "y < nblks d1" and nb: "3 \<le> nblks db"
    using mountable_blocks [OF mtb] by (simp_all add: d1_def db_def da_def)
  have fs1: "free_set d1 = free_set d - {x, y}"
    using x3 y3 fs2 nb by (auto simp: d1_def free_set_put db_def fsa)
  have frame: "blk d1 b = blk d b" if "b \<noteq> 1" "b < nblks d" "b \<notin> free_set d" for b
  proof -
    have "b \<noteq> x" "b \<noteq> y" using that x y by (auto simp: fsa)
    with that show ?thesis by (simp add: d1_def db_def da_def blk_put_other)
  qed
  have inx: "inode_at d1 x = i" using oki by (simp add: d1_def)
  have fi: "S_ISDIR (mode i)" "size_i i = 4096" "attrs_of i = new_attrs e m (push_bit 14 1)"
    using type_bits(1) [of m] by (simp_all add: i_def Let_def new_inode_def attrs_of_def new_attrs_def)
  have dy: "dirs_at d1 i = decode_dirs zero_block"
    using xy by (simp add: dirs_at_def py d1_def blk_put_other)
  have ownx: "own d1 x = {x, y}" by (simp add: own_def inx data_blocks_def fi py)
  have okx: "node_ok d1 x"
    using x3 y3 le fs1 fi zero_dir_ok xy
    by (simp add: node_ok_def ownx block_ok_def inx data_blocks_def py dy)
  have vx: "view d1 x = ADir (new_attrs e m (push_bit 14 1)) 4096 Map.empty"
    using fi by (simp add: view_def inx dy zero_dir_map Let_def)
  have wr: "block_write zero_block (sint (ptrs i ! 0)) db = (Inr 0, put_block y zero_block db)"
    "block_write (encode_inode i) (int x) (put_block y zero_block db) = (Inr 0, d1)"
    using x3 y3 by (simp_all add: block_write_in_range d1_def sy)
  have "fs_mkdir e (mkpath toks) m d = add_dirent e (int p) (inode_at d p) (last toks) (int x) d1"
    using prepare_new_run [OF C P, of e] ok L al [folded da_def] al2 [folded db_def] wr
    by (simp add: fs_mkdir_def andThen_def ret_def Let_def i_def)
  note run = this
  have sx: "slots d1 x = replicate 128 None"
    by (rule nth_equalityI) (simp_all add: slots_def inx dy slot_name_def zero_dirs dir_okD(1) [OF zero_dir_ok])
  have "y = Min (free_set d - {x})" and "{x, y} \<subseteq> free_set d" using ym x y by (auto simp: fsa)
  moreover have "through (spares d) d d1"
    using mt x y oki unfolding d1_def db_def da_def fsa [unfolded da_def]
    by (intro through_put stays spares_refl spares_put spares_take) simp_all
  ultimately show ?thesis using that [OF xm _ _ run m1 le(1) frame fs1 ownx okx vx sx] by blast
qed

lemma fs_mkdir_run:
  assumes C: "consistent N d" and P: "ok_path toks"
    and ok: "new_error (absfs N d) toks = None" and L: "alookup (absfs N d) 2 (butlast toks) = Some p"
    and room: "2 \<le> card (free_set d)" and slot: "free_slot d p"
  shows "\<exists>d' x y. x = Min (free_set d) \<and> y = Min (free_set d - {x})
    \<and> fs_mkdir e (mkpath toks) m d = (Inr 0, d')
    \<and> consistent (insert x N) d' \<and> free_set d' = free_set d - {x, y}
    \<and> absfs (insert x N) d' = (a_link p (last toks) x (absfs N d))
         (x \<mapsto> ADir (new_attrs e m (push_bit 14 1)) 4096 Map.empty)
    \<and> kept (N - {p}) d d' \<and> slots d' p = enter (last toks) (slots d p) \<and> slots d' x = replicate 128 None"
proof -
  obtain d1 x y where x: "x = Min (free_set d)" "y = Min (free_set d - {x})" "{x, y} \<subseteq> free_set d"
    and run: "fs_mkdir e (mkpath toks) m d = add_dirent e (int p) (inode_at d p) (last toks) (int x) d1"
    and m1: "mountable d1" and le: "nblks d \<le> nblks d1"
    and frame: "\<And>b. b \<noteq> 1 \<Longrightarrow> b < nblks d \<Longrightarrow> b \<notin> free_set d \<Longrightarrow> blk d1 b = blk d b"
    and fs: "free_set d1 = free_set d - {x, y}" and own: "own d1 x = {x, y}" and okx: "node_ok d1 x"
    and v: "view d1 x = ADir (new_attrs e m (push_bit 14 1)) 4096 Map.empty"
    and sx: "slots d1 x = replicate 128 None"
    by (rule mkdir_object [OF C P ok L room, of e m]) (rule that; assumption)
  have "x \<in> {x, y}" "children (Some (view d1 x)) = Map.empty" using v by auto
  from object_entered [OF C P ok L slot m1 le frame x(3) fs this(1) equalityD1 [OF own] okx this(2), of e] show ?thesis
    using run v x(1,2) sx view_dir(1) [OF v] by auto
qed

lemma fs_mkdir_ok:
  assumes "consistent N d" and "ok_path toks"
    and "new_error (absfs N d) toks = None" and "alookup (absfs N d) 2 (butlast toks) = Some p"
    and "2 \<le> card (free_set d)" and "free_slot d p"
  shows "\<exists>d' x y. x = Min (free_set d) \<and> y = Min (free_set d - {x})
    \<and> fs_mkdir e (mkpath toks) m d = (Inr 0, d')
    \<and> consistent (insert x N) d' \<and> free_set d' = free_set d - {x, y}
    \<and> absfs (insert x N) d' = (a_link p (last toks) x (absfs N d))
         (x \<mapsto> ADir (new_attrs e m (push_bit 14 1)) 4096 Map.empty)"
  using fs_mkdir_run [OF assms, of e m] by blast

end
