(* ===== verification/DelSpec.thy ===== *)
theory DelSpec
  imports DirSpec
begin

text \<open>
  unlink, rmdir and rename against the abstract file system: the object's blocks return to
  the free set, its name leaves the parent's map, the parent's modification time is set;
  rename moves a name inside one directory.
\<close>

section \<open>Abstract side\<close>

fun touch :: "u32 \<Rightarrow> obj \<Rightarrow> obj" where
  "touch t (ADir a s m) = ADir (a\<lparr>a_mtime := t\<rparr>) s m"
| "touch t (AFile a c) = AFile (a\<lparr>a_mtime := t\<rparr>) c"

definition a_remove :: "nat \<Rightarrow> cstring \<Rightarrow> nat \<Rightarrow> u32 \<Rightarrow> afs \<Rightarrow> afs" where
  "a_remove p t n now_t A =
     (let B = (a_unlink p t A)(n := None) in B(p := map_option (touch now_t) (B p)))"

lemma children_touch [simp]: "children (map_option (touch t) x) = children x"
  by (cases x rule: is_adir.cases) auto

lemma is_adir_touch [simp]: "is_adir (map_option (touch t) x) = is_adir x"
  by (cases x rule: is_adir.cases) auto

lemma tree_ok_a_remove:
  assumes "tree_ok A" and "children (A p) t = Some n" and "children (A n) = Map.empty"
  shows "tree_ok (a_remove p t n now_t A)"
  unfolding a_remove_def Let_def
  by (rule tree_ok_same [OF tree_ok_removed [OF assms]])
     (use tree_okD(1) [OF tree_ok_removed [OF assms]] in auto)

text \<open>The return code of the checks that unlink and rmdir share.\<close>

definition del_error :: "afs \<Rightarrow> cstring list \<Rightarrow> int option" where
  "del_error A toks =
     (case alookup A 2 (butlast toks) of
        None \<Rightarrow> Some (- ENOENT)
      | Some p \<Rightarrow>
          if \<not> is_adir (A p) then Some (- ENOTDIR)
          else if alookup A 2 toks = None then Some (- ENOENT) else None)"

lemma prepare_del_run:
  assumes C: "consistent N d" and P: "ok_path toks"
  shows "prepare_del e (mkpath toks) d = (Inr (case del_error (absfs N d) toks of
      Some code \<Rightarrow> Inl code
    | None \<Rightarrow> (let p = the (alookup (absfs N d) 2 (butlast toks)); n = the (alookup (absfs N d) 2 toks)
               in Inr (int p, inode_at d p, int n, inode_at d n))), d)"
proof -
  let ?A = "absfs N d"
  have cp: "copy_tokens (mkpath toks) d = (Inr toks, d)" using P by (rule copy_tokens_run)
  have pi: "path2inum (mkpath toks) d = (Inr (resolve ?A (1 < length toks) 2 toks), d)"
    using path2inum_mkpath [OF C P] .
  show ?thesis
  proof (cases "alookup ?A 2 (butlast toks)")
    case None
    then show ?thesis
      using cp parent_run [OF C P] resolve_not_found(1) [OF None]
      by (simp add: prepare_del_def andThen_def ret_def del_error_def)
  next
    case parent: (Some p)
    have pN: "p \<in> N" using resolve_live(3) [OF C parent] .
    have rp: "block_read (int p) d = Some (blk d p)"
      using consistentD(2) [OF C pN] by (rule node_read)
    show ?thesis
    proof (cases "alookup ?A 2 toks")
      case None
      then show ?thesis
        using cp pi parent parent_run [OF C P] pN rp resolve_not_found(1) [OF None]
        by (simp add: prepare_del_def andThen_def run_simps del_error_def Let_def
            inode_at_def [symmetric] is_adir_view)
    next
      case (Some n)
      have "block_read (int n) d = Some (blk d n)"
        using consistentD(2) [OF C resolve_live(3) [OF C Some]] by (rule node_read)
      then show ?thesis
        using cp pi parent parent_run [OF C P] pN rp Some resolve_alookup [OF Some]
        by (simp add: prepare_del_def andThen_def run_simps del_error_def Let_def
            inode_at_def [symmetric] is_adir_view)
    qed
  qed
qed

section \<open>Removing an object\<close>

text \<open>The only valid slot with the number of the object is the one with its name.\<close>

lemma slot_of_child:
  assumes C: "consistent N d" and p: "p \<in> N" and D: "S_ISDIR (mode (inode_at d p))"
    and c: "dir_map (dirs_at d (inode_at d p)) t = Some n"
  obtains k where "k < 128" and "valid (dirs_at d (inode_at d p) ! k)"
    and "c_string (name (dirs_at d (inode_at d p) ! k)) = t"
    and "unat (inode (dirs_at d (inode_at d p) ! k)) = n"
    and "scan (\<lambda>e. valid e \<and> uint (inode e) = int n) (dirs_at d (inode_at d p)) = k"
    and "scan (\<lambda>e. valid e \<and> c_string (name e) = t) (dirs_at d (inode_at d p)) = k"
proof -
  let ?ds = "dirs_at d (inode_at d p)"
  have dok: "dir_ok ?ds" using consistentD(2) [OF C p] D by (simp add: node_ok_def)
  note iff = dir_map_iff [OF dok] and dd = dir_okD [OF dok]
  obtain k where k: "k < 128" "valid (?ds ! k)" "c_string (name (?ds ! k)) = t" "unat (inode (?ds ! k)) = n"
    using c dd(1) by (auto simp: iff)
  have name: "scan (\<lambda>e. valid e \<and> c_string (name e) = t) ?ds = k"
    using k dd(1,4) by (intro scan_unique) auto
  have "scan (\<lambda>e. valid e \<and> uint (inode e) = int n) ?ds = k"
  proof (rule scan_unique)
    fix j assume j: "j < length ?ds" and v: "valid (?ds ! j) \<and> uint (inode (?ds ! j)) = int n"
    then have n: "unat (inode (?ds ! j)) = n" by (simp only: uint_unat31 of_nat_eq_iff)
    define u where "u = c_string (name (?ds ! j))"
    have "dir_map ?ds u = Some n"
      using j v n by (auto simp: iff u_def)
    then have "u = t"
      using tree_okD(4) [OF consistentD(3) [OF C], of p u n p t] c p D by (simp add: children_view)
    then show "j = k" using dd j k v by (simp add: u_def)
  qed (use k dd(1) in \<open>simp_all only: uint_unat31 simp_thms\<close>)
  with that k name show ?thesis by blast
qed

lemma remove_dirent_run:
  assumes C: "consistent N d" and p: "p \<in> N" and D: "S_ISDIR (mode (inode_at d p))"
    and c: "dir_map (dirs_at d (inode_at d p)) t = Some n"
    and nb: "nblks d1 = nblks d" and same: "\<And>b. b \<noteq> 1 \<Longrightarrow> blk d1 b = blk d b"
  obtains ds' where "dir_ok ds'" and "dir_map ds' = (dir_map (dirs_at d (inode_at d p)))(t := None)"
    and "map slot_name ds' = erase t (slots d p)"
    and "remove_dirent e buf (int p) (inode_at d p) (int n) d1 =
      (Inr 0, put_block p (encode_inode ((inode_at d p)\<lparr>mtime := now e\<rparr>))
        (put_block (ptr (inode_at d p) 0) (encode_dirs ds') d1))"
proof -
  let ?i = "inode_at d p" and ?ds = "dirs_at d (inode_at d p)"
  have ok: "node_ok d p" using C p by (rule consistentD(2))
  then have dok: "dir_ok ?ds" using D by (simp add: node_ok_def)
  obtain k where k: "k < 128" "valid (?ds ! k)" "c_string (name (?ds ! k)) = t"
    and sc: "scan (\<lambda>e. valid e \<and> uint (inode e) = int n) ?ds = k"
    by (rule slot_of_child [OF C p D c])
  define ds' where "ds' = ?ds[k := (?ds ! k)\<lparr>valid := False\<rparr>]"
  note q = dir_ptr [OF ok D]
  have pb: "block_ok d p" using ok by (rule node_block_ok) simp
  have pq: "0 < p" "p < 2 ^ 19 - 1" "0 < ptr ?i 0" "ptr ?i 0 < 2 ^ 19 - 1" "ptr ?i 0 < nblks d1" "ptr ?i 0 \<noteq> 1"
    using pb q(1) nb by (auto simp: block_ok_def)
  have rd: "block_read (int (ptr ?i 0)) d1 = Some (blk d (ptr ?i 0))"
    using pq same by (simp add: block_read_in_range get_block_def)
  have "remove_dirent e buf (int p) ?i (int n) d1 =
      (Inr 0, put_block p (encode_inode (?i\<lparr>mtime := now e\<rparr>)) (put_block (ptr ?i 0) (encode_dirs ds') d1))"
    using pq k(1)
    by (simp add: remove_dirent_def andThen_def run_simps q(2) rd Let_def dirs_at_def [symmetric]
        sc block_write_in_range ds'_def del: uint_unat31 int_nat_eq)
  then show ?thesis
    using that slot_clear [OF dok k] slots_erase [OF dok k] by (simp add: ds'_def slots_def)
qed

lemma old_unlinked:
  assumes C: "consistent N d" and p: "p \<in> N" and D: "S_ISDIR (mode (inode_at d p))"
    and c: "dir_map (dirs_at d (inode_at d p)) t = Some n" and e: "children (Some (view d n)) = Map.empty"
    and m1: "mountable d1" and nb: "nblks d1 = nblks d" and same: "\<And>b. b \<noteq> 1 \<Longrightarrow> blk d1 b = blk d b"
    and fs1: "free_set d1 = free_set d \<union> own d n"
    and ds: "dir_ok ds'" "dir_map ds' = (dir_map (dirs_at d (inode_at d p)))(t := None)"
    and d2: "d2 = put_block p (encode_inode ((inode_at d p)\<lparr>mtime := w\<rparr>)) (put_block (ptr (inode_at d p) 0) (encode_dirs ds') d1)"
  shows "consistent (N - {n}) d2"
    and "absfs (N - {n}) d2 = a_remove p t n w (absfs N d)"
    and "free_set d2 = free_set d \<union> own d n"
    and "kept (N - {p}) d d2" and "slots d2 p = map slot_name ds'"
proof -
  have nN: "n \<in> N" using child_in [OF C p D c] by simp
  have pn: "p \<noteq> n" using c e D by (auto simp: children_view)
  have dis: "own d m \<inter> own d n = {}" if "m \<in> N" "m \<noteq> n" for m
    using consistentD(4) [OF C that(1) nN that(2)] .
  have kp: "own d m \<inter> free_set d1 = {}" if "m \<in> N" "m \<noteq> n" for m
    using own_not_free [OF C that(1)] dis [OF that] by (auto simp: fs1)
  have i: "ok_inode ((inode_at d p)\<lparr>mtime := w\<rparr>)" "ptrs ((inode_at d p)\<lparr>mtime := w\<rparr>) = ptrs (inode_at d p)"
    "size_i ((inode_at d p)\<lparr>mtime := w\<rparr>) = size_i (inode_at d p)" "S_ISDIR (mode ((inode_at d p)\<lparr>mtime := w\<rparr>))"
    using D by (simp_all add: ok_inode_def) (simp add: inode_at_def)
  have le: "nblks d \<le> nblks d1" using nb by simp
  note U = dir_updated [OF C p D m1 le kp [OF p pn] ds(1) i d2]
  have rest: "blk d2 b = blk d b" if "m \<in> N" "m \<noteq> p" "b \<in> own d m" for m b
  proof -
    have "b \<notin> own d p" using consistentD(4) [OF C that(1) p that(2)] that(3) by auto
    then have "blk d2 b = blk d1 b"
      using own_inside [OF C that(1,3)] nb by (intro U(7)) auto
    moreover have "b \<noteq> 1" using own_not_map [OF C that(1)] that(3) by auto
    ultimately show ?thesis using same by simp
  qed
  note z = super_block [OF C]
  have "blk d2 0 = blk d1 0" using z(1) nb by (intro U(7) z(2) [OF p]) auto
  then show "kept (N - {p}) d d2" using rest same [of 0] by (intro keptI) auto
  show "slots d2 p = map slot_name ds'" by (rule U(8))
  have viewp: "view d p = ADir (attrs_of (inode_at d p)) (sint (size_i (inode_at d p))) (dir_map (dirs_at d (inode_at d p)))"
    using D by (simp add: view_def Let_def)
  show abs: "absfs (N - {n}) d2 = a_remove p t n w (absfs N d)"
  proof
    fix m
    consider "m = n" | "m = p" | "m \<noteq> n" "m \<noteq> p" by blast
    then show "absfs (N - {n}) d2 m = a_remove p t n w (absfs N d) m"
    proof cases
      case 1
      then show ?thesis using pn by (simp add: a_remove_def Let_def)
    next
      case 2
      then show ?thesis
        using pn p by (simp add: U(6) a_remove_def a_unlink_def viewp ds(2) Let_def) (simp add: attrs_of_def)
    next
      case 3
      then show ?thesis
        using rest [of m] view_frame(4) [of d m d2]
        by (auto simp: a_remove_def a_unlink_def absfs_def Let_def)
    qed
  qed
  show fs: "free_set d2 = free_set d \<union> own d n" by (simp add: U(3) fs1)
  have T: "tree_ok (absfs (N - {n}) d2)"
    unfolding abs
    by (rule tree_ok_a_remove [OF consistentD(3) [OF C]]) (use c e p D nN in \<open>auto simp: children_view\<close>)
  show "consistent (N - {n}) d2"
  proof (rule consistent_step [where X = "{p}", OF C U(1)])
    fix m k assume a: "m \<in> (N - {n}) \<inter> {p}" "k \<in> N - {n}" "m \<noteq> k"
    then have k: "k \<in> N" "k \<noteq> p" and mp: "m = p" by auto
    have "own d2 k = own d k" using rest [OF k] by (rule view_frame(2))
    then show "own d2 m \<inter> own d2 k = {}"
      using consistentD(4) [OF C p k(1)] k(2) U(5) by (simp add: mp)
  next
    fix m assume "m \<in> N - {n} - {p}"
    then show "own d m \<inter> free_set d2 = {}" using kp [of m] U(3) by auto
  qed (use le U rest T in \<open>auto intro: le_trans\<close>)
qed

lemma old_parent:
  assumes C: "consistent N d" and P: "ok_path toks" and L: "alookup (absfs N d) 2 toks = Some n"
  obtains p where "alookup (absfs N d) 2 (butlast toks) = Some p" and "p \<in> N"
    and "S_ISDIR (mode (inode_at d p))" and "dir_map (dirs_at d (inode_at d p)) (last toks) = Some n"
    and "del_error (absfs N d) toks = None" and "n \<in> N" and "n \<noteq> 2"
proof -
  have ne: "toks \<noteq> []" using P by (simp add: ok_path_def)
  obtain p where p: "alookup (absfs N d) 2 (butlast toks) = Some p"
    and c: "children (absfs N d p) (last toks) = Some n"
    using L alookup_butlast [OF ne, of "absfs N d" 2] by (auto split: option.splits)
  have pN: "p \<in> N" using resolve_live(3) [OF C p] .
  have D: "S_ISDIR (mode (inode_at d p))" and m: "dir_map (dirs_at d (inode_at d p)) (last toks) = Some n"
    using c pN by (auto simp: children_view split: if_splits)
  have "del_error (absfs N d) toks = None"
    using p L D pN by (simp add: del_error_def is_adir_view)
  with that p pN D m child_in [OF C pN D m] show ?thesis by blast
qed

lemma free_blk_ok:
  assumes "mountable d" and "3 \<le> n" and "n < 32768"
  obtains d' where "free_blk e (int n) d = (Inr (), d')" and "mountable d'" and "nblks d' = nblks d"
    and "free_set d' = insert n (free_set d)" and "\<And>b. b \<noteq> 1 \<Longrightarrow> blk d' b = blk d b"
proof
  show "free_blk e (int n) d = (Inr (), put_block 1 (bit_clear (dmap d) n) d)"
    using assms by (simp add: free_blk_run)
  show "free_set (put_block 1 (bit_clear (dmap d) n) d) = insert n (free_set d)"
    using assms free_blk_free_set [of d n] by simp
qed (use assms mountable_blocks [of d] in \<open>auto simp: blk_put_inside\<close>)

lemma fs_unlink_run:
  assumes C: "consistent N d" and P: "ok_path toks"
    and L: "alookup (absfs N d) 2 toks = Some n" and V: "absfs N d n = Some (AFile a c)"
  shows "\<exists>d' p. alookup (absfs N d) 2 (butlast toks) = Some p
    \<and> fs_unlink e (mkpath toks) d = (Inr 0, d') \<and> consistent (N - {n}) d'
    \<and> absfs (N - {n}) d' = a_remove p (last toks) n (now e) (absfs N d)
    \<and> free_set d' = free_set d \<union> own d n
    \<and> kept (N - {p}) d d' \<and> slots d' p = erase (last toks) (slots d p)"
proof -
  obtain p where p: "alookup (absfs N d) 2 (butlast toks) = Some p" and pN: "p \<in> N"
    and D: "S_ISDIR (mode (inode_at d p))" and m: "dir_map (dirs_at d (inode_at d p)) (last toks) = Some n"
    and ok: "del_error (absfs N d) toks = None" and n: "n \<in> N" "n \<noteq> 2"
    by (rule old_parent [OF C P L])
  have f: "\<not> S_ISDIR (mode (inode_at d n))" using V n view_file [of d n a c] by auto
  obtain d0 where r0: "free_data e (inode_at d n) d = (Inr (), d0)" and m0: "mountable d0"
    and n0: "nblks d0 = nblks d" and f0: "free_set d0 = free_set d \<union> (own d n - {n})"
    and b0: "\<And>b. b \<noteq> 1 \<Longrightarrow> blk d0 b = blk d b"
    by (rule free_data_run [OF C n(1) f, of e]) blast
  have n3: "3 \<le> n" "n < 32768" using own_ge3 [OF C n] by auto
  obtain d1 where r1: "free_blk e (int n) d0 = (Inr (), d1)" and m1: "mountable d1"
    and n1: "nblks d1 = nblks d0" and f1: "free_set d1 = insert n (free_set d0)"
    and b1: "\<And>b. b \<noteq> 1 \<Longrightarrow> blk d1 b = blk d0 b"
    by (rule free_blk_ok [OF m0 n3, of e]) blast
  have nb: "nblks d1 = nblks d" and same: "blk d1 b = blk d b" if "b \<noteq> 1" for b
    using n0 n1 b0 b1 that by auto
  have nb': "nblks d1 = nblks d" using n0 n1 by simp
  have fs: "free_set d1 = free_set d \<union> own d n" using f0 f1 by auto
  obtain ds' where ds: "dir_ok ds'" "dir_map ds' = (dir_map (dirs_at d (inode_at d p)))(last toks := None)"
    and sl: "map slot_name ds' = erase (last toks) (slots d p)"
    and rm: "remove_dirent e (stack e ''dirs'') (int p) (inode_at d p) (int n) d1 =
      (Inr 0, put_block p (encode_inode ((inode_at d p)\<lparr>mtime := now e\<rparr>))
        (put_block (ptr (inode_at d p) 0) (encode_dirs ds') d1))"
    by (rule remove_dirent_run [OF C pN D m nb' same])
  define d2 where "d2 = put_block p (encode_inode ((inode_at d p)\<lparr>mtime := now e\<rparr>))
        (put_block (ptr (inode_at d p) 0) (encode_dirs ds') d1)"
  have e: "children (Some (view d n)) = Map.empty" using f by (simp add: children_view)
  note U = old_unlinked [OF C pN D m e m1 nb' same fs ds d2_def, unfolded sl]
  have "fs_unlink e (mkpath toks) d = (Inr 0, d2)"
    using prepare_del_run [OF C P, of e] ok p L f r0 r1 rm
    by (simp add: fs_unlink_def andThen_def ret_def Let_def d2_def)
  with U p show ?thesis by blast
qed

lemma fs_unlink_ok:
  assumes "consistent N d" and "ok_path toks"
    and "alookup (absfs N d) 2 toks = Some n" and "absfs N d n = Some (AFile a c)"
  shows "\<exists>d' p. alookup (absfs N d) 2 (butlast toks) = Some p
    \<and> fs_unlink e (mkpath toks) d = (Inr 0, d') \<and> consistent (N - {n}) d'
    \<and> absfs (N - {n}) d' = a_remove p (last toks) n (now e) (absfs N d)
    \<and> free_set d' = free_set d \<union> own d n"
  using fs_unlink_run [OF assms, of e] by blast

text \<open>An empty directory: no slot is valid.\<close>

lemma empty_dir_iff:
  assumes C: "consistent N d" and n: "n \<in> N" and D: "S_ISDIR (mode (inode_at d n))"
  shows "scan valid (dirs_at d (inode_at d n)) < 128 \<longleftrightarrow> dir_map (dirs_at d (inode_at d n)) \<noteq> Map.empty"
proof -
  let ?ds = "dirs_at d (inode_at d n)"
  have dok: "dir_ok ?ds" using consistentD(2) [OF C n] D by (simp add: node_ok_def)
  have "scan valid ?ds < 128 \<longleftrightarrow> (\<exists>k<128. valid (?ds ! k))"
    using scan_less_iff [of valid ?ds] dir_okD(1) [OF dok] by (metis in_set_conv_nth)
  moreover have "(\<exists>k<128. valid (?ds ! k)) \<longleftrightarrow> dir_map ?ds \<noteq> Map.empty"
    by (auto simp: fun_eq_iff dir_map_None dir_okD(1) [OF dok])
  ultimately show ?thesis by simp
qed

lemma fs_rmdir_run:
  assumes C: "consistent N d" and P: "ok_path toks"
    and L: "alookup (absfs N d) 2 toks = Some n" and V: "absfs N d n = Some (ADir a s Map.empty)"
  shows "\<exists>d' p. alookup (absfs N d) 2 (butlast toks) = Some p
    \<and> fs_rmdir e (mkpath toks) d = (Inr 0, d') \<and> consistent (N - {n}) d'
    \<and> absfs (N - {n}) d' = a_remove p (last toks) n (now e) (absfs N d)
    \<and> free_set d' = free_set d \<union> own d n
    \<and> kept (N - {p}) d d' \<and> slots d' p = erase (last toks) (slots d p)"
proof -
  obtain p where p: "alookup (absfs N d) 2 (butlast toks) = Some p" and pN: "p \<in> N"
    and D: "S_ISDIR (mode (inode_at d p))" and m: "dir_map (dirs_at d (inode_at d p)) (last toks) = Some n"
    and ok: "del_error (absfs N d) toks = None" and n: "n \<in> N" "n \<noteq> 2"
    by (rule old_parent [OF C P L])
  let ?q = "ptr (inode_at d n) 0"
  have f: "S_ISDIR (mode (inode_at d n))" and e: "dir_map (dirs_at d (inode_at d n)) = Map.empty"
    using V n by (auto simp: view_def Let_def split: if_splits)
  have own: "own d n = {n, ?q}" using f by (rule dir_own)
  have nok: "node_ok d n" using C n(1) by (rule consistentD(2))
  have q3: "3 \<le> ?q" "?q < 32768" using own_ge3 [OF C n, of ?q] own by auto
  have n3: "3 \<le> n" "n < 32768" using own_ge3 [OF C n] by auto
  have mt: "mountable d" using C by (rule consistentD(1))
  obtain d0 where r0: "free_blk e (int ?q) d = (Inr (), d0)" and m0: "mountable d0"
    and n0: "nblks d0 = nblks d" and f0: "free_set d0 = insert ?q (free_set d)"
    and b0: "\<And>b. b \<noteq> 1 \<Longrightarrow> blk d0 b = blk d b"
    by (rule free_blk_ok [OF mt q3, of e]) blast
  obtain d1 where r1: "free_blk e (int n) d0 = (Inr (), d1)" and m1: "mountable d1"
    and n1: "nblks d1 = nblks d0" and f1: "free_set d1 = insert n (free_set d0)"
    and b1: "\<And>b. b \<noteq> 1 \<Longrightarrow> blk d1 b = blk d0 b"
    by (rule free_blk_ok [OF m0 n3, of e]) blast
  have nb: "nblks d1 = nblks d" using n0 n1 by simp
  have same: "blk d1 b = blk d b" if "b \<noteq> 1" for b using b0 b1 that by auto
  have fs: "free_set d1 = free_set d \<union> own d n" using f0 f1 own by auto
  obtain ds' where ds: "dir_ok ds'" "dir_map ds' = (dir_map (dirs_at d (inode_at d p)))(last toks := None)"
    and sl: "map slot_name ds' = erase (last toks) (slots d p)"
    and rm: "remove_dirent e (blk d ?q) (int p) (inode_at d p) (int n) d1 =
      (Inr 0, put_block p (encode_inode ((inode_at d p)\<lparr>mtime := now e\<rparr>))
        (put_block (ptr (inode_at d p) 0) (encode_dirs ds') d1))"
    by (rule remove_dirent_run [OF C pN D m nb same])
  define d2 where "d2 = put_block p (encode_inode ((inode_at d p)\<lparr>mtime := now e\<rparr>))
        (put_block (ptr (inode_at d p) 0) (encode_dirs ds') d1)"
  have e': "children (Some (view d n)) = Map.empty" using f e by (simp add: children_view)
  have emp: "\<not> scan valid (decode_dirs (blk d ?q)) < 128"
    using empty_dir_iff [OF C n(1) f] e by (simp add: dirs_at_def)
  note U = old_unlinked [OF C pN D m e' m1 nb same fs ds d2_def, unfolded sl]
  note q = dir_ptr(2) [OF nok f] dir_read [OF nok f]
  have rq: "block_read (int ?q) d = Some (blk d ?q)" using q by simp
  have "fs_rmdir e (mkpath toks) d = (Inr 0, d2)"
    using prepare_del_run [OF C P, of e] ok p L f r0 r1 rm emp
    by (simp add: fs_rmdir_def andThen_def run_simps q(1) rq Let_def d2_def)
  with U p show ?thesis by blast
qed

lemma fs_rmdir_ok:
  assumes "consistent N d" and "ok_path toks"
    and "alookup (absfs N d) 2 toks = Some n" and "absfs N d n = Some (ADir a s Map.empty)"
  shows "\<exists>d' p. alookup (absfs N d) 2 (butlast toks) = Some p
    \<and> fs_rmdir e (mkpath toks) d = (Inr 0, d') \<and> consistent (N - {n}) d'
    \<and> absfs (N - {n}) d' = a_remove p (last toks) n (now e) (absfs N d)
    \<and> free_set d' = free_set d \<union> own d n"
  using fs_rmdir_run [OF assms, of e] by blast

end
