(* ===== verification/RenameSpec.thy ===== *)
theory RenameSpec
  imports DelSpec
begin

text \<open>
  rename against the abstract file system: the checks in the order of the code, and the
  change of one name inside one directory.
\<close>

section \<open>rename\<close>

definition rename_error :: "afs \<Rightarrow> cstring list \<Rightarrow> cstring list \<Rightarrow> int option" where
  "rename_error A src dst =
     (if alookup A 2 src = None
      then Some (if resolve A (1 < length src) 2 src = - ENOTDIR then - EINVAL else - ENOENT)
      else if alookup A 2 dst \<noteq> None then Some (- EEXIST)
      else if length dst \<noteq> length src \<or> butlast src \<noteq> butlast dst then Some (- EINVAL)
      else None)"

lemma rename_checks:
  assumes C: "consistent N d" and P: "ok_path src" "ok_path dst"
  shows "rename_error (absfs N d) src dst = Some code \<Longrightarrow>
      fs_rename (mkpath src) (mkpath dst) d = (Inr code, d)"
proof -
  let ?A = "absfs N d"
  have pi: "path2inum (mkpath src) d = (Inr (resolve ?A (1 < length src) 2 src), d)"
    "path2inum (mkpath dst) d = (Inr (resolve ?A (1 < length dst) 2 dst), d)"
    using path2inum_mkpath [OF C P(1)] path2inum_mkpath [OF C P(2)] .
  have cp: "copy_tokens (mkpath src) d = (Inr src, d)" "copy_tokens (mkpath dst) d = (Inr dst, d)"
    using P by (simp_all add: copy_tokens_run)
  assume R: "rename_error ?A src dst = Some code"
  show ?thesis
  proof (cases "alookup ?A 2 src")
    case None
    then show ?thesis
      using R pi(1) resolve_not_found(1) [OF None, of "1 < length src"]
      by (simp add: fs_rename_def andThen_def ret_def rename_error_def split: if_splits)
  next
    case (Some n)
    note live = resolve_live(1,2) [OF C Some]
    show ?thesis
    proof (cases "alookup ?A 2 dst")
      case None
      note neg = resolve_not_found(1) [OF None, of "1 < length dst"]
      have e: "length dst \<noteq> length src \<or> butlast src \<noteq> butlast dst" "code = - EINVAL"
        using R Some None by (auto simp: rename_error_def split: if_splits)
      then show ?thesis
        using pi live neg cp by (auto simp: fs_rename_def andThen_def ret_def)
    next
      case (Some m)
      then show ?thesis
        using R pi live resolve_live(1,2) [OF C Some] \<open>alookup ?A 2 src = Some n\<close>
        by (simp add: fs_rename_def andThen_def ret_def rename_error_def)
    qed
  qed
qed

text \<open>All checks passed: the run up to the slot.\<close>

lemma rename_run:
  assumes C: "consistent N d" and P: "ok_path src" "ok_path dst"
    and R: "rename_error (absfs N d) src dst = None"
  obtains p n k where "alookup (absfs N d) 2 src = Some n" and "p \<in> N"
    and "alookup (absfs N d) 2 (butlast src) = Some p" and "S_ISDIR (mode (inode_at d p))"
    and "dir_map (dirs_at d (inode_at d p)) (last src) = Some n"
    and "dir_map (dirs_at d (inode_at d p)) (last dst) = None"
    and "k < 128" and "valid (dirs_at d (inode_at d p) ! k)"
    and "c_string (name (dirs_at d (inode_at d p) ! k)) = last src"
    and "fs_rename (mkpath src) (mkpath dst) d =
      (if 28 \<le> length (last dst) then (Inl Undef, d)
       else (Inr 0, put_block (ptr (inode_at d p) 0) (encode_dirs ((dirs_at d (inode_at d p))
         [k := (dirs_at d (inode_at d p) ! k)\<lparr>name :=
            strcpy_into (name (dirs_at d (inode_at d p) ! k)) (last dst)\<rparr>])) d))"
proof -
  let ?A = "absfs N d"
  have ne: "src \<noteq> []" "dst \<noteq> []" using P by (simp_all add: ok_path_def)
  obtain n where n: "alookup ?A 2 src = Some n" and new: "alookup ?A 2 dst = None"
    and same: "length dst = length src" "butlast dst = butlast src"
    using R by (auto simp: rename_error_def split: if_splits)
  obtain p where p: "alookup ?A 2 (butlast src) = Some p" and pN: "p \<in> N"
    and D: "S_ISDIR (mode (inode_at d p))" and m: "dir_map (dirs_at d (inode_at d p)) (last src) = Some n"
    by (rule old_parent [OF C P(1) n])
  have u: "dir_map (dirs_at d (inode_at d p)) (last dst) = None"
    using new alookup_butlast [OF ne(2), of ?A 2] same(2) p pN D by (simp add: children_view)
  obtain k where k: "k < 128" "valid (dirs_at d (inode_at d p) ! k)"
    "c_string (name (dirs_at d (inode_at d p) ! k)) = last src"
    and sc: "scan (\<lambda>e. valid e \<and> c_string (name e) = last src) (dirs_at d (inode_at d p)) = k"
    by (rule slot_of_child [OF C pN D m])
  have ok: "node_ok d p" using C pN by (rule consistentD(2))
  note q = dir_ptr [OF ok D]
  have rp: "block_read (int p) d = Some (blk d p)" using ok by (rule node_read)
  have rq: "block_read (int (ptr (inode_at d p) 0)) d = Some (blk d (ptr (inode_at d p) 0))"
    using q(1) by (rule block_ok_read)
  have pi: "path2inum (mkpath src) d = (Inr (int n), d)"
    "path2inum (mkpath dst) d = (Inr (resolve ?A (1 < length dst) 2 dst), d)"
    "path2inum (parent_path (mkpath src) src) d = (Inr (int p), d)"
    using path_live(1) [OF C P(1) n] path2inum_mkpath [OF C P(2)] parent_run [OF C P(1)] p by simp_all
  have cp: "copy_tokens (mkpath src) d = (Inr src, d)" "copy_tokens (mkpath dst) d = (Inr dst, d)"
    using P by (simp_all add: copy_tokens_run)
  have "fs_rename (mkpath src) (mkpath dst) d =
      (if 28 \<le> length (last dst) then (Inl Undef, d)
       else (Inr 0, put_block (ptr (inode_at d p) 0) (encode_dirs ((dirs_at d (inode_at d p))
         [k := (dirs_at d (inode_at d p) ! k)\<lparr>name :=
            strcpy_into (name (dirs_at d (inode_at d p) ! k)) (last dst)\<rparr>])) d))"
    using pi cp ne same k(1) resolve_live(2) [OF C n] resolve_not_found(1) [OF new, of "1 < length dst"]
      block_ok_write [OF q(1)]
    by (simp add: fs_rename_def andThen_def run_simps rp rq q(2) inode_at_def [symmetric]
        dirs_at_def [symmetric] Let_def sc)
  with that n pN p D m u k show ?thesis by blast
qed

lemma fs_rename_done:
  assumes C: "consistent N d" and P: "ok_path src" "ok_path dst"
    and R: "rename_error (absfs N d) src dst = None" and short: "length (last dst) \<le> 27"
  shows "\<exists>d' p. alookup (absfs N d) 2 (butlast src) = Some p
    \<and> fs_rename (mkpath src) (mkpath dst) d = (Inr 0, d') \<and> consistent N d'
    \<and> absfs N d' = a_rename p (last src) (last dst) (absfs N d) \<and> free_set d' = free_set d
    \<and> kept (N - {p}) d d' \<and> slots d' p = relabel (last src) (last dst) (slots d p)"
proof -
  obtain p n k where n: "alookup (absfs N d) 2 src = Some n" and pN: "p \<in> N"
    and p: "alookup (absfs N d) 2 (butlast src) = Some p" and D: "S_ISDIR (mode (inode_at d p))"
    and m: "dir_map (dirs_at d (inode_at d p)) (last src) = Some n"
    and u: "dir_map (dirs_at d (inode_at d p)) (last dst) = None"
    and k: "k < 128" "valid (dirs_at d (inode_at d p) ! k)"
    "c_string (name (dirs_at d (inode_at d p) ! k)) = last src"
    and run: "fs_rename (mkpath src) (mkpath dst) d =
      (if 28 \<le> length (last dst) then (Inl Undef, d)
       else (Inr 0, put_block (ptr (inode_at d p) 0) (encode_dirs ((dirs_at d (inode_at d p))
         [k := (dirs_at d (inode_at d p) ! k)\<lparr>name :=
            strcpy_into (name (dirs_at d (inode_at d p) ! k)) (last dst)\<rparr>])) d))"
    by (rule rename_run [OF C P R])
  define ds where "ds = dirs_at d (inode_at d p)"
  define ds' where "ds' = ds[k := (ds ! k)\<lparr>name := strcpy_into (name (ds ! k)) (last dst)\<rparr>]"
  have ok: "node_ok d p" using C pN by (rule consistentD(2))
  then have dok: "dir_ok ds" using D by (simp add: node_ok_def ds_def)
  have tok: "ok_token (last dst)" using P by (auto simp: ok_path_def list_all_iff)
  note S = slot_rename [OF dok k(1,2) [folded ds_def] tok short k(3) [folded ds_def] u [folded ds_def] refl,
      folded ds'_def]
  define d2 where "d2 = put_block (ptr (inode_at d p) 0) (encode_dirs ds') d"
  have mt: "mountable d" using C by (rule consistentD(1))
  have pq: "p \<noteq> ptr (inode_at d p) 0" using ok D by (simp add: node_ok_def data_blocks_def)
  have inside: "p < nblks d" "ptr (inode_at d p) 0 < nblks d"
    using own_inside [OF C pN] dir_own [OF D] by auto
  have d2': "d2\<lparr>history := history d2 @ [(p, blk d2 p)]\<rparr>
      = put_block p (encode_inode (inode_at d p)) (put_block (ptr (inode_at d p) 0) (encode_dirs ds') d)"
  proof -
    have "p < nblks d2" using inside(1) by (simp add: d2_def)
    moreover have "blk d2 p = encode_inode (inode_at d p)"
      using inside pq mountable_length [OF mt, of p]
      by (simp add: d2_def blk_put_other inode_at_def inode_codec.enc_dec)
    ultimately show ?thesis using put_block_same [of p d2] by (simp add: d2_def)
  qed
  have oki: "ok_inode (inode_at d p)" by (simp add: inode_at_def)
  have kp: "own d m \<inter> free_set d = {}" if "m \<in> N" for m using own_not_free [OF C that] .
  note U = dir_updated [OF C pN D mt order_refl kp [OF pN] S(1) oki refl refl D d2', unfolded same_image]
  have rest: "blk d2 b = blk d b" if "m \<in> N" "m \<noteq> p" "b \<in> own d m" for m b
  proof (rule U(7))
    show "b \<notin> own d p" using consistentD(4) [OF C that(1) pN that(2)] that(3) by auto
    show "b < nblks d" using own_inside [OF C that(1,3)] .
  qed
  have viewp: "view d p = ADir (attrs_of (inode_at d p)) (sint (size_i (inode_at d p))) (dir_map ds)"
    using D by (simp add: view_def Let_def ds_def)
  have abs: "absfs N d2 = a_rename p (last src) (last dst) (absfs N d)"
  proof
    fix j
    show "absfs N d2 j = a_rename p (last src) (last dst) (absfs N d) j"
    proof (cases "j = p")
      case True
      then show ?thesis using pN by (simp add: U(6) a_rename_def viewp S(2))
    next
      case False
      then show ?thesis
        using rest [of j] view_frame(4) [of d j d2] by (auto simp: a_rename_def absfs_def)
    qed
  qed
  have T: "tree_ok (absfs N d2)"
    unfolding abs
    by (rule tree_ok_renamed [OF consistentD(3) [OF C], of _ _ n]) (use m u D pN in \<open>auto simp: children_view\<close>)
  have "consistent N d2"
  proof (rule consistent_step [where X = "{p}", OF C U(1,2)])
    fix j i assume a: "j \<in> N \<inter> {p}" "i \<in> N" "j \<noteq> i"
    then have i: "i \<in> N" "i \<noteq> p" and jp: "j = p" by auto
    have "own d2 i = own d i" using rest [OF i] by (rule view_frame(2))
    then show "own d2 j \<inter> own d2 i = {}"
      using consistentD(4) [OF C pN i(1)] i(2) U(5) by (simp add: jp)
  qed (use U rest T kp in auto)
  moreover have "fs_rename (mkpath src) (mkpath dst) d = (Inr 0, d2)"
    using run short by (simp add: d2_def ds'_def ds_def)
  moreover have "kept (N - {p}) d d2"
  proof (rule keptI)
    show "blk d2 0 = blk d 0" using super_block [OF C] by (intro U(7) super_block(2) [OF C pN])
  qed (use rest in auto)
  moreover have "slots d2 p = relabel (last src) (last dst) (slots d p)"
    using U(8) slots_relabel [OF dok k(1,2) [folded ds_def] k(3) [folded ds_def] tok short]
    by (simp add: ds'_def slots_def ds_def)
  ultimately show ?thesis using p abs U(3) by auto
qed

lemma fs_rename_ok:
  assumes "consistent N d" and "ok_path src" "ok_path dst"
    and "rename_error (absfs N d) src dst = None" and "length (last dst) \<le> 27"
  shows "\<exists>d' p. alookup (absfs N d) 2 (butlast src) = Some p
    \<and> fs_rename (mkpath src) (mkpath dst) d = (Inr 0, d') \<and> consistent N d'
    \<and> absfs N d' = a_rename p (last src) (last dst) (absfs N d) \<and> free_set d' = free_set d"
  using fs_rename_done [OF assms] by blast

lemma fs_rename_long:
  assumes C: "consistent N d" and P: "ok_path src" "ok_path dst"
    and R: "rename_error (absfs N d) src dst = None" and long: "28 \<le> length (last dst)"
  shows "fs_rename (mkpath src) (mkpath dst) d = (Inl Undef, d)"
  by (rule rename_run [OF C P R]) (use long in simp)

end
