(* ===== verification/AttrSpec.thy ===== *)
theory AttrSpec
  imports RenameSpec
begin

text \<open>
  The attribute operations against the abstract file system: chmod and utime change one
  attribute of one object, getattr and readdir report what the objects hold, statfs counts
  the map, and a disk without the magic number is not mounted.
\<close>

section \<open>Changing the attributes of an object\<close>

fun on_attrs :: "(attrs \<Rightarrow> attrs) \<Rightarrow> obj \<Rightarrow> obj" where
  "on_attrs f (ADir a s m) = ADir (f a) s m"
| "on_attrs f (AFile a c) = AFile (f a) c"

definition a_attrs :: "nat \<Rightarrow> (attrs \<Rightarrow> attrs) \<Rightarrow> afs \<Rightarrow> afs" where
  "a_attrs n f A = A(n := map_option (on_attrs f) (A n))"

lemma children_on_attrs [simp]: "children (map_option (on_attrs f) x) = children x"
  by (cases x rule: is_adir.cases) auto

lemma is_adir_on_attrs [simp]: "is_adir (map_option (on_attrs f) x) = is_adir x"
  by (cases x rule: is_adir.cases) auto

lemma tree_ok_attrs: "tree_ok A \<Longrightarrow> tree_ok (a_attrs n f A)"
  by (rule tree_ok_same [of A]) (auto simp: a_attrs_def dest: tree_okD(1))

lemma attrs_changed:
  assumes C: "consistent N d" and n: "n \<in> N"
    and i: "ok_inode i'" "ptrs i' = ptrs (inode_at d n)" "size_i i' = size_i (inode_at d n)"
      "S_ISDIR (mode i') \<longleftrightarrow> S_ISDIR (mode (inode_at d n))"
    and f: "attrs_of i' = f (attrs_of (inode_at d n))"
    and d': "d' = put_block n (encode_inode i') d"
  shows "consistent N d'" and "absfs N d' = a_attrs n f (absfs N d)" and "free_set d' = free_set d" and "kept N d d'"
proof -
  have mt: "mountable d" using C by (rule consistentD(1))
  have ok: "node_ok d n" using C n by (rule consistentD(2))
  have nd: "n \<noteq> 1" "n < nblks d"
    using own_not_map [OF C n] own_inside [OF C n, of n] by auto
  have blk': "blk d' b = (if b = n then encode_inode i' else blk d b)" for b
    using nd by (simp add: d' blk_put_inside)
  have nb: "nblks d' = nblks d" and m': "mountable d'" using nd mt i(1) by (auto simp: d')
  have fs: "free_set d' = free_set d" using nd mountable_blocks [OF mt] by (simp add: d' free_set_put)
  then show "free_set d' = free_set d" .
  have in': "inode_at d' n = i'" using i(1) by (simp add: d')
  have same: "ptr i' = ptr (inode_at d n)" "fsize i' = fsize (inode_at d n)" "nblocks i' = nblocks (inode_at d n)"
    using i by (simp_all add: fun_eq_iff ptr_def fsize_def nblocks_def)
  have own': "own d' n = own d n" using i(4) by (simp add: own_def in' data_blocks_def same)
  have data: "blk d' (ptr i' k) = blk d (ptr i' k)" if "k < (if S_ISDIR (mode i') then 1 else nblocks i')" for k
  proof -
    have "ptr i' k \<in> set (data_blocks (inode_at d n))" using that i(4) by (auto simp: data_blocks_def same split: if_splits)
    then have "ptr i' k \<noteq> n" using ok by (auto simp: node_ok_def)
    then show ?thesis by (simp add: blk')
  qed
  have dirs: "dirs_at d' i' = dirs_at d (inode_at d n)" if "S_ISDIR (mode i')"
    using data [of 0] that by (simp add: dirs_at_def same)
  have cont: "content d' i' = content d (inode_at d n)" if "\<not> S_ISDIR (mode i')"
  proof -
    have "fbyte d' i' x = fbyte d (inode_at d n) x" if "x < fsize i'" for x
    proof -
      have "x div 4096 < nblocks i'" using that unfolding nblocks_def by linarith
      then show ?thesis using data [of "x div 4096"] \<open>\<not> S_ISDIR (mode i')\<close> by (simp add: fbyte_def same)
    qed
    then show ?thesis by (simp add: content_def same)
  qed
  have view': "view d' n = on_attrs f (view d n)"
    using i(3,4) f dirs cont by (simp add: view_def in' Let_def)
  have rest: "blk d' b = blk d b" if "m \<in> N - {n}" "b \<in> own d m" for m b
  proof -
    have "own d n \<inter> own d m = {}" using consistentD(4) [OF C n, of m] that(1) by auto
    then have "b \<noteq> n" using that(2) own_self [of n d] by blast
    then show ?thesis by (simp add: blk')
  qed
  have "n \<noteq> 0" using super_block(2) [OF C n] own_self [of n d] by metis
  then have "kept (N - {n}) d d'" using rest by (intro keptI) (simp_all add: blk')
  moreover have "slots d' n = slots d n" if "S_ISDIR (mode (inode_at d n))"
    using dirs that i(4) by (simp add: slots_def in')
  ultimately show "kept N d d'" unfolding kept_def by blast
  show abs: "absfs N d' = a_attrs n f (absfs N d)"
  proof
    fix m
    show "absfs N d' m = a_attrs n f (absfs N d) m"
      using rest [of m] view_frame(4) [of d m d'] n view' by (cases "m = n") (auto simp: a_attrs_def absfs_def)
  qed
  have T: "tree_ok (absfs N d')"
    unfolding abs using consistentD(3) [OF C] by (rule tree_ok_attrs)
  have okn: "node_ok d' n"
    using ok i dirs unfolding node_ok_def
    by (cases "S_ISDIR (mode (inode_at d n))") (simp_all add: own' in' data_blocks_def same block_ok_def nb fs)
  show "consistent N d'"
  proof (rule consistent_step [where X = "{n}", OF C m'])
    fix m k assume a: "m \<in> N \<inter> {n}" "k \<in> N" "m \<noteq> k"
    then have k: "k \<in> N - {n}" and mn: "m = n" by auto
    have "own d' k = own d k" using rest [OF k] by (rule view_frame(2))
    then show "own d' m \<inter> own d' k = {}"
      using consistentD(4) [OF C n] k own' by (auto simp: mn)
  qed (use nb rest T okn fs own_not_free [OF C] in auto)
qed

section \<open>Paths, the root included\<close>

definition fuse_path :: "cstring list \<Rightarrow> cstring" where
  "fuse_path toks = (if toks = [] then [slash] else mkpath toks)"

definition ok_fuse :: "cstring list \<Rightarrow> bool" where
  "ok_fuse toks \<longleftrightarrow> toks = [] \<or> ok_path toks"

lemma fuse_path_run:
  assumes C: "consistent N d" and P: "ok_fuse toks"
  shows "path2inum (fuse_path toks) d = (Inr (case alookup (absfs N d) 2 toks of Some n \<Rightarrow> int n
    | None \<Rightarrow> resolve (absfs N d) (1 < length toks) 2 toks), d)"
proof (cases "toks = []")
  case True
  then show ?thesis by (simp add: fuse_path_def path2inum_root)
next
  case False
  then show ?thesis
    using path2inum_mkpath [OF C, of toks] P resolve_cases by (simp add: fuse_path_def ok_fuse_def)
qed

lemma live_node:
  assumes C: "consistent N d" and L: "alookup (absfs N d) 2 toks = Some n"
  shows "n \<in> N" and "0 < int n" and "node_ok d n" and "block_read (int n) d = Some (blk d n)"
proof -
  show n: "n \<in> N" and "0 < int n" using resolve_live [OF C L] by auto
  show "node_ok d n" using C n by (rule consistentD(2))
  then show "block_read (int n) d = Some (blk d n)" by (rule node_read)
qed

section \<open>chmod and utime\<close>

definition chmod_bits :: "u32 \<Rightarrow> attrs \<Rightarrow> attrs" where
  "chmod_bits m a = a\<lparr>a_mode := (a_mode a AND 0xfffff000) OR (0xfff AND m)\<rparr>"

lemma chmod_type: "S_ISDIR ((w AND 0xfffff000) OR (0xfff AND m)) \<longleftrightarrow> S_ISDIR w"
proof -
  have "((w AND 0xfffff000) OR (0xfff AND m)) AND 0xF000 = w AND 0xF000"
  proof -
    have "(0xfff AND m) AND 0xF000 = m AND (0xfff AND 0xF000)"
      and "(w AND 0xfffff000) AND 0xF000 = w AND (0xfffff000 AND 0xF000)" by (simp_all only: ac_simps)
    then show ?thesis by (simp add: bit.conj_disj_distrib2)
  qed
  then show ?thesis by (simp add: S_ISDIR_def)
qed

lemma fs_chmod_kept:
  assumes C: "consistent N d" and P: "ok_fuse toks" and L: "alookup (absfs N d) 2 toks = Some n"
  shows "\<exists>d'. fs_chmod e (fuse_path toks) m d = (Inr 0, d') \<and> consistent N d'
    \<and> absfs N d' = a_attrs n (chmod_bits m) (absfs N d) \<and> free_set d' = free_set d \<and> kept N d d'"
proof -
  note p = live_node [OF C L]
  let ?i = "inode_at d n"
  define i' where "i' = ?i\<lparr>mode := (mode ?i AND 0xfffff000) OR (0xfff AND m)\<rparr>"
  have i: "ok_inode i'" "ptrs i' = ptrs ?i" "size_i i' = size_i ?i" "S_ISDIR (mode i') \<longleftrightarrow> S_ISDIR (mode ?i)"
    by (simp_all add: i'_def chmod_type ok_inode_def) (simp add: inode_at_def)
  have f: "attrs_of i' = chmod_bits m (attrs_of ?i)" by (simp add: i'_def chmod_bits_def attrs_of_def)
  have "block_ok d n" using p(3) by (rule node_block_ok) simp
  note w = block_ok_write [OF this, of "encode_inode i'"]
  have "fs_chmod e (fuse_path toks) m d = (Inr 0, put_block n (encode_inode i') d)"
    using p w L fuse_path_run [OF C P] by (simp add: fs_chmod_def andThen_def run_simps inode_at_def [symmetric] Let_def i'_def)
  with attrs_changed [where f = "chmod_bits m", OF C p(1) i f refl] show ?thesis by blast
qed

lemma fs_chmod_run:
  assumes C: "consistent N d" and P: "ok_fuse toks" and L: "alookup (absfs N d) 2 toks = Some n"
  shows "\<exists>d'. fs_chmod e (fuse_path toks) m d = (Inr 0, d') \<and> consistent N d'
    \<and> absfs N d' = a_attrs n (chmod_bits m) (absfs N d) \<and> free_set d' = free_set d"
  using fs_chmod_kept [OF C P L, of e m] by blast

definition utime_value :: "env \<Rightarrow> int option \<Rightarrow> u32" where
  "utime_value e ut = (case ut of None \<Rightarrow> now e | Some t \<Rightarrow> word_of_int t)"

lemma fs_utime_kept:
  assumes C: "consistent N d" and P: "ok_path toks" and L: "alookup (absfs N d) 2 toks = Some n"
    and V: "absfs N d n = Some (AFile a c)"
  shows "\<exists>d'. fs_utime e (mkpath toks) ut d = (Inr 0, d') \<and> consistent N d'
    \<and> absfs N d' = (absfs N d)(n \<mapsto> AFile (a\<lparr>a_mtime := utime_value e ut\<rparr>) c) \<and> free_set d' = free_set d \<and> kept N d d'"
proof -
  note p = path_live [OF C P L]
  let ?i = "inode_at d n"
  define i' where "i' = ?i\<lparr>mtime := utime_value e ut\<rparr>"
  have F: "\<not> S_ISDIR (mode ?i)" using V p(2) view_file [of d n a c] by auto
  have i: "ok_inode i'" "ptrs i' = ptrs ?i" "size_i i' = size_i ?i" "S_ISDIR (mode i') \<longleftrightarrow> S_ISDIR (mode ?i)"
    by (simp_all add: i'_def ok_inode_def) (simp add: inode_at_def)
  have f: "attrs_of i' = (\<lambda>a. a\<lparr>a_mtime := utime_value e ut\<rparr>) (attrs_of ?i)"
    by (simp add: i'_def attrs_of_def)
  have "block_ok d n" using p(5) by (rule node_block_ok) simp
  note w = block_ok_write [OF this, of "encode_inode i'"]
  have "fs_utime e (mkpath toks) ut d = (Inr 0, put_block n (encode_inode i') d)"
    using p w F by (simp add: fs_utime_def andThen_def run_simps inode_at_def [symmetric] Let_def
        i'_def utime_value_def)
  with attrs_changed [where f = "\<lambda>a. a\<lparr>a_mtime := utime_value e ut\<rparr>", OF C p(2) i f refl] V show ?thesis by (auto simp: a_attrs_def)
qed

lemma fs_utime_run:
  assumes C: "consistent N d" and P: "ok_path toks" and L: "alookup (absfs N d) 2 toks = Some n"
    and V: "absfs N d n = Some (AFile a c)"
  shows "\<exists>d'. fs_utime e (mkpath toks) ut d = (Inr 0, d') \<and> consistent N d'
    \<and> absfs N d' = (absfs N d)(n \<mapsto> AFile (a\<lparr>a_mtime := utime_value e ut\<rparr>) c) \<and> free_set d' = free_set d"
  using fs_utime_kept [OF C P L V, of e ut] by blast

section \<open>getattr\<close>

text \<open>What \<open>stat\<close> shows of an object.\<close>

definition osize :: "obj \<Rightarrow> int" where
  "osize ob = (case ob of ADir a s m \<Rightarrow> s | AFile a c \<Rightarrow> int (length c))"

definition oattrs :: "obj \<Rightarrow> attrs" where
  "oattrs ob = (case ob of ADir a s m \<Rightarrow> a | AFile a c \<Rightarrow> a)"

definition ostat :: "nat \<Rightarrow> obj \<Rightarrow> stat" where
  "ostat n ob =
     \<lparr>st_ino = word_of_int (int n), st_mode = a_mode (oattrs ob), st_nlink = 1, st_uid = a_uid (oattrs ob),
      st_gid = a_gid (oattrs ob), st_size = osize ob,
      st_blocks = (if is_adir (Some ob) then 1 else (osize ob + 4095) div 4096),
      st_atim = a_ctime (oattrs ob), st_mtim = a_mtime (oattrs ob), st_ctim = a_ctime (oattrs ob)\<rparr>"

lemma inode2stat_view:
  assumes C: "consistent N d" and n: "n \<in> N"
  shows "inode2stat (inode_at d n) (word_of_int (int n)) = ostat n (view d n)"
proof (cases "S_ISDIR (mode (inode_at d n))")
  case True
  then show ?thesis
    by (simp add: inode2stat_def ostat_def view_def Let_def oattrs_def osize_def attrs_of_def)
next
  case False
  have R: "readable d (inode_at d n)" using consistentD(2) [OF C n] False by (rule node_readable)
  have s: "sint (size_i (inode_at d n)) = int (fsize (inode_at d n))" "fsize (inode_at d n) \<le> 4096 * 1019"
    using R by (simp_all add: readable_def fsize_int)
  have "DIV_ROUND_UP (sint (size_i (inode_at d n))) 4096 = (int (fsize (inode_at d n)) + 4095) div 4096"
    using R DIV_ROUND_UP_size [of "inode_at d n"] by (simp only: readable_def) (simp add: nblocks_def zdiv_int)
  with False s(1) show ?thesis
    by (simp add: inode2stat_def ostat_def view_def Let_def oattrs_def osize_def attrs_of_def content_def)
qed

lemma fs_getattr_run:
  assumes C: "consistent N d" and P: "ok_fuse toks"
  shows "fs_getattr (fuse_path toks) sb d = (Inr (case alookup (absfs N d) 2 toks of
      Some n \<Rightarrow> (0, ostat n (the (absfs N d n)))
    | None \<Rightarrow> (resolve (absfs N d) (1 < length toks) 2 toks, sb)), d)"
proof (cases "alookup (absfs N d) 2 toks")
  case None
  have "resolve (absfs N d) (1 < length toks) 2 toks \<in> {- ENOENT, - ENOTDIR}"
    using resolve_error [OF None] .
  then show ?thesis
    using None fuse_path_run [OF C P] by (auto simp: fs_getattr_def andThen_def ret_def)
next
  case (Some n)
  note p = live_node [OF C Some]
  show ?thesis
    using p Some inode2stat_view [OF C p(1)] fuse_path_run [OF C P]
    by (simp add: fs_getattr_def andThen_def run_simps inode_at_def [symmetric])
qed

section \<open>readdir\<close>

definition entry_stat :: "disk \<Rightarrow> fs_dirent \<Rightarrow> cstring \<times> stat" where
  "entry_stat d e = (c_string (name e), ostat (unat (inode e)) (view d (unat (inode e))))"

lemma list_entries_run:
  assumes C: "consistent N d"
  shows "\<forall>e\<in>set es. valid e \<longrightarrow> 0 \<in> set (name e) \<and> unat (inode e) \<in> N \<Longrightarrow>
    list_entries es d = (Inr (map (entry_stat d) (filter valid es)), d)"
proof (induction es)
  case Nil
  then show ?case by (simp add: ret_def)
next
  case (Cons e es)
  have IH: "list_entries es d = (Inr (map (entry_stat d) (filter valid es)), d)"
    using Cons by simp
  show ?case
  proof (cases "valid e")
    case False
    then show ?thesis using IH by simp
  next
    case True
    then have z: "0 \<in> set (name e)" and n: "unat (inode e) \<in> N" using Cons.prems by auto
    have r: "block_read (uint (inode e)) d = Some (blk d (unat (inode e)))"
      using node_read [OF consistentD(2) [OF C n]] by (simp only: uint_unat31)
    have "(ucast (inode e) :: u32) = word_of_int (int (unat (inode e)))"
      by (simp only: ucast_eq uint_unat31)
    then have st: "inode2stat (inode_at d (unat (inode e))) (ucast (inode e)) =
        ostat (unat (inode e)) (view d (unat (inode e)))"
      using inode2stat_view [OF C n] by (simp only:)
    have "list_entries (e # es) d =
        (Inr ((c_string (name e), inode2stat (inode_at d (unat (inode e))) (ucast (inode e)))
           # map (entry_stat d) (filter valid es)), d)"
      using True z IH r by (simp add: andThen_def run_simps inode_at_def del: uint_unat31)
    then show ?thesis
      using True by (simp only: st) (simp add: entry_stat_def)
  qed
qed

lemma map_of_entries:
  "map_of (map (entry_stat d) (filter valid es)) t = map_option (\<lambda>n. ostat n (view d n)) (dir_map es t)"
  by (induction es) (auto simp: entry_stat_def dir_map_def Let_def)

lemma distinct_names:
  assumes "\<And>j k. j < length xs \<Longrightarrow> k < length xs \<Longrightarrow> P (xs ! j) \<Longrightarrow> P (xs ! k) \<Longrightarrow> f (xs ! j) = f (xs ! k) \<Longrightarrow> j = k"
  shows "distinct (map f (filter P xs))"
  using assms
proof (induction xs)
  case Nil
  then show ?case by simp
next
  case (Cons x xs)
  have "distinct (map f (filter P xs))"
    by (rule Cons.IH) (use Cons.prems [of "Suc _" "Suc _"] in auto)
  moreover have "f x \<notin> f ` set (filter P xs)" if "P x"
  proof
    assume "f x \<in> f ` set (filter P xs)"
    then obtain k where "k < length xs" "P (xs ! k)" "f (xs ! k) = f x"
      by (auto simp: in_set_conv_nth)
    then show False using Cons.prems [of 0 "Suc k"] that by auto
  qed
  ultimately show ?case by simp
qed

text \<open>The calls of the filler, in the order of the slots.\<close>

lemma fs_readdir_entries:
  assumes C: "consistent N d" and P: "ok_fuse toks"
    and L: "alookup (absfs N d) 2 toks = Some n" and V: "absfs N d n = Some (ADir a s m)"
  shows "fs_readdir (fuse_path toks) d =
      (Inr (0, map (entry_stat d) (filter valid (dirs_at d (inode_at d n)))), d)"
    and "m = dir_map (dirs_at d (inode_at d n))" and "dir_ok (dirs_at d (inode_at d n))"
    and "S_ISDIR (mode (inode_at d n))"
proof -
  note p = live_node [OF C L]
  let ?ds = "dirs_at d (inode_at d n)"
  show D: "S_ISDIR (mode (inode_at d n))" and m: "m = dir_map ?ds"
    using V p(1) by (auto simp: view_def Let_def split: if_splits)
  show dok: "dir_ok ?ds" using p(3) D by (simp add: node_ok_def)
  have ent: "\<forall>e\<in>set ?ds. valid e \<longrightarrow> 0 \<in> set (name e) \<and> unat (inode e) \<in> N"
  proof (intro ballI impI conjI)
    fix e assume e: "e \<in> set ?ds" "valid e"
    then show "0 \<in> set (name e)" using dok by (auto simp: dir_ok_def)
    obtain k where "k < length ?ds" "?ds ! k = e" using e by (auto simp: in_set_conv_nth)
    then have "dir_map ?ds (c_string (name e)) = Some (unat (inode e))"
      using e(2) dir_map_iff [OF dok] by blast
    then show "unat (inode e) \<in> N" using child_in(1) [OF C p(1) D] by blast
  qed
  have le: "list_entries ?ds d = (Inr (map (entry_stat d) (filter valid ?ds)), d)"
    using C ent by (rule list_entries_run)
  have rd: "block_read (sint (ptrs (inode_at d n) ! 0)) d = Some (blk d (ptr (inode_at d n) 0))"
    using p(3) D by (rule dir_read)
  show "fs_readdir (fuse_path toks) d = (Inr (0, map (entry_stat d) (filter valid ?ds)), d)"
    using p fuse_path_run [OF C P] L D rd le
    by (simp add: fs_readdir_def andThen_def run_simps inode_at_def [symmetric] dirs_at_def [symmetric])
qed

lemma fs_readdir_run:
  assumes C: "consistent N d" and P: "ok_fuse toks"
    and L: "alookup (absfs N d) 2 toks = Some n" and V: "absfs N d n = Some (ADir a s m)"
  shows "\<exists>calls. fs_readdir (fuse_path toks) d = (Inr (0, calls), d) \<and> distinct (map fst calls)
    \<and> map_of calls = (\<lambda>t. map_option (\<lambda>k. ostat k (the (absfs N d k))) (m t))"
proof -
  let ?ds = "dirs_at d (inode_at d n)"
  note r = fs_readdir_entries [OF C P L V]
  have "distinct (map fst (map (entry_stat d) (filter valid ?ds)))"
    using distinct_names [of ?ds valid "\<lambda>e. c_string (name e)"] r(3)
    by (auto simp: dir_ok_def entry_stat_def comp_def)
  moreover have "map_of (map (entry_stat d) (filter valid ?ds)) =
      (\<lambda>t. map_option (\<lambda>k. ostat k (the (absfs N d k))) (m t))"
  proof
    fix t
    show "map_of (map (entry_stat d) (filter valid ?ds)) t = map_option (\<lambda>k. ostat k (the (absfs N d k))) (m t)"
      using child_in(1) [OF C live_node(1) [OF C L] r(4), of t]
      by (cases "dir_map ?ds t") (simp_all add: map_of_entries r(2))
  qed
  ultimately show ?thesis using r(1) by blast
qed

lemma fs_readdir_file:
  assumes C: "consistent N d" and P: "ok_fuse toks"
    and L: "alookup (absfs N d) 2 toks = Some n" and V: "absfs N d n = Some (AFile a c)"
  shows "fs_readdir (fuse_path toks) d = (Inr (- ENOTDIR, []), d)"
proof -
  note p = live_node [OF C L]
  have "\<not> S_ISDIR (mode (inode_at d n))" using V p(1) view_file [of d n a c] by auto
  then show ?thesis
    using p fuse_path_run [OF C P] L
    by (simp add: fs_readdir_def andThen_def run_simps inode_at_def [symmetric])
qed

lemma fs_readdir_missing:
  assumes C: "consistent N d" and P: "ok_fuse toks" and L: "alookup (absfs N d) 2 toks = None"
  shows "fs_readdir (fuse_path toks) d = (Inr (- ENOENT, []), d)"
  using fuse_path_run [OF C P] L resolve_not_found(1) [OF L, of "1 < length toks"]
  by (simp add: fs_readdir_def andThen_def ret_def)

section \<open>statfs and mounting\<close>

lemma count_used_card: "count_used m = card {i. 2 \<le> i \<and> i < MAP_BITS \<and> used m i}"
proof -
  have "count_used m = card (set (filter (\<lambda>i. bit_test m i \<noteq> 0) [2..<MAP_BITS]))"
    unfolding count_used_def by (rule distinct_card [OF distinct_filter [OF distinct_upt], symmetric])
  also have "set (filter (\<lambda>i. bit_test m i \<noteq> 0) [2..<MAP_BITS]) = {i. 2 \<le> i \<and> i < MAP_BITS \<and> used m i}"
    by (simp only: set_filter set_upt used_def) auto
  finally show ?thesis .
qed

text \<open>The free blocks of a disk whose map marks nothing past the end.\<close>

definition unused :: "disk \<Rightarrow> nat set" where
  "unused d = {i. 2 \<le> i \<and> i < unat (disk_size (decode_super (blk d 0))) \<and> \<not> used (dmap d) i}"

lemma fs_statfs_run:
  assumes mt: "mountable d" and D: "Dn = unat (disk_size (decode_super (blk d 0)))"
    and range: "2 \<le> Dn" "Dn \<le> MAP_BITS" and tail: "\<And>i. Dn \<le> i \<Longrightarrow> i < MAP_BITS \<Longrightarrow> \<not> used (dmap d) i"
  shows "\<exists>st. fs_statfs path st0 d = (Inr (0, st), d) \<and> f_bsize st = 4096 \<and> f_namemax st = 27
    \<and> unat (f_blocks st) = Dn - 2 \<and> unat (f_bfree st) = card (unused d) \<and> f_bavail st = f_bfree st"
proof -
  let ?w = "disk_size (decode_super (blk d 0))"
  let ?U = "{i. 2 \<le> i \<and> i < MAP_BITS \<and> used (dmap d) i}"
  have U: "?U = {2..<Dn} - unused d" using tail range by (auto simp: unused_def D [symmetric]) (meson linorder_not_less)
  have sub: "unused d \<subseteq> {2..<Dn}" by (auto simp: unused_def D)
  have cU: "count_used (dmap d) = Dn - 2 - card (unused d)" and le: "card (unused d) \<le> Dn - 2"
    using sub card_mono [OF _ sub] by (simp_all add: count_used_card U card_Diff_subset finite_subset [OF sub])
  have b: "unat (?w - 2) = Dn - 2" using range(1) D by (subst unat_sub) (auto simp: word_le_nat_alt)
  have u: "unat (of_nat (count_used (dmap d)) :: u32) = count_used (dmap d)"
    using cU range(2) by (simp add: unsigned_of_nat take_bit_nat_eq_self)
  have b64: "unat (ucast (?w - 2) :: 64 word) = Dn - 2"
    and u64: "unat (ucast (of_nat (count_used (dmap d)) :: u32) :: 64 word) = count_used (dmap d)"
    using b u range(2) cU by (simp_all add: unsigned_ucast_eq take_bit_nat_eq_self)
  have f: "unat (ucast (?w - 2) - ucast (of_nat (count_used (dmap d)) :: u32) :: 64 word) = card (unused d)"
    using cU le b64 u64 by (subst unat_sub) (auto simp: word_le_nat_alt)
  have r0: "block_read 0 d = Some (blk d 0)"
    using mt by (simp add: block_read_in_range [of 0, simplified] get_block_def mountable_def)
  show ?thesis
    using mt r0 b64 f by (simp add: fs_statfs_def andThen_def run_simps Let_def)
qed

lemma fs_init_run:
  assumes "mountable d"
  shows "fs_init d = (if magic (decode_super (blk d 0)) = FS_MAGIC then (Inr (), d) else (Inl (Exit 1), d))"
proof -
  have "block_read 0 d = Some (blk d 0)"
    using assms by (simp add: block_read_in_range [of 0, simplified] get_block_def mountable_def)
  then show ?thesis
    by (simp add: fs_init_def andThen_def run_simps decode_super_def Let_def)
qed

end
