(* ===== verification/ErrSpec.thy ===== *)
theory ErrSpec
  imports AttrSpec
begin

text \<open>
  The early returns of the operations: which code a request gets that names nothing, a
  directory instead of a file or a file instead of a directory, a directory that is not
  empty. None of them changes the disk.
\<close>

section \<open>Paths that name nothing\<close>

text \<open>The code of a path that names nothing, as read, write, truncate, utime and getattr report it.\<close>

definition path_error :: "afs \<Rightarrow> cstring list \<Rightarrow> int" where
  "path_error A toks = resolve A (1 < length toks) 2 toks"

lemma path_error_cases: "alookup A 2 toks = None \<Longrightarrow> path_error A toks = - ENOENT \<or> path_error A toks = - ENOTDIR"
  using resolve_error [of A 2 toks "1 < length toks"] by (simp add: path_error_def)

lemma dead_run:
  assumes "consistent N d" and "ok_path toks" and "alookup (absfs N d) 2 toks = None"
  shows "path2inum (mkpath toks) d = (Inr (path_error (absfs N d) toks), d)"
  using path2inum_mkpath [OF assms(1,2)] by (simp add: path_error_def)

lemma missing_codes:
  assumes C: "consistent N d" and P: "ok_path toks" and L: "alookup (absfs N d) 2 toks = None"
  shows "fs_read e (mkpath toks) len off d = (Inr (path_error (absfs N d) toks, []), d)"
    and "fs_write e (mkpath toks) buf off d = (Inr (path_error (absfs N d) toks), d)"
    and "fs_truncate e (mkpath toks) 0 d = (Inr (path_error (absfs N d) toks), d)"
    and "fs_utime e (mkpath toks) ut d = (Inr (path_error (absfs N d) toks), d)"
    and "fs_chmod e (mkpath toks) m d = (Inr (- ENOENT), d)"
  using dead_run [OF C P L] path_error_cases [OF L]
  by (auto simp: fs_read_def fs_write_def fs_truncate_def fs_utime_def fs_chmod_def andThen_def ret_def Let_def)

lemma readdir_missing_path:
  assumes C: "consistent N d" and P: "ok_path toks" and L: "alookup (absfs N d) 2 toks = None"
  shows "fs_readdir (mkpath toks) d = (Inr (- ENOENT, []), d)"
  using fs_readdir_missing [OF C _ L] P by (simp add: ok_fuse_def fuse_path_def ok_path_def)

lemma getattr_missing_name:
  assumes C: "consistent N d" and P: "ok_path toks" and short: "length (last toks) \<le> 27"
    and p: "alookup (absfs N d) 2 (butlast toks) = Some p" and D: "is_adir (absfs N d p)"
    and L: "alookup (absfs N d) 2 toks = None"
  shows "fs_getattr (mkpath toks) sb d = (Inr (if 1 < length toks then - ENOTDIR else - ENOENT, sb), d)"
proof -
  have ne: "toks \<noteq> []" and fp: "fuse_path toks = mkpath toks" "ok_fuse toks"
    using P by (auto simp: fuse_path_def ok_fuse_def ok_path_def)
  have "children (absfs N d p) (last toks) = None"
    using alookup_butlast [OF ne, of "absfs N d" 2] p L by simp
  then show ?thesis
    using fs_getattr_run [OF C fp(2), of sb] L resolve_missing [OF ne p D] short by (simp add: fp(1))
qed

section \<open>The wrong kind of object\<close>

lemma adir_node:
  assumes "absfs N d n = Some (ADir a s m)" and "n \<in> N"
  shows "S_ISDIR (mode (inode_at d n))"
  using assms by (auto simp: view_def Let_def split: if_splits)

lemma dir_codes:
  assumes C: "consistent N d" and P: "ok_path toks"
    and L: "alookup (absfs N d) 2 toks = Some n" and V: "absfs N d n = Some (ADir a s m)"
  shows "fs_read e (mkpath toks) len off d = (Inr (- EISDIR, []), d)"
    and "fs_write e (mkpath toks) buf off d = (Inr (- EISDIR), d)"
    and "fs_truncate e (mkpath toks) 0 d = (Inr (- EISDIR), d)"
    and "fs_utime e (mkpath toks) ut d = (Inr (- EISDIR), d)"
proof -
  note p = path_live [OF C P L]
  have D: "S_ISDIR (mode (inode_at d n))" using V p(2) by (rule adir_node)
  show "fs_read e (mkpath toks) len off d = (Inr (- EISDIR, []), d)"
    using p D by (simp add: fs_read_def andThen_def run_simps inode_at_def [symmetric])
  show "fs_write e (mkpath toks) buf off d = (Inr (- EISDIR), d)"
    using p D by (simp add: fs_write_def andThen_def run_simps inode_at_def [symmetric] Let_def)
  show "fs_truncate e (mkpath toks) 0 d = (Inr (- EISDIR), d)"
    using p D by (simp add: fs_truncate_def andThen_def run_simps inode_at_def [symmetric])
  show "fs_utime e (mkpath toks) ut d = (Inr (- EISDIR), d)"
    using p D by (simp add: fs_utime_def andThen_def run_simps inode_at_def [symmetric] Let_def)
qed

lemma fs_unlink_dir:
  assumes C: "consistent N d" and P: "ok_path toks"
    and L: "alookup (absfs N d) 2 toks = Some n" and V: "absfs N d n = Some (ADir a s m)"
  shows "fs_unlink e (mkpath toks) d = (Inr (- EISDIR), d)"
proof -
  obtain p where p: "alookup (absfs N d) 2 (butlast toks) = Some p" "del_error (absfs N d) toks = None" "n \<in> N"
    by (rule old_parent [OF C P L])
  then show ?thesis
    using prepare_del_run [OF C P, of e] L adir_node [OF V]
    by (simp add: fs_unlink_def andThen_def ret_def Let_def)
qed

lemma fs_rmdir_file:
  assumes C: "consistent N d" and P: "ok_path toks"
    and L: "alookup (absfs N d) 2 toks = Some n" and V: "absfs N d n = Some (AFile a c)"
  shows "fs_rmdir e (mkpath toks) d = (Inr (- ENOTDIR), d)"
proof -
  obtain p where p: "alookup (absfs N d) 2 (butlast toks) = Some p" "del_error (absfs N d) toks = None" "n \<in> N"
    by (rule old_parent [OF C P L])
  have "\<not> S_ISDIR (mode (inode_at d n))" using V p(3) view_file [of d n a c] by auto
  with p show ?thesis
    using prepare_del_run [OF C P, of e] L by (simp add: fs_rmdir_def andThen_def ret_def Let_def)
qed

lemma fs_rmdir_full:
  assumes C: "consistent N d" and P: "ok_path toks"
    and L: "alookup (absfs N d) 2 toks = Some n" and V: "absfs N d n = Some (ADir a s m)" and ne: "m \<noteq> Map.empty"
  shows "fs_rmdir e (mkpath toks) d = (Inr (- ENOTEMPTY), d)"
proof -
  obtain p where p: "alookup (absfs N d) 2 (butlast toks) = Some p" "del_error (absfs N d) toks = None" "n \<in> N"
    by (rule old_parent [OF C P L])
  have D: "S_ISDIR (mode (inode_at d n))" using V p(3) by (rule adir_node)
  have "m = dir_map (dirs_at d (inode_at d n))" using V p(3) D by (simp add: view_def Let_def)
  then have sc: "scan valid (decode_dirs (blk d (ptr (inode_at d n) 0))) < 128"
    using empty_dir_iff [OF C p(3) D] ne by (simp add: dirs_at_def)
  have nok: "node_ok d n" using C p(3) by (rule consistentD(2))
  have "block_read (sint (ptrs (inode_at d n) ! 0)) d = Some (blk d (ptr (inode_at d n) 0))"
    using nok D by (rule dir_read)
  then show ?thesis
    using prepare_del_run [OF C P, of e] L p D sc
    by (simp add: fs_rmdir_def andThen_def run_simps Let_def)
qed

lemma del_codes:
  assumes C: "consistent N d" and P: "ok_path toks" and E: "del_error (absfs N d) toks = Some code"
  shows "fs_unlink e (mkpath toks) d = (Inr code, d)" and "fs_rmdir e (mkpath toks) d = (Inr code, d)"
  using prepare_del_run [OF C P, of e] E
  by (simp_all add: fs_unlink_def fs_rmdir_def andThen_def ret_def)

lemma new_codes:
  assumes C: "consistent N d" and P: "ok_path toks" and E: "new_error (absfs N d) toks = Some code"
  shows "fs_create e (mkpath toks) m d = (Inr code, d)" and "fs_mkdir e (mkpath toks) m d = (Inr code, d)"
  using prepare_new_run [OF C P, of e] E
  by (simp_all add: fs_create_def fs_mkdir_def andThen_def ret_def)

section \<open>Lengths and offsets\<close>

lemma fs_truncate_len: "len \<noteq> 0 \<Longrightarrow> fs_truncate e path len d = (Inr (- EINVAL), d)"
  by (simp add: fs_truncate_def ret_def)

lemma write_range:
  assumes C: "consistent N d" and P: "ok_path toks"
    and L: "alookup (absfs N d) 2 toks = Some n" and V: "absfs N d n = Some (AFile a c)"
  shows "length c < off \<Longrightarrow> fs_write e (mkpath toks) buf off d = (Inr 0, d)"
    and "off \<le> length c \<Longrightarrow> 4096 * 1019 < off + length buf \<Longrightarrow>
      fs_write e (mkpath toks) buf off d = (Inr (- ENOSPC), d)"
proof -
  note p = path_live [OF C P L]
  have f: "\<not> S_ISDIR (mode (inode_at d n))" and c: "c = content d (inode_at d n)"
    using V p(2) view_file [of d n a c] by auto
  have "readable d (inode_at d n)" using p(5) f by (rule node_readable)
  then have sz: "sint (size_i (inode_at d n)) = int (length c)"
    by (simp add: c content_def readable_def fsize_int)
  show "length c < off \<Longrightarrow> fs_write e (mkpath toks) buf off d = (Inr 0, d)"
    using p f sz by (simp add: fs_write_def andThen_def run_simps inode_at_def [symmetric] Let_def)
  show "off \<le> length c \<Longrightarrow> 4096 * 1019 < off + length buf \<Longrightarrow>
      fs_write e (mkpath toks) buf off d = (Inr (- ENOSPC), d)"
    using p f sz by (simp add: fs_write_def andThen_def run_simps inode_at_def [symmetric] Let_def)
qed

end
