(* ===== verification/FullSpec.thy ===== *)
theory FullSpec
  imports ErrSpec
begin

text \<open>
  What happens when blocks or directory slots run out. No operation stops at a failed
  allocation: the error number is used as a block number, and the assertion in
  \<open>block_write\<close> ends the process. A full directory is noticed only after the new object
  has been allocated, so its blocks are lost. In all cases the disk that is left is
  consistent.
\<close>

section \<open>Lost blocks\<close>

text \<open>A disk that differs only on free blocks and in fewer free blocks.\<close>

lemma same_objects:
  assumes C: "consistent N d" and m1: "mountable d1" and le: "nblks d \<le> nblks d1"
    and frame: "\<And>b. 2 \<le> b \<Longrightarrow> b < nblks d \<Longrightarrow> b \<notin> free_set d \<Longrightarrow> blk d1 b = blk d b"
    and fs: "free_set d1 \<subseteq> free_set d"
  shows "consistent N d1" and "absfs N d1 = absfs N d"
proof -
  have same: "blk d1 b = blk d b" if "m \<in> N" "b \<in> own d m" for m b
    using own_block_ok [OF C that] by (intro frame) (auto simp: block_ok_def)
  show abs: "absfs N d1 = absfs N d"
    using same view_frame(4) [of d _ d1] by (auto simp: absfs_def fun_eq_iff)
  show "consistent N d1"
  proof (rule consistent_step [where X = "{}", OF C m1 le])
    show "own d m \<inter> free_set d1 = {}" if "m \<in> N - {}" for m
      using own_not_free [OF C, of m] fs that by blast
  qed (use same consistentD(3) [OF C] abs in auto)
qed

lemma leaked:
  assumes C: "consistent N d" and m1: "mountable d1" and le: "nblks d \<le> nblks d1"
    and frame: "\<And>b. b \<noteq> 1 \<Longrightarrow> b < nblks d \<Longrightarrow> b \<notin> free_set d \<Longrightarrow> blk d1 b = blk d b"
    and fs: "free_set d1 \<subseteq> free_set d"
  shows "consistent N d1" and "absfs N d1 = absfs N d" and "kept N d d1"
proof -
  show "consistent N d1" and "absfs N d1 = absfs N d"
    by (rule same_objects [OF C m1 le _ fs]; simp add: frame)+
  show "kept N d d1"
  proof (rule keptI)
    show "blk d1 0 = blk d 0" using super_block [OF C] by (intro frame) auto
    show "blk d1 b = blk d b" if "m \<in> N" "b \<in> own d m" for m b
      using own_block_ok [OF C that] by (intro frame) (auto simp: block_ok_def)
  qed
qed

lemma alloc_error_write: "block_write b (- ENOSPC) d = (Inl Abort, d)"
  by (simp add: block_write_nonpos)

section \<open>create and mkdir\<close>

lemma fs_create_full:
  assumes C: "consistent N d" and P: "ok_path toks"
    and ok: "new_error (absfs N d) toks = None" and full: "free_set d = {}"
  shows "fs_create e (mkpath toks) m d = (Inl Abort, d)"
proof -
  have "alloc_blk e d = (Inr (- ENOSPC), d)"
    using consistentD(1) [OF C] full by (rule alloc_blk_full)
  then show ?thesis
    using prepare_new_run [OF C P, of e] ok
    by (simp add: fs_create_def andThen_def ret_def Let_def block_write_nonpos)
qed

lemma add_dirent_full:
  assumes C: "consistent N d" and p: "p \<in> N" and D: "S_ISDIR (mode (inode_at d p))"
    and le: "nblks d \<le> nblks d1" and same: "\<And>b. b \<in> own d p \<Longrightarrow> blk d1 b = blk d b"
    and slot: "\<not> free_slot d p"
  shows "add_dirent e (int p) (inode_at d p) t x d1 = (Inr (- EINVAL), d1)"
proof -
  let ?i = "inode_at d p"
  have ok: "node_ok d p" using C p by (rule consistentD(2))
  note q = dir_ptr [OF ok D]
  have pq: "0 < ptr ?i 0" "ptr ?i 0 < 2 ^ 19 - 1" "ptr ?i 0 < nblks d1"
    using q(1) le by (auto simp: block_ok_def)
  have "blk d1 (ptr ?i 0) = blk d (ptr ?i 0)" using D by (intro same dir_ptr_own)
  then have rd: "block_read (int (ptr ?i 0)) d1 = Some (blk d (ptr ?i 0))"
    using pq by (simp add: block_read_in_range get_block_def)
  have "\<not> scan (\<lambda>e. \<not> valid e) (dirs_at d ?i) < length (dirs_at d ?i)"
    using slot by (simp add: free_slot_def scan_less_iff list_ex_iff)
  moreover have "length (dirs_at d ?i) = 128" using ok D dir_okD(1) by (simp add: node_ok_def)
  ultimately have sc: "128 \<le> scan (\<lambda>e. \<not> valid e) (dirs_at d ?i)" by simp
  show ?thesis
    using sc by (simp add: add_dirent_def andThen_def run_simps q(2) rd dirs_at_def [symmetric] Let_def)
qed

text \<open>The object has been made on \<open>d1\<close>, but there is no slot: its blocks are lost.\<close>

lemma object_lost:
  assumes C: "consistent N d" and P: "ok_path toks"
    and ok: "new_error (absfs N d) toks = None" and L: "alookup (absfs N d) 2 (butlast toks) = Some p"
    and slot: "\<not> free_slot d p" and m1: "mountable d1" and le: "nblks d \<le> nblks d1"
    and frame: "\<And>b. b \<noteq> 1 \<Longrightarrow> b < nblks d \<Longrightarrow> b \<notin> free_set d \<Longrightarrow> blk d1 b = blk d b"
    and fs: "free_set d1 = free_set d - F"
  shows "add_dirent e (int p) (inode_at d p) (last toks) x d1 = (Inr (- EINVAL), d1)"
    and "consistent N d1" and "absfs N d1 = absfs N d" and "kept N d d1"
proof -
  note p = new_parent_is [OF C P ok L]
  have same: "blk d1 b = blk d b" if "b \<in> own d p" for b
    using own_block_ok [OF C p(1) that] by (intro frame) (auto simp: block_ok_def)
  show "add_dirent e (int p) (inode_at d p) (last toks) x d1 = (Inr (- EINVAL), d1)"
    by (rule add_dirent_full [OF C p(1,2) le same slot])
  show "consistent N d1" and "absfs N d1 = absfs N d" and "kept N d d1"
    using leaked [OF C m1 le frame] fs by auto
qed

lemma fs_create_no_slot:
  assumes C: "consistent N d" and P: "ok_path toks"
    and ok: "new_error (absfs N d) toks = None" and L: "alookup (absfs N d) 2 (butlast toks) = Some p"
    and room: "free_set d \<noteq> {}" and slot: "\<not> free_slot d p"
  shows "\<exists>d'. fs_create e (mkpath toks) m d = (Inr (- EINVAL), d') \<and> consistent N d'
    \<and> absfs N d' = absfs N d \<and> free_set d' = free_set d - {Min (free_set d)} \<and> kept N d d'"
proof -
  obtain d1 x where x: "x = Min (free_set d)"
    and run: "fs_create e (mkpath toks) m d = add_dirent e (int p) (inode_at d p) (last toks) (int x) d1"
    and m1: "mountable d1" and le: "nblks d \<le> nblks d1"
    and frame: "\<And>b. b \<noteq> 1 \<Longrightarrow> b < nblks d \<Longrightarrow> b \<notin> free_set d \<Longrightarrow> blk d1 b = blk d b"
    and fs: "free_set d1 = free_set d - {x}"
    by (rule create_object [OF C P ok L room, of e m]) blast
  from object_lost [OF C P ok L slot m1 le frame fs] show ?thesis
    using run fs x by auto
qed

lemma fs_mkdir_no_slot:
  assumes C: "consistent N d" and P: "ok_path toks"
    and ok: "new_error (absfs N d) toks = None" and L: "alookup (absfs N d) 2 (butlast toks) = Some p"
    and room: "2 \<le> card (free_set d)" and slot: "\<not> free_slot d p"
  shows "\<exists>d'. fs_mkdir e (mkpath toks) m d = (Inr (- EINVAL), d') \<and> consistent N d'
    \<and> absfs N d' = absfs N d \<and> card (free_set d') = card (free_set d) - 2 \<and> kept N d d'"
proof -
  obtain d1 x y where xy: "x = Min (free_set d)" "y = Min (free_set d - {x})" "{x, y} \<subseteq> free_set d"
    and run: "fs_mkdir e (mkpath toks) m d = add_dirent e (int p) (inode_at d p) (last toks) (int x) d1"
    and m1: "mountable d1" and le: "nblks d \<le> nblks d1"
    and frame: "\<And>b. b \<noteq> 1 \<Longrightarrow> b < nblks d \<Longrightarrow> b \<notin> free_set d \<Longrightarrow> blk d1 b = blk d b"
    and fs: "free_set d1 = free_set d - {x, y}"
    by (rule mkdir_object [OF C P ok L room, of e m]) (rule that; assumption)
  have "card (free_set d - {x}) = card (free_set d) - 1" using xy(3) by (simp add: card_Diff_singleton)
  then have "card (free_set d - {x}) \<noteq> 0" using room by simp
  then have "free_set d - {x} \<noteq> {}" by auto
  then have "y \<in> free_set d - {x}" unfolding xy(2) by (intro Min_in) auto
  then have "card {x, y} = 2" by auto
  then have "card (free_set d1) = card (free_set d) - 2"
    using xy(3) by (simp add: fs card_Diff_subset)
  with object_lost [OF C P ok L slot m1 le frame fs] run show ?thesis by auto
qed

text \<open>mkdir needs two blocks; with one, that one is lost.\<close>

lemma fs_mkdir_full:
  assumes C: "consistent N d" and P: "ok_path toks"
    and ok: "new_error (absfs N d) toks = None" and full: "card (free_set d) < 2"
  shows "\<exists>d'. fs_mkdir e (mkpath toks) m d = (Inl Abort, d') \<and> consistent N d'
    \<and> absfs N d' = absfs N d \<and> free_set d' = {} \<and> kept N d d' \<and> through (spares d) d d'"
proof (cases "free_set d = {}")
  case True
  have "alloc_blk e d = (Inr (- ENOSPC), d)"
    using consistentD(1) [OF C] True by (rule alloc_blk_full)
  moreover have "ptrs (new_inode e m (push_bit 14 1) 4096) \<noteq> []"
    using new_inode_ok [of e m "push_bit 14 1" 4096] by (auto simp: ok_inode_def)
  ultimately have "fs_mkdir e (mkpath toks) m d = (Inl Abort, d)"
    using prepare_new_run [OF C P, of e] ok
    by (simp add: fs_mkdir_def andThen_def ret_def Let_def block_write_nonpos)
  with C True show ?thesis
    using kept_refl stays [of "spares d", OF spares_refl [OF consistentD(1) [OF C]]] by blast
next
  case False
  have mt: "mountable d" using C by (rule consistentD(1))
  obtain x where x: "x \<in> free_set d"
    and al: "alloc_blk e d = (Inr (int x), put_block 1 (bit_set (dmap d) x) d)"
    and fs0: "free_set (put_block 1 (bit_set (dmap d) x) d) = free_set d - {x}"
    by (rule alloc_blk_Some [OF mt False])
  define d1 where "d1 = put_block 1 (bit_set (dmap d) x) d"
  have m1: "mountable d1" and le: "nblks d \<le> nblks d1" using mt by (auto simp: d1_def)
  have "card (free_set d) = 1" using full False card_gt_0_iff [of "free_set d"] by auto
  then have "free_set d = {x}" using x by (auto simp: card_1_singleton_iff)
  then have fs1: "free_set d1 = {}" using fs0 by (simp add: d1_def)
  have "alloc_blk e d1 = (Inr (- ENOSPC), d1)" using m1 fs1 by (rule alloc_blk_full)
  moreover have "ptrs (new_inode e m (push_bit 14 1) 4096) \<noteq> []"
    using new_inode_ok [of e m "push_bit 14 1" 4096] by (auto simp: ok_inode_def)
  ultimately have "fs_mkdir e (mkpath toks) m d = (Inl Abort, d1)"
    using prepare_new_run [OF C P, of e] ok al [folded d1_def]
    by (simp add: fs_mkdir_def andThen_def ret_def Let_def block_write_nonpos)
  moreover have fr: "blk d1 b = blk d b" if "b \<noteq> 1" "b < nblks d" for b
    using that by (simp add: d1_def blk_put_other)
  then have "consistent N d1" "absfs N d1 = absfs N d" "kept N d d1"
    using leaked [OF C m1 le fr] fs1 by auto
  moreover have "through (spares d) d d1"
    unfolding d1_def using mt by (intro through_one spares_take spares_refl)
  ultimately show ?thesis using fs1 by blast
qed

section \<open>The size of the disk\<close>

text \<open>
  The allocator never looks at \<open>disk_size\<close>: with every block of the disk in use, create
  takes a block behind the end, and the image grows.
\<close>

lemma create_past_end:
  assumes C: "consistent N d" and P: "ok_path toks"
    and ok: "new_error (absfs N d) toks = None" and L: "alookup (absfs N d) 2 (butlast toks) = Some p"
    and slot: "free_slot d p" and room: "free_set d \<noteq> {}"
    and full: "\<forall>i\<in>free_set d. unat (disk_size (decode_super (blk d 0))) \<le> i"
  shows "\<exists>d' x. fs_create e (mkpath toks) m d = (Inr 0, d') \<and> x = Min (free_set d)
    \<and> unat (disk_size (decode_super (blk d 0))) \<le> x \<and> x < nblks d'"
proof -
  obtain d' x where x: "x = Min (free_set d)" and run: "fs_create e (mkpath toks) m d = (Inr 0, d')"
    and C': "consistent (insert x N) d'"
    using fs_create_ok [OF C P ok L room slot, of e m] by blast
  have "x \<in> free_set d" unfolding x using room by (intro Min_in) auto
  then have "unat (disk_size (decode_super (blk d 0))) \<le> x" using full by blast
  moreover have "x < nblks d'" using own_inside [OF C', of x x] by simp
  ultimately show ?thesis using run x by blast
qed

section \<open>write\<close>

lemma block_read_negative: "- 1000 < l \<Longrightarrow> l < 0 \<Longrightarrow> block_read l d = None"
  by (simp add: block_read_def byte_start_def Let_def)

text \<open>
  The round in which the allocator has nothing left: the error number becomes a pointer, the
  read with it fails, the write with it is the failed assertion.
\<close>

lemma write_loop_abort:
  assumes "nread < len" and "nread + off < ns" and bn: "bn < 1019" and "bo < 4096"
    and nb: "beyond_mapped i bn" and lp: "length (ptrs i) = 1019"
    and al: "alloc_blk e d = (Inr (- ENOSPC), d)"
  shows "write_loop e buf len off ns i nread bn bo buffer d = (Inl Abort, d)"
proof -
  define i1 where "i1 = i\<lparr>ptrs := (ptrs i)[bn := word_of_int (- ENOSPC)]\<rparr>"
  have p: "ptrs i1 ! bn = word_of_int (- ENOSPC)" using lp bn by (simp add: i1_def)
  have s: "sint (ptrs i1 ! bn) = - ENOSPC" and nz: "ptrs i1 ! bn \<noteq> 0" unfolding p by simp_all
  have nb1: "beyond_mapped i1 bn" using nb by (simp add: beyond_mapped_def i1_def)
  have rd: "load buffer (- ENOSPC) d = (Inr buffer, d)" for buffer
    by (simp add: load_def block_read_negative)
  have g: "nread < len \<and> nread + off < ns" "\<not> (1019 \<le> bn \<or> 4096 \<le> bo)" using assms by auto
  show ?thesis
    using g nb nb1 nz al
    by (subst write_loop.simps)
       (simp only: simp_thms if_True if_False Let_def i1_def [symmetric] andThen_def ret_def prod.case
          sum.case s rd alloc_error_write)
qed

lemma write_loop_full:
  assumes sz: "0 \<le> sint sz" "nat (sint sz) \<le> 4096 * 1019" and K: "K = (nat (sint sz) + 4095) div 4096"
    and ns: "off + length buf \<le> 4096 * 1019" and W: "W = (off + length buf + 4095) div 4096"
  shows "mapped d i M \<Longrightarrow> size_i i = sz \<Longrightarrow> length buffer = 4096 \<Longrightarrow>
     loop_at K off (length buf) M nread bn bo \<Longrightarrow> M + card (free_set d) < W \<Longrightarrow>
     \<exists>d' i' M' hi. write_loop e buf (length buf) off (off + length buf) i nread bn bo buffer d = (Inl Abort, d')
       \<and> mapped d' i' M' \<and> wrote d i M d' i' M' (nread + off) hi (\<lambda>x. buf ! (x - off))
       \<and> free_set d' = {} \<and> 4096 * K \<le> hi \<and> nread + off \<le> hi \<and> hi \<le> off + length buf"
proof (induction "length buf - nread" arbitrary: d i M nread bn bo buffer rule: less_induct)
  case less
  note m = less.prems(1) and at = less.prems(4)
  let ?ns = "off + length buf" and ?src = "\<lambda>x. buf ! (x - off)"
  have True: "nread < length buf"
  proof (rule ccontr)
    assume "\<not> nread < length buf"
    then have "?ns \<le> 4096 * M" using at by (auto simp: loop_at_def)
    then have "W \<le> M" by (auto simp: W)
    then show False using less.prems(5) by simp
  qed
  define r where "r = min (4096 - bo) (length buf - nread)"
  note R = loop_at_round [OF at True ns r_def] and nx = loop_at_next [OF at True ns r_def]
  have fin: "length buf - (nread + r) < length buf - nread" using R(4,6) True by linarith
  have sz': "0 \<le> sint (size_i i)" "nat (sint (size_i i)) \<le> 4096 * 1019"
    "K = (nat (sint (size_i i)) + 4095) div 4096"
    using sz K less.prems(2) by auto
  show ?case
  proof (cases "\<not> bn < K \<and> free_set d = {}")
    case True
    then have bM: "bn = M" "bo = 0" using R(9,10) by auto
    have al: "alloc_blk e d = (Inr (- ENOSPC), d)"
      using m True by (intro alloc_blk_full) (auto simp: mapped_def)
    have "write_loop e buf (length buf) off ?ns i nread bn bo buffer d = (Inl Abort, d)"
      using \<open>nread < length buf\<close> m True beyond_size [OF sz', of bn]
      by (intro write_loop_abort [OF _ _ R(3,2) _ _ al]) (auto simp: mapped_def)
    moreover have "wrote d i M d i M (nread + off) (nread + off) ?src"
      using R(1) bM by (intro wrote_nothing) auto
    moreover have "4096 * K \<le> nread + off" using R(1,11) bM by simp
    ultimately show ?thesis
      using m True \<open>nread < length buf\<close> by (metis add.commute add_le_cancel_left less_imp_le order_refl)
  next
    case False
    obtain b d1 i1 M1 where step: "write_loop e buf (length buf) off ?ns i nread bn bo buffer d =
        write_loop e buf (length buf) off ?ns i1 (nread + r) (bn + 1) 0 b d1"
      and b: "length b = 4096" and m1: "mapped d1 i1 M1" and M1: "M1 = max M (bn + 1)"
      and w1: "wrote d i M d1 i1 M1 (nread + off) (nread + off + r) ?src"
      and room: "M1 + card (free_set d1) < W"
    proof (cases "bn < K")
      case old: True
      obtain b d1 where *: "write_loop e buf (length buf) off ?ns i nread bn bo buffer d =
          write_loop e buf (length buf) off ?ns i (nread + r) (bn + 1) 0 b d1"
        "length b = 4096" "mapped d1 i M" "wrote d i M d1 i M (nread + off) (nread + off + r) ?src"
        by (rule round_old [OF sz' ns m at True old r_def])
      have "M = max M (bn + 1)" using R(8) old by simp
      moreover have "free_set d1 = free_set d" using wroteD(9) [OF *(4)] by simp
      ultimately show thesis using that [OF *(1-3) _ *(4)] less.prems(5) by simp
    next
      case new: False
      have "bn = M" using R(9) new .
      from False new have "free_set d \<noteq> {}" by simp
      then obtain b d2 i1 where *: "write_loop e buf (length buf) off ?ns i nread bn bo buffer d =
          write_loop e buf (length buf) off ?ns i1 (nread + r) (bn + 1) 0 b d2"
        "length b = 4096" "mapped d2 i1 (M + 1)"
        "wrote d i M d2 i1 (M + 1) (nread + off) (nread + off + r) ?src"
        "card (free_set d) = Suc (card (free_set d2))"
        by (rule round_new [OF sz' ns m at True new r_def less.prems(3)])
      then show thesis using that [OF *(1-3) _ *(4)] less.prems(5) \<open>bn = M\<close> by simp
    qed
    have si1: "size_i i1 = sz"
      using wroteD(3) [OF w1] less.prems(2) by (metis fs_inode.select_convs(6) fs_inode.surjective fs_inode.update_convs(7))
    from less.hyps [OF fin m1 si1 b nx [folded M1] room] obtain d' i' M' hi where
      run: "write_loop e buf (length buf) off ?ns i1 (nread + r) (bn + 1) 0 b d1 = (Inl Abort, d')"
      and m': "mapped d' i' M'" and w: "wrote d1 i1 M1 d' i' M' (nread + off + r) hi ?src"
      and hi: "free_set d' = {}" "4096 * K \<le> hi" "nread + off + r \<le> hi" "hi \<le> ?ns"
      by (auto simp: ac_simps)
    have "wrote d i M d' i' M' (nread + off) hi ?src"
      using hi(3) by (intro wrote_trans [OF w1 w]) auto
    moreover have "nread + off \<le> hi" using hi(3) by simp
    ultimately show ?thesis unfolding step using run m' hi by blast
  qed
qed

text \<open>
  The loop of a write has got to byte \<open>hi\<close> of the file, whose inode is still the old one: the
  file keeps its length and attributes, and its bytes before \<open>hi\<close> are overwritten.
\<close>

lemma part_written:
  assumes C: "consistent N d" and n: "n \<in> N" and V: "absfs N d n = Some (AFile a c)"
    and off: "off \<le> length c"
    and m: "mapped d' i' M'"
    and w: "wrote d (inode_at d n) (nblocks (inode_at d n)) d' i' M' off hi (\<lambda>x. buf ! (x - off))"
    and hi: "off \<le> hi" "hi \<le> off + length buf"
  shows "consistent N d'" and "kept N d d'"
    and "absfs N d' = (absfs N d)(n \<mapsto> AFile a (take (length c) (splice off (take (hi - off) buf) c)))"
proof -
  define i where "i = inode_at d n"
  let ?b = "take (hi - off) buf"
  have f: "\<not> S_ISDIR (mode i)" and a: "a = attrs_of i" and c: "c = content d i"
    using V n view_file [of d n a c] by (auto simp: i_def)
  have nok: "node_ok d n" using C n by (rule consistentD(2))
  have R: "readable d i" unfolding i_def using nok f [unfolded i_def] by (rule node_readable)
  have sz: "0 \<le> sint (size_i i)" "sint (size_i i) = int (fsize i)" "fsize i \<le> 4096 * 1019" "fsize i = length c"
    using R by (simp_all add: readable_def fsize_int c content_def)
  have mp: "mapped d i (nblocks i)" unfolding i_def by (rule file_mapped [OF C n f [unfolded i_def]])
  note W = wroteD [OF w [folded i_def]]
  have data: "own d n - {n} = ptr i ` {..<nblocks i}"
    using nok f by (auto simp: own_def data_blocks_def node_ok_def i_def)
  have n': "n < nblks d'" using own_inside [OF C n, of n] W(7) by simp
  have "n \<notin> ptr i ` {..<nblocks i}" using data by blast
  moreover have "n \<notin> free_set d" and "n \<noteq> 1"
    using free_not_live [OF C] n live_positive [OF C n] by auto
  ultimately have "blk d' n = blk d n"
    using own_inside [OF C n, of n] by (intro W(10)) auto
  then have put_same: "d'\<lparr>history := history d' @ [(n, blk d' n)]\<rparr> = put_block n (encode_inode i) d'"
    using put_block_same [OF n'] mountable_length [OF consistentD(1) [OF C], of n]
    by (simp add: i_def inode_at_def inode_codec.enc_dec)
  have ok: "block_ok d' (ptr i k)" if "k < nblocks i" for k
    using m that W(1) W(4) [OF that, symmetric] by (simp add: mapped_def)
  have inj: "inj_on (ptr i) {..<nblocks i}" using mp by (simp add: mapped_def)
  have mt: "mountable d'" and oki: "ok_inode i" using m by (simp_all add: mapped_def i_def inode_at_def)
  have mine: "ptr i k \<in> own d n - {n} \<or> ptr i k \<in> free_set d" if "k < nblocks i" for k
    using that by (simp add: data)
  have fr: "blk d' b = blk d b" if "b \<noteq> 1" "b < nblks d" "b \<notin> free_set d" "b \<notin> own d n - {n}" for b
    using that W(10) by (simp add: data)
  have sub: "free_set d' \<subseteq> free_set d \<union> (own d n - {n})" using W(9) by auto
  note rep = file_replaced [OF C n f [unfolded i_def] mt W(7) oki f sz(1) sz(3) ok inj mine sub fr put_same, unfolded same_image]
  have "content d' i = take (length c) (splice off ?b c)"
  proof (rule nth_equalityI)
    show "length (content d' i) = length (take (length c) (splice off ?b c))"
      using off by (simp add: length_splice) (simp add: content_def sz)
  next
    fix x assume "x < length (content d' i)"
    then have x: "x < length c" by (simp add: content_def sz)
    then have xM: "x < 4096 * nblocks i" by (auto simp: nblocks_def sz)
    then have "ptr i' (x div 4096) = ptr i (x div 4096)" by (intro W(4)) auto
    then have "content d' i ! x = fbyte d' i' x" using x by (simp add: content_def sz fbyte_def)
    also have "\<dots> = (if off \<le> x \<and> x < hi then buf ! (x - off) else c ! x)"
      using W(5) [of x] W(6) [OF xM] x by (auto simp: c content_def)
    also have "\<dots> = splice off ?b c ! x"
      using nth_splice [OF off, of x ?b] x hi by auto
    finally show "content d' i ! x = take (length c) (splice off ?b c) ! x" using x by simp
  qed
  with rep a show "consistent N d'" "kept N d d'"
    "absfs N d' = (absfs N d)(n \<mapsto> AFile a (take (length c) (splice off ?b c)))" by simp_all
qed

text \<open>
  A write that needs more blocks than are free kills the process. What was allocated is lost;
  the file keeps its length and attributes, and its old bytes are overwritten.
\<close>

lemma fs_write_full:
  assumes C: "consistent N d" and P: "ok_path toks" and e: "wf_env e"
    and L: "alookup (absfs N d) 2 toks = Some n" and V: "absfs N d n = Some (AFile a c)"
    and off: "off \<le> length c" and top: "off + length buf \<le> 4096 * 1019"
    and room: "\<not> room_for d (length c) (off + length buf)"
  shows "\<exists>d'. fs_write e (mkpath toks) buf off d = (Inl Abort, d') \<and> consistent N d' \<and> free_set d' = {}
    \<and> absfs N d' = (absfs N d)(n \<mapsto> AFile a (take (length c) (splice off buf c))) \<and> kept N d d'"
proof -
  note p = path_live [OF C P L]
  define i where "i = inode_at d n"
  have f: "\<not> S_ISDIR (mode i)" and c: "c = content d i"
    using V p(2) view_file [of d n a c] by (auto simp: i_def)
  have R: "readable d i" unfolding i_def using p(5) f [unfolded i_def] by (rule node_readable)
  have sz: "0 \<le> sint (size_i i)" "sint (size_i i) = int (fsize i)" "fsize i \<le> 4096 * 1019" "fsize i = length c"
    using R by (simp_all add: readable_def fsize_int c content_def)
  have K: "nblocks i = (nat (sint (size_i i)) + 4095) div 4096" by (simp add: nblocks_def fsize_def)
  have mp: "mapped d i (nblocks i)" unfolding i_def by (rule file_mapped [OF C p(2) f [unfolded i_def]])
  have lb: "length (stack e ''buffer'') = 4096" using e by (simp add: wf_env_def)
  have s32: "nat (sint (size_i i)) \<le> 4096 * 1019" using sz by simp
  have at: "loop_at (nblocks i) off (length buf) (nblocks i) 0 (off div 4096) (off mod 4096)"
    unfolding K using file_loop_start [of off i "length buf"] off by (simp add: sz K)
  have few: "nblocks i + card (free_set d) < (off + length buf + 4095) div 4096"
    using room by (simp add: room_for_def blocks_for_def nblocks_def sz)
  obtain d' i' M' hi where run: "write_loop e buf (length buf) off (off + length buf) i 0 (off div 4096) (off mod 4096)
       (stack e ''buffer'') d = (Inl Abort, d')"
    and m: "mapped d' i' M'" and w: "wrote d i (nblocks i) d' i' M' (0 + off) hi (\<lambda>x. buf ! (x - off))"
    and hi: "free_set d' = {}" "4096 * nblocks i \<le> hi" "0 + off \<le> hi" "hi \<le> off + length buf"
    using write_loop_full [OF sz(1) s32 K top refl mp refl lb at few] by blast
  note part = part_written [OF C p(2) V off m w [unfolded i_def add_0] hi(3,4) [unfolded add_0]]
  have "length c \<le> hi" using hi(2) by (auto simp: nblocks_def sz)
  then have "take (length c) (splice off (take (hi - off) buf) c) = take (length c) (splice off buf c)"
    using off by (simp add: splice_def min_def)
  moreover have "fs_write e (mkpath toks) buf off d = (Inl Abort, d')"
  proof -
    have "\<not> sint (size_i i) < int off" using off by (simp add: sz)
    then show ?thesis
      using p f [unfolded i_def] top run [unfolded i_def]
      by (simp add: fs_write_def andThen_def run_simps Let_def inode_at_def [symmetric] i_def)
  qed
  ultimately show ?thesis using part hi(1) by auto
qed

end
