(* ===== verification/Safety.thy ===== *)
theory Safety
  imports FullSpec
begin

text \<open>
  Every request, from every consistent disk: the disk that is left is consistent, also when
  the process stops, and it stops only in the situations \<open>may_stop\<close> lists. The step
  relation and its reachable disks carry this over to sessions.
\<close>

section \<open>Requests\<close>

text \<open>The paths FUSE passes, as a test on the bytes.\<close>

definition canonical :: "cstring \<Rightarrow> bool" where
  "canonical path \<longleftrightarrow> ok_fuse (tokenise (tl path)) \<and> path = fuse_path (tokenise (tl path))"

lemma canonical_fuse: "ok_fuse toks \<Longrightarrow> canonical (fuse_path toks)"
proof -
  assume ok: "ok_fuse toks"
  have "tokenise (tl (fuse_path toks)) = toks"
  proof (cases toks)
    case Nil
    then show ?thesis by (simp add: fuse_path_def)
  next
    case (Cons t ts)
    then have "list_all ok_token toks" using ok by (simp add: ok_fuse_def ok_path_def)
    then show ?thesis using tokenise_mkpath [of toks] Cons by (simp add: fuse_path_def mkpath_Cons)
  qed
  with ok show ?thesis by (simp add: canonical_def)
qed

text \<open>The root cannot be removed or renamed through a mount point: the kernel rejects it.\<close>

fun ok_request :: "request \<Rightarrow> bool" where
  "ok_request Init = True"
| "ok_request (Statfs p st) = True"
| "ok_request (Getattr p sb) = canonical p"
| "ok_request (Readdir p) = canonical p"
| "ok_request (Read p len off) = canonical p"
| "ok_request (Rename s t) = (canonical s \<and> canonical t \<and> s \<noteq> [slash] \<and> t \<noteq> [slash])"
| "ok_request (Chmod p m) = canonical p"
| "ok_request (Create p m) = canonical p"
| "ok_request (Mkdir p m) = canonical p"
| "ok_request (Unlink p) = (canonical p \<and> p \<noteq> [slash])"
| "ok_request (Rmdir p) = (canonical p \<and> p \<noteq> [slash])"
| "ok_request (Write p buf off) = canonical p"
| "ok_request (Truncate p len) = canonical p"
| "ok_request (Utime p ut) = canonical p"

text \<open>When the process may stop, and how.\<close>

fun may_stop :: "disk \<Rightarrow> request \<Rightarrow> stop \<Rightarrow> bool" where
  "may_stop d Init s = (s = Exit 1 \<and> magic (decode_super (blk d 0)) \<noteq> FS_MAGIC)"
| "may_stop d (Create p m) s = (s = Abort \<and> free_set d = {})"
| "may_stop d (Mkdir p m) s = (s = Abort \<and> card (free_set d) < 2)"
| "may_stop d (Write p buf off) s = (s = Abort \<and> card (free_set d) < blocks_for (length buf))"
| "may_stop d (Rename p q) s = (s = Undef \<and> 27 < length (last (tokenise (tl q))))"
| "may_stop d r s = False"

definition safe :: "(stop \<Rightarrow> bool) \<Rightarrow> (stop + 'a) \<times> disk \<Rightarrow> bool" where
  "safe S r \<longleftrightarrow> (\<exists>N. consistent N (snd r)) \<and> (\<forall>s. fst r = Inl s \<longrightarrow> S s)"

lemma safe_ret: "consistent N d \<Longrightarrow> safe S (Inr x, d)"
  by (auto simp: safe_def)

lemma safe_stop: "consistent N d \<Longrightarrow> S s \<Longrightarrow> safe S (Inl s, d)"
  by (auto simp: safe_def)

lemma safe_andThen: "safe S (m d) \<Longrightarrow> safe S (andThen m (\<lambda>x. ret (f x)) d)"
  by (auto simp: safe_def andThen_def ret_def split: prod.splits sum.splits)

lemma safe_andThen2: "safe S (m d) \<Longrightarrow> safe S (andThen m (\<lambda>(a, b). ret (f a b)) d)"
  by (auto simp: safe_def andThen_def ret_def split: prod.splits sum.splits)

text \<open>Paths of the root and of everything else.\<close>

lemma canonical_cases:
  assumes "canonical p"
  obtains "p = [slash]" | toks where "ok_path toks" and "p = mkpath toks" and "toks = tokenise (tl p)"
proof -
  define toks where "toks = tokenise (tl p)"
  have ok: "ok_fuse toks" and p: "p = fuse_path toks" using assms by (simp_all add: canonical_def toks_def)
  show ?thesis
  proof (cases "toks = []")
    case True
    then have "p = [slash]" using p by (simp add: fuse_path_def)
    then show ?thesis by (rule that(1))
  next
    case False
    then have "ok_path toks" using ok by (simp add: ok_fuse_def)
    moreover have "p = mkpath toks" using p False by (simp add: fuse_path_def)
    ultimately show ?thesis using toks_def by (rule that(2))
  qed
qed

lemma absfs_cases:
  assumes C: "consistent N d" and L: "alookup (absfs N d) 2 toks = Some n"
  obtains a s m where "absfs N d n = Some (ADir a s m)" | a c where "absfs N d n = Some (AFile a c)"
  using live_node(1) [OF C L] by (cases "view d n") auto

section \<open>Requests that do not change the disk\<close>

lemma root_dir_codes:
  assumes C: "consistent N d"
  shows "fs_read e [slash] len off d = (Inr (- EISDIR, []), d)"
    and "fs_write e [slash] buf off d = (Inr (- EISDIR), d)"
    and "fs_truncate e [slash] 0 d = (Inr (- EISDIR), d)"
    and "fs_utime e [slash] ut d = (Inr (- EISDIR), d)"
    and "fs_create e [slash] md d = (Inr (- EEXIST), d)"
    and "fs_mkdir e [slash] md d = (Inr (- EEXIST), d)"
proof -
  have D: "S_ISDIR (mode (decode_inode (blk d 2)))" using root_in(2) [OF C] by (simp add: inode_at_def)
  have r: "block_read 2 d = Some (blk d 2)"
    using node_read [OF consistentD(2) [OF C root_in(1) [OF C]]] by simp
  show "fs_read e [slash] len off d = (Inr (- EISDIR, []), d)"
    "fs_write e [slash] buf off d = (Inr (- EISDIR), d)"
    "fs_truncate e [slash] 0 d = (Inr (- EISDIR), d)"
    "fs_utime e [slash] ut d = (Inr (- EISDIR), d)"
    using r D by (simp_all add: fs_read_def fs_write_def fs_truncate_def fs_utime_def andThen_def run_simps
        path2inum_root Let_def)
  show "fs_create e [slash] md d = (Inr (- EEXIST), d)" "fs_mkdir e [slash] md d = (Inr (- EEXIST), d)"
    by (simp_all add: fs_create_def fs_mkdir_def prepare_new_def andThen_def run_simps path2inum_root)
qed

lemma safe_read:
  assumes C: "consistent N d" and p: "canonical p"
  shows "safe S (fs_read e p len off d)"
  using p
proof (cases rule: canonical_cases)
  case 1
  then show ?thesis using root_dir_codes(1) [OF C] safe_ret [OF C] by simp
next
  case (2 toks)
  show ?thesis
  proof (cases "alookup (absfs N d) 2 toks")
    case None
    then show ?thesis using missing_codes(1) [OF C 2(1) None] safe_ret [OF C] 2(2) by simp
  next
    case (Some n)
    show ?thesis
      by (rule absfs_cases [OF C Some])
         (use dir_codes(1) [OF C 2(1) Some] fs_read_file [OF C 2(1) Some] safe_ret [OF C] 2(2) in simp_all)
  qed
qed

lemma safe_getattr:
  assumes C: "consistent N d" and p: "canonical p"
  shows "safe S (fs_getattr p sb d)"
proof -
  have "ok_fuse (tokenise (tl p))" and "fuse_path (tokenise (tl p)) = p" using p by (simp_all add: canonical_def)
  then show ?thesis using fs_getattr_run [OF C, of "tokenise (tl p)" sb] safe_ret [OF C] by simp
qed

lemma safe_readdir:
  assumes C: "consistent N d" and p: "canonical p"
  shows "safe S (fs_readdir p d)"
proof -
  define toks where "toks = tokenise (tl p)"
  have ok: "ok_fuse toks" and pt: "p = fuse_path toks" using p by (simp_all add: canonical_def toks_def)
  show ?thesis
  proof (cases "alookup (absfs N d) 2 toks")
    case None
    then show ?thesis using fs_readdir_missing [OF C ok] safe_ret [OF C] pt by simp
  next
    case (Some n)
    show ?thesis
    proof (rule absfs_cases [OF C Some])
      fix a s m assume "absfs N d n = Some (ADir a s m)"
      then show ?thesis using fs_readdir_run [OF C ok Some] safe_ret [OF C] pt by fastforce
    next
      fix a c assume "absfs N d n = Some (AFile a c)"
      then show ?thesis using fs_readdir_file [OF C ok Some] safe_ret [OF C] pt by simp
    qed
  qed
qed

lemma safe_statfs:
  assumes C: "consistent N d"
  shows "safe S (fs_statfs p st d)"
proof -
  have "block_read 0 d = Some (blk d 0)" "block_read 1 d = Some (dmap d)"
    using consistentD(1) [OF C] by (simp_all add: block_read_in_range [of 0, simplified] get_block_def mountable_def)
  then show ?thesis
    using safe_ret [OF C] by (simp add: fs_statfs_def andThen_def run_simps Let_def)
qed

section \<open>Requests that change it\<close>

lemma safe_chmod:
  assumes C: "consistent N d" and p: "canonical p"
  shows "safe S (fs_chmod e p m d)"
proof -
  define toks where "toks = tokenise (tl p)"
  have ok: "ok_fuse toks" and pt: "p = fuse_path toks" using p by (simp_all add: canonical_def toks_def)
  show ?thesis
  proof (cases "alookup (absfs N d) 2 toks")
    case None
    then have "ok_path toks" and "p = mkpath toks" using ok pt by (auto simp: ok_fuse_def fuse_path_def)
    then show ?thesis using missing_codes(5) [OF C _ None] safe_ret [OF C] by simp
  next
    case (Some n)
    then show ?thesis using fs_chmod_run [OF C ok Some, of e m] safe_ret pt by fastforce
  qed
qed

lemma safe_utime:
  assumes C: "consistent N d" and p: "canonical p"
  shows "safe S (fs_utime e p ut d)"
  using p
proof (cases rule: canonical_cases)
  case 1
  then show ?thesis using root_dir_codes(4) [OF C] safe_ret [OF C] by simp
next
  case (2 toks)
  show ?thesis
  proof (cases "alookup (absfs N d) 2 toks")
    case None
    then show ?thesis using missing_codes(4) [OF C 2(1) None] safe_ret [OF C] 2(2) by simp
  next
    case (Some n)
    show ?thesis
    proof (rule absfs_cases [OF C Some])
      fix a s m assume "absfs N d n = Some (ADir a s m)"
      then show ?thesis using dir_codes(4) [OF C 2(1) Some] safe_ret [OF C] 2(2) by simp
    next
      fix a c assume "absfs N d n = Some (AFile a c)"
      then show ?thesis using fs_utime_run [OF C 2(1) Some, of a c e ut] safe_ret 2(2) by fastforce
    qed
  qed
qed

lemma safe_truncate:
  assumes C: "consistent N d" and p: "canonical p"
  shows "safe S (fs_truncate e p len d)"
proof (cases "len = 0")
  case False
  then show ?thesis using fs_truncate_len safe_ret [OF C] by simp
next
  case len: True
  show ?thesis
    using p
  proof (cases rule: canonical_cases)
    case 1
    then show ?thesis using root_dir_codes(3) [OF C] safe_ret [OF C] len by simp
  next
    case (2 toks)
    show ?thesis
    proof (cases "alookup (absfs N d) 2 toks")
      case None
      then show ?thesis using missing_codes(3) [OF C 2(1) None] safe_ret [OF C] 2(2) len by simp
    next
      case (Some n)
      show ?thesis
      proof (rule absfs_cases [OF C Some])
        fix a s m assume "absfs N d n = Some (ADir a s m)"
        then show ?thesis using dir_codes(3) [OF C 2(1) Some] safe_ret [OF C] 2(2) len by simp
      next
        fix a c assume "absfs N d n = Some (AFile a c)"
        then show ?thesis using fs_truncate_file [OF C 2(1) Some, of a c e] safe_ret 2(2) len by fastforce
      qed
    qed
  qed
qed

text \<open>A write that stops finds fewer blocks than its bytes fill.\<close>

lemma blocks_for_add:
  assumes "off \<le> s"
  shows "blocks_for (off + len) - blocks_for s \<le> blocks_for len"
proof -
  have "off \<le> 4096 * blocks_for s" using assms by (auto simp: blocks_for_def)
  then have "off + len + 4095 \<le> len + 4095 + blocks_for s * 4096" by simp
  then have "blocks_for (off + len) \<le> (len + 4095 + blocks_for s * 4096) div 4096"
    unfolding blocks_for_def [of "off + len"] by (rule div_le_mono)
  also have "\<dots> = blocks_for len + blocks_for s" by (simp add: blocks_for_def)
  finally show ?thesis by simp
qed

lemma safe_write:
  assumes C: "consistent N d" and p: "canonical p" and e: "wf_env e"
  shows "safe (may_stop d (Write p buf off)) (fs_write e p buf off d)"
  using p
proof (cases rule: canonical_cases)
  case 1
  then show ?thesis using root_dir_codes(2) [OF C] safe_ret [OF C] by simp
next
  case (2 toks)
  show ?thesis
  proof (cases "alookup (absfs N d) 2 toks")
    case None
    then show ?thesis using missing_codes(2) [OF C 2(1) None] safe_ret [OF C] 2(2) by simp
  next
    case (Some n)
    show ?thesis
    proof (rule absfs_cases [OF C Some])
      fix a s m assume "absfs N d n = Some (ADir a s m)"
      then show ?thesis using dir_codes(2) [OF C 2(1) Some] safe_ret [OF C] 2(2) by simp
    next
      fix a c assume V: "absfs N d n = Some (AFile a c)"
      consider "length c < off" | "off \<le> length c" "4096 * 1019 < off + length buf"
        | "off \<le> length c" "off + length buf \<le> 4096 * 1019" "room_for d (length c) (off + length buf)"
        | "off \<le> length c" "off + length buf \<le> 4096 * 1019" "\<not> room_for d (length c) (off + length buf)"
        by linarith
      then show ?thesis
      proof cases
        case 3
        then show ?thesis using fs_write_file [OF C 2(1) e Some V 3] safe_ret 2(2) by fastforce
      next
        case 4
        have few: "card (free_set d) < blocks_for (length buf)"
          using 4(3) blocks_for_add [OF 4(1), of "length buf"] by (simp add: room_for_def)
        obtain d' where "fs_write e (mkpath toks) buf off d = (Inl Abort, d')" "consistent N d'"
          using fs_write_full [OF C 2(1) e Some V 4] by blast
        then show ?thesis
          using few safe_stop [of N d' "may_stop d (Write p buf off)" Abort] 2(2) by simp
      qed (use write_range [OF C 2(1) Some V] safe_ret [OF C] 2(2) in simp_all)
    qed
  qed
qed

lemma safe_create:
  assumes C: "consistent N d" and p: "canonical p"
  shows "safe (may_stop d (Create p m)) (fs_create e p m d)"
  using p
proof (cases rule: canonical_cases)
  case 1
  then show ?thesis using root_dir_codes(5) [OF C] safe_ret [OF C] by simp
next
  case (2 toks)
  show ?thesis
  proof (cases "new_error (absfs N d) toks")
    case (Some code)
    then show ?thesis using new_codes(1) [OF C 2(1) Some] safe_ret [OF C] 2(2) by simp
  next
    case None
    obtain q where L: "alookup (absfs N d) 2 (butlast toks) = Some q"
      by (rule new_parent [OF C 2(1) None])
    consider "free_set d = {}" | "free_set d \<noteq> {}" "free_slot d q" | "free_set d \<noteq> {}" "\<not> free_slot d q" by blast
    then show ?thesis
    proof cases
      case 1
      then show ?thesis
        using fs_create_full [OF C 2(1) None 1] safe_stop [OF C, of "may_stop d (Create p m)" Abort] 2(2) by simp
    next
      case 2
      then show ?thesis
        using fs_create_ok [OF C \<open>ok_path toks\<close> None L 2, of e m] safe_ret \<open>p = mkpath toks\<close> by fastforce
    next
      case 3
      then show ?thesis
        using fs_create_no_slot [OF C \<open>ok_path toks\<close> None L 3, of e m] safe_ret \<open>p = mkpath toks\<close> by fastforce
    qed
  qed
qed

lemma safe_mkdir:
  assumes C: "consistent N d" and p: "canonical p"
  shows "safe (may_stop d (Mkdir p m)) (fs_mkdir e p m d)"
  using p
proof (cases rule: canonical_cases)
  case 1
  then show ?thesis using root_dir_codes(6) [OF C] safe_ret [OF C] by simp
next
  case (2 toks)
  show ?thesis
  proof (cases "new_error (absfs N d) toks")
    case (Some code)
    then show ?thesis using new_codes(2) [OF C 2(1) Some] safe_ret [OF C] 2(2) by simp
  next
    case None
    obtain q where L: "alookup (absfs N d) 2 (butlast toks) = Some q"
      by (rule new_parent [OF C 2(1) None])
    consider "card (free_set d) < 2" | "2 \<le> card (free_set d)" "free_slot d q"
      | "2 \<le> card (free_set d)" "\<not> free_slot d q" by linarith
    then show ?thesis
    proof cases
      case 1
      obtain d' where "fs_mkdir e (mkpath toks) m d = (Inl Abort, d')" "consistent N d'"
        using fs_mkdir_full [OF C \<open>ok_path toks\<close> None 1, of e m] by blast
      then show ?thesis
        using 1 safe_stop [of N d' "may_stop d (Mkdir p m)" Abort] 2(2) by simp
    next
      case 2
      then show ?thesis
        using fs_mkdir_ok [OF C \<open>ok_path toks\<close> None L 2, of e m] safe_ret \<open>p = mkpath toks\<close> by fastforce
    next
      case 3
      then show ?thesis
        using fs_mkdir_no_slot [OF C \<open>ok_path toks\<close> None L 3, of e m] safe_ret \<open>p = mkpath toks\<close> by fastforce
    qed
  qed
qed

lemma del_error_missing: "alookup A 2 toks = None \<Longrightarrow> \<exists>code. del_error A toks = Some code"
  by (cases "alookup A 2 (butlast toks)") (simp_all add: del_error_def)

lemma safe_unlink:
  assumes C: "consistent N d" and p: "canonical p" "p \<noteq> [slash]"
  shows "safe S (fs_unlink e p d)"
  using p(1)
proof (cases rule: canonical_cases)
  case 1
  with p(2) show ?thesis by simp
next
  case (2 toks)
  show ?thesis
  proof (cases "alookup (absfs N d) 2 toks")
    case None
    then obtain code where "del_error (absfs N d) toks = Some code"
      using del_error_missing by blast
    then show ?thesis using del_codes(1) [OF C 2(1)] safe_ret [OF C] 2(2) by simp
  next
    case (Some n)
    show ?thesis
    proof (rule absfs_cases [OF C Some])
      fix a s m assume "absfs N d n = Some (ADir a s m)"
      then show ?thesis using fs_unlink_dir [OF C 2(1) Some] safe_ret [OF C] 2(2) by simp
    next
      fix a c assume "absfs N d n = Some (AFile a c)"
      then show ?thesis using fs_unlink_ok [OF C 2(1) Some, of a c e] safe_ret 2(2) by fastforce
    qed
  qed
qed

lemma safe_rmdir:
  assumes C: "consistent N d" and p: "canonical p" "p \<noteq> [slash]"
  shows "safe S (fs_rmdir e p d)"
  using p(1)
proof (cases rule: canonical_cases)
  case 1
  with p(2) show ?thesis by simp
next
  case (2 toks)
  show ?thesis
  proof (cases "alookup (absfs N d) 2 toks")
    case None
    then obtain code where "del_error (absfs N d) toks = Some code"
      using del_error_missing by blast
    then show ?thesis using del_codes(2) [OF C 2(1)] safe_ret [OF C] 2(2) by simp
  next
    case (Some n)
    show ?thesis
    proof (rule absfs_cases [OF C Some])
      fix a s m assume V: "absfs N d n = Some (ADir a s m)"
      show ?thesis
      proof (cases "m = Map.empty")
        case True
        with V have V': "absfs N d n = Some (ADir a s Map.empty)" by simp
        show ?thesis using fs_rmdir_ok [OF C 2(1) Some V', of e] safe_ret 2(2) by fastforce
      next
        case False
        then show ?thesis using fs_rmdir_full [OF C 2(1) Some V] safe_ret [OF C] 2(2) by simp
      qed
    next
      fix a c assume "absfs N d n = Some (AFile a c)"
      then show ?thesis using fs_rmdir_file [OF C 2(1) Some] safe_ret [OF C] 2(2) by simp
    qed
  qed
qed

lemma safe_rename:
  assumes C: "consistent N d" and s: "canonical s" "s \<noteq> [slash]" and t: "canonical t" "t \<noteq> [slash]"
  shows "safe (may_stop d (Rename s t)) (fs_rename s t d)"
proof -
  obtain src where src: "ok_path src" "s = mkpath src" using canonical_cases [OF s(1)] s(2) by metis
  obtain dst where dst: "ok_path dst" "t = mkpath dst" "dst = tokenise (tl t)"
    using canonical_cases [OF t(1)] t(2) by metis
  show ?thesis
  proof (cases "rename_error (absfs N d) src dst")
    case (Some code)
    then show ?thesis using rename_checks [OF C src(1) dst(1)] safe_ret [OF C] src(2) dst(2) by simp
  next
    case None
    show ?thesis
    proof (cases "length (last dst) \<le> 27")
      case True
      then show ?thesis
        using fs_rename_ok [OF C src(1) dst(1) None] safe_ret src(2) dst(2) by fastforce
    next
      case False
      then have "fs_rename s t d = (Inl Undef, d)"
        using fs_rename_long [OF C src(1) dst(1) None] src(2) dst(2) by simp
      moreover have "may_stop d (Rename s t) Undef" using False dst(3) by simp
      ultimately show ?thesis using safe_stop [OF C, of "may_stop d (Rename s t)" Undef] by simp
    qed
  qed
qed

lemma safe_init:
  assumes C: "consistent N d"
  shows "safe (may_stop d Init) (fs_init d)"
  using fs_init_run [OF consistentD(1) [OF C]] safe_ret [OF C] safe_stop [OF C, of "may_stop d Init" "Exit 1"]
  by auto

section \<open>Every request\<close>

lemma fs_ops_safe:
  assumes C: "consistent N d" and e: "wf_env e" and r: "ok_request r"
  shows "safe (may_stop d r) (fs_ops e r d)"
proof (cases r)
  case Init
  with r show ?thesis by (auto intro!: safe_andThen safe_init [OF C] simp del: may_stop.simps)
next
  case (Statfs p st)
  with r show ?thesis by (auto intro!: safe_andThen2 safe_statfs [OF C])
next
  case (Getattr p sb)
  with r show ?thesis by (auto intro!: safe_andThen2 safe_getattr [OF C])
next
  case (Readdir p)
  with r show ?thesis by (auto intro!: safe_andThen2 safe_readdir [OF C])
next
  case (Read p len off)
  with r show ?thesis by (auto intro!: safe_andThen2 safe_read [OF C])
next
  case (Rename s t)
  with r show ?thesis by (auto intro!: safe_andThen safe_rename [OF C] simp del: may_stop.simps)
next
  case (Chmod p m)
  with r show ?thesis by (auto intro!: safe_andThen safe_chmod [OF C])
next
  case (Create p m)
  with r show ?thesis by (auto intro!: safe_andThen safe_create [OF C] simp del: may_stop.simps)
next
  case (Mkdir p m)
  with r show ?thesis by (auto intro!: safe_andThen safe_mkdir [OF C] simp del: may_stop.simps)
next
  case (Unlink p)
  with r show ?thesis by (auto intro!: safe_andThen safe_unlink [OF C])
next
  case (Rmdir p)
  with r show ?thesis by (auto intro!: safe_andThen safe_rmdir [OF C])
next
  case (Write p buf off)
  with r show ?thesis by (auto intro!: safe_andThen safe_write [OF C _ e] simp del: may_stop.simps)
next
  case (Truncate p len)
  with r show ?thesis by (auto intro!: safe_andThen safe_truncate [OF C])
next
  case (Utime p ut)
  with r show ?thesis by (auto intro!: safe_andThen safe_utime [OF C])
qed

section \<open>Sessions\<close>

text \<open>One served request is a step; the reachable disks are those sessions can leave.\<close>

inductive step :: "disk \<Rightarrow> env \<times> request \<Rightarrow> reply \<Rightarrow> disk \<Rightarrow> bool" where
  served: "wf_env e \<Longrightarrow> ok_request r \<Longrightarrow> fs_ops e r d = (Inr x, d') \<Longrightarrow> step d (e, r) x d'"

inductive_cases stepE: "step d l x d'"
inductive_simps step_simps: "step d (e, r) x d'"

inductive reach :: "disk \<Rightarrow> disk \<Rightarrow> bool" for d0 where
  start: "reach d0 d0"
| more: "reach d0 d \<Longrightarrow> step d l x d' \<Longrightarrow> reach d0 d'"

lemma step_consistent: "step d l x d' \<Longrightarrow> consistent N d \<Longrightarrow> \<exists>N'. consistent N' d'"
  by (erule stepE) (use fs_ops_safe in \<open>fastforce simp: safe_def\<close>)

lemma reach_consistent: "reach d0 d \<Longrightarrow> \<exists>N. consistent N d0 \<Longrightarrow> \<exists>N. consistent N d"
  by (induction rule: reach.induct) (auto dest: step_consistent)

lemma reach_trans: "reach d1 d2 \<Longrightarrow> reach d0 d1 \<Longrightarrow> reach d0 d2"
  by (induction rule: reach.induct) (auto intro: more)

lemma fs_ops_step:
  assumes "wf_env e" and "ok_request r" and "fs_ops e r d = (Inr x, d')"
  shows "step d (e, r) x d'"
  using assms by (simp add: step_simps)

definition good :: "env \<times> request \<Rightarrow> bool" where
  "good l \<longleftrightarrow> wf_env (fst l) \<and> ok_request (snd l)"

text \<open>
  A session either serves every request, on a path of reachable disks, or stops at one, on a
  reachable disk on which that request may stop.
\<close>

lemma session_cases:
  assumes "list_all good rs" and "\<exists>N. consistent N d"
  shows "(\<exists>xs d'. session rs d = (Inr xs, d') \<and> length xs = length rs \<and> reach d d' \<and> (\<exists>N. consistent N d'))
    \<or> (\<exists>s d' d1 r. session rs d = (Inl s, d') \<and> (\<exists>N. consistent N d') \<and> r \<in> snd ` set rs
         \<and> reach d d1 \<and> may_stop d1 r s)"
  using assms
proof (induction rs arbitrary: d)
  case Nil
  then show ?case by (auto simp: ret_def start)
next
  case (Cons l rs)
  obtain e r where l: "l = (e, r)" by (cases l)
  have "good (e, r)" and g3: "list_all good rs" using Cons.prems(1) by (simp_all add: l)
  then have g: "wf_env e" "ok_request r" by (simp_all add: good_def)
  obtain N where N: "consistent N d" using Cons.prems(2) ..
  note S = fs_ops_safe [OF N g(1,2)]
  obtain o1 d1 where run: "fs_ops e r d = (o1, d1)" by (cases "fs_ops e r d")
  have C1: "\<exists>N. consistent N d1" using S run by (simp add: safe_def)
  show ?case
  proof (cases o1)
    case (Inl s)
    then have "may_stop d r s" using S run by (simp add: safe_def)
    then show ?thesis
      using run Inl C1 start [of d] by (auto simp: andThen_def l)
  next
    case (Inr x)
    have st: "reach d d1"
      using more [OF start fs_ops_step [OF g(1,2)]] run Inr by blast
    from Cons.IH [OF g3 C1] show ?thesis
    proof
      assume "\<exists>xs d'. session rs d1 = (Inr xs, d') \<and> length xs = length rs \<and> reach d1 d' \<and> (\<exists>N. consistent N d')"
      then show ?thesis
        using run Inr reach_trans [OF _ st] by (fastforce simp: andThen_def ret_def l)
    next
      assume "\<exists>s d' d2 r. session rs d1 = (Inl s, d') \<and> (\<exists>N. consistent N d') \<and> r \<in> snd ` set rs
         \<and> reach d1 d2 \<and> may_stop d2 r s"
      then obtain s d' d2 q where "session rs d1 = (Inl s, d')" "\<exists>N. consistent N d'" "q \<in> snd ` set rs"
        "reach d1 d2" "may_stop d2 q s" by blast
      then have "session (l # rs) d = (Inl s, d')" "\<exists>N. consistent N d'" "q \<in> snd ` set (l # rs)"
        "reach d d2" "may_stop d2 q s"
        using run Inr reach_trans [OF _ st] by (simp_all add: andThen_def l)
      then show ?thesis by blast
    qed
  qed
qed

text \<open>Requests that never stop the process.\<close>

fun harmless :: "request \<Rightarrow> bool" where
  "harmless Init = False"
| "harmless (Create p m) = False"
| "harmless (Mkdir p m) = False"
| "harmless (Write p buf off) = False"
| "harmless (Rename p q) = (length (last (tokenise (tl q))) \<le> 27)"
| "harmless r = True"

lemma harmless_may_stop: "harmless r \<Longrightarrow> \<not> may_stop d r s"
  by (cases r) auto

lemma session_harmless:
  assumes "list_all good rs" and "consistent N d" and "\<forall>r\<in>snd ` set rs. harmless r"
  shows "\<exists>xs d' N'. session rs d = (Inr xs, d') \<and> length xs = length rs \<and> consistent N' d'"
  using session_cases [OF assms(1)] assms(2,3) harmless_may_stop by blast

section \<open>Reading requests\<close>

fun reading :: "request \<Rightarrow> bool" where
  "reading Init = True"
| "reading (Statfs p st) = True"
| "reading (Getattr p sb) = True"
| "reading (Readdir p) = True"
| "reading (Read p len off) = True"
| "reading r = False"

lemma keeps_option:
  "keeps P m \<Longrightarrow> (\<And>x. keeps P (f x)) \<Longrightarrow> keeps P (case r of None \<Rightarrow> m | Some x \<Rightarrow> f x)"
  by (cases r) auto

lemma keeps_list_entries: "keeps P (list_entries es)"
  by (induction es) (auto intro!: keeps_andThen keeps_option)

lemma keeps_read_loop: "keeps P (read_loop i len off nread bn bo buffer out)"
proof (induction i len off nread bn bo buffer out rule: read_loop.induct)
  case (1 i len off nread bn bo buffer out)
  then show ?case
    by (subst read_loop.simps) (auto intro!: keeps_andThen keeps_load simp: Let_def)
qed

lemma reading_keeps: "reading r \<Longrightarrow> keeps P (fs_ops e r)"
  by (cases r)
     (auto simp: fs_init_def fs_statfs_def fs_getattr_def fs_readdir_def fs_read_def Let_def split: prod.splits
        intro!: keeps_andThen keeps_ret keeps_fetch keeps_option keeps_list_entries keeps_read_loop keeps_path2inum)

lemma reading_same:
  assumes "reading r"
  shows "snd (fs_ops e r d) = d"
  using keepsD [OF reading_keeps [OF assms, of "\<lambda>x. x = d" e], of d] by simp

end
