(* ===== verification/Scenario.thy ===== *)
theory Scenario
  imports Safety
begin

text \<open>
  What one request finds after another: the abstract effects composed. Paths of a tree are
  unique; linking and removing names keeps the paths to everything else.
\<close>

section \<open>Lookups in changed trees\<close>

lemma alookup_mono:
  assumes "\<And>q t k. children (A q) t = Some k \<Longrightarrow> children (B q) t = Some k"
  shows "alookup A n ts = Some k \<Longrightarrow> alookup B n ts = Some k"
  by (induction ts arbitrary: n) (auto split: option.splits dest: assms)

lemma alookup_cong:
  assumes "\<And>q. children (A q) = children (B q)"
  shows "alookup A n ts = alookup B n ts"
  by (induction ts arbitrary: n) (simp_all add: assms split: option.splits)

lemma alookup_snoc: "alookup A n (ts @ [t]) = (case alookup A n ts of None \<Rightarrow> None | Some p \<Rightarrow> children (A p) t)"
  by (simp add: alookup_append split: option.splits)

text \<open>A node of a tree is reached on one path.\<close>

lemma path_unique:
  assumes T: "tree_ok A"
  shows "alookup A 2 ts = Some p \<Longrightarrow> alookup A 2 us = Some p \<Longrightarrow> ts = us"
proof (induction ts arbitrary: us p rule: rev_induct)
  case Nil
  then have p: "p = 2" by simp
  show ?case
  proof (cases us rule: rev_cases)
    case (snoc vs v)
    then have "\<exists>q. children (A q) v = Some p"
      using Nil.prems(2) by (auto simp: alookup_snoc split: option.splits)
    then show ?thesis using tree_okD(2) [OF T] p by blast
  qed simp
next
  case (snoc t ts)
  then obtain q where q: "alookup A 2 ts = Some q" "children (A q) t = Some p"
    by (auto simp: alookup_snoc split: option.splits)
  show ?case
  proof (cases us rule: rev_cases)
    case Nil
    then have "p = 2" using snoc.prems(2) by simp
    then show ?thesis using tree_okD(2) [OF T q(2)] by simp
  next
    case us: (snoc vs v)
    then obtain r where r: "alookup A 2 vs = Some r" "children (A r) v = Some p"
      using snoc.prems(2) by (auto simp: alookup_snoc split: option.splits)
    have "q = r \<and> t = v" using tree_okD(4) [OF T q(2) r(2)] .
    then show ?thesis using snoc.IH [OF q(1), of vs] r us by simp
  qed
qed

text \<open>Changing the children of \<open>p\<close> keeps the path to \<open>p\<close>.\<close>

lemma alookup_upto:
  assumes T: "tree_ok A" and same: "\<And>q. q \<noteq> p \<Longrightarrow> children (B q) = children (A q)"
    and p: "alookup A 2 ts = Some p"
  shows "alookup B 2 ts = Some p"
proof -
  have "alookup B 2 us = alookup A 2 us" if "ts = us @ vs" for us vs
    using that
  proof (induction us arbitrary: vs rule: rev_induct)
    case Nil
    then show ?case by simp
  next
    case (snoc u us)
    have IH: "alookup B 2 us = alookup A 2 us" using snoc.IH [of "u # vs"] snoc.prems by simp
    have "alookup A 2 us \<noteq> Some p"
      using path_unique [OF T p, of us] snoc.prems by auto
    then show ?case using IH same by (auto simp: alookup_snoc split: option.splits)
  qed
  then show ?thesis using p by simp
qed

lemma parent_child:
  assumes "ts \<noteq> []" and "alookup A 2 (butlast ts) = Some p"
  shows "alookup A 2 ts = children (A p) (last ts)"
  using alookup_butlast [OF assms(1), of A 2] assms(2) by simp

section \<open>After each operation\<close>

lemma write_read:
  assumes C: "consistent N d" and P: "ok_path toks" and e: "wf_env e"
    and L: "alookup (absfs N d) 2 toks = Some n" and V: "absfs N d n = Some (AFile a c)"
    and off: "off \<le> length c" and top: "off + length buf \<le> 4096 * 1019"
    and room: "room_for d (length c) (off + length buf)"
  shows "\<exists>d'. fs_write e (mkpath toks) buf off d = (Inr (int (length buf)), d')
    \<and> fs_read e' (mkpath toks) len at d' =
        (Inr (int (length (take len (drop at (splice off buf c)))), take len (drop at (splice off buf c))), d')"
proof -
  obtain d' where w: "fs_write e (mkpath toks) buf off d = (Inr (int (length buf)), d')" "consistent N d'"
    and A: "absfs N d' = (absfs N d)(n \<mapsto> AFile (a\<lparr>a_mtime := now e\<rparr>) (splice off buf c))"
    using fs_write_file [OF C P e L V off top room] by blast
  have "alookup (absfs N d') 2 toks = Some n"
    using L alookup_cong [of "absfs N d'" "absfs N d"] V by (simp add: A)
  with w A fs_read_file [OF w(2) P, of n _ "splice off buf c" e' len at] show ?thesis by auto
qed

lemma linked_lookup:
  assumes T: "tree_ok A" and p: "alookup A 2 (butlast ts) = Some p" "is_adir (A p)" and ts: "ts \<noteq> []"
    and x: "A x = None" and leaf: "children (Some ob) = Map.empty"
  shows "alookup ((a_link p (last ts) x A)(x \<mapsto> ob)) 2 ts = Some x"
proof -
  define B where "B = (a_link p (last ts) x A)(x \<mapsto> ob)"
  have px: "x \<noteq> p" using p(2) x by auto
  have same: "children (B q) = children (A q)" if "q \<noteq> p" for q
    using that x leaf by (simp add: B_def a_link_def)
  have "alookup B 2 (butlast ts) = Some p" using alookup_upto [OF T same p(1)] .
  moreover have "children (B p) = (children (A p))(last ts \<mapsto> x)"
    using p(2) px by (simp add: B_def a_link_def children_set)
  ultimately show ?thesis using parent_child [OF ts] by (simp add: B_def)
qed

lemma removed_lookup:
  assumes T: "tree_ok A" and p: "alookup A 2 (butlast ts) = Some p" and ts: "ts \<noteq> []"
    and n: "alookup A 2 ts = Some n" and leaf: "children (A n) = Map.empty"
  shows "alookup (a_remove p (last ts) n w A) 2 ts = None"
proof -
  define B where "B = a_remove p (last ts) n w A"
  have c: "children (A p) (last ts) = Some n" using parent_child [OF ts p] n by simp
  then have pn: "p \<noteq> n" and D: "is_adir (A p)" using leaf children_is_adir by auto
  have same: "children (B q) = children (A q)" if "q \<noteq> p" for q
    using that leaf by (simp add: B_def a_remove_def a_unlink_def Let_def)
  have "alookup B 2 (butlast ts) = Some p" using alookup_upto [OF T same p] .
  moreover have "children (B p) = (children (A p))(last ts := None)"
    using D pn by (simp add: B_def a_remove_def a_unlink_def Let_def children_set)
  ultimately show ?thesis using parent_child [OF ts] by (simp add: B_def)
qed

lemma renamed_lookup:
  assumes T: "tree_ok A" and p: "alookup A 2 (butlast src) = Some p" and ne: "src \<noteq> []" "dst \<noteq> []"
    and n: "alookup A 2 src = Some n" and free: "alookup A 2 dst = None" and dir: "butlast dst = butlast src"
  shows "alookup (a_rename p (last src) (last dst) A) 2 dst = Some n"
    and "alookup (a_rename p (last src) (last dst) A) 2 src = None"
proof -
  define B where "B = a_rename p (last src) (last dst) A"
  have c: "children (A p) (last src) = Some n" using parent_child [OF ne(1) p] n by simp
  then have D: "is_adir (A p)" using children_is_adir by auto
  have "children (A p) (last dst) = None" using parent_child [of dst A p] ne(2) p dir free by simp
  then have diff: "last src \<noteq> last dst" using c by auto
  have same: "children (B q) = children (A q)" if "q \<noteq> p" for q
    using that by (simp add: B_def a_rename_def)
  have q: "alookup B 2 (butlast src) = Some p" using alookup_upto [OF T same p] .
  have "children (B p) = (children (A p))(last src := None, last dst \<mapsto> n)"
    using D c by (simp add: B_def a_rename_def children_set)
  then show "alookup (a_rename p (last src) (last dst) A) 2 dst = Some n"
    and "alookup (a_rename p (last src) (last dst) A) 2 src = None"
    using parent_child [OF ne(1) q] parent_child [OF ne(2), of B p] q dir diff by (simp_all add: B_def)
qed

lemma create_lookup:
  assumes C: "consistent N d" and P: "ok_path toks"
    and ok: "new_error (absfs N d) toks = None" and L: "alookup (absfs N d) 2 (butlast toks) = Some p"
    and room: "free_set d \<noteq> {}" and slot: "free_slot d p"
  shows "\<exists>d' x. fs_create e (mkpath toks) m d = (Inr 0, d') \<and> x = Min (free_set d)
    \<and> path2inum (mkpath toks) d' = (Inr (int x), d')
    \<and> fs_read e' (mkpath toks) len off d' = (Inr (0, []), d')
    \<and> fs_getattr (mkpath toks) sb d' = (Inr (0, ostat x (AFile (new_attrs e m (push_bit 15 1)) [])), d')"
proof -
  obtain d' x where x: "x = Min (free_set d)" and run: "fs_create e (mkpath toks) m d = (Inr 0, d')"
    and C': "consistent (insert x N) d'"
    and A: "absfs (insert x N) d' = (a_link p (last toks) x (absfs N d))(x \<mapsto> AFile (new_attrs e m (push_bit 15 1)) [])"
    using fs_create_ok [OF C P ok L room slot, of e m] by blast
  have "x \<in> free_set d" unfolding x using room by (intro Min_in) auto
  then have xN: "absfs N d x = None" using free_not_live [OF C] by simp
  note p = new_parent_is [OF C P ok L]
  have V: "absfs (insert x N) d' x = Some (AFile (new_attrs e m (push_bit 15 1)) [])"
    by (simp only: A fun_upd_same)
  have L': "alookup (absfs (insert x N) d') 2 toks = Some x"
    unfolding A using P
    by (intro linked_lookup [OF consistentD(3) [OF C] L _ _ xN]) (simp_all add: p is_adir_view ok_path_def)
  have fp: "fuse_path toks = mkpath toks" "ok_fuse toks" using P by (auto simp: fuse_path_def ok_fuse_def ok_path_def)
  have ga: "fs_getattr (mkpath toks) sb d' = (Inr (0, ostat x (AFile (new_attrs e m (push_bit 15 1)) [])), d')"
    using fs_getattr_run [OF C' fp(2), of sb] by (simp only: fp(1) L' V option.case option.sel)
  have rd: "fs_read e' (mkpath toks) len off d' = (Inr (0, []), d')"
    using fs_read_file [OF C' P L' V, of e' len off] by simp
  show ?thesis using run x path_live(1) [OF C' P L'] ga rd by blast
qed

lemma unlink_lookup:
  assumes C: "consistent N d" and P: "ok_path toks"
    and L: "alookup (absfs N d) 2 toks = Some n" and V: "absfs N d n = Some (AFile a c)"
  shows "\<exists>d'. fs_unlink e (mkpath toks) d = (Inr 0, d') \<and> own d n \<subseteq> free_set d'
    \<and> fs_getattr (mkpath toks) sb d' = (Inr (if 1 < length toks then - ENOTDIR else - ENOENT, sb), d')"
proof -
  have ne: "toks \<noteq> []" using P by (simp add: ok_path_def)
  obtain d' p where p: "alookup (absfs N d) 2 (butlast toks) = Some p"
    and run: "fs_unlink e (mkpath toks) d = (Inr 0, d')" and C': "consistent (N - {n}) d'"
    and A: "absfs (N - {n}) d' = a_remove p (last toks) n (now e) (absfs N d)"
    and F: "free_set d' = free_set d \<union> own d n"
    using fs_unlink_ok [OF C P L V, of e] by blast
  have none: "alookup (absfs (N - {n}) d') 2 toks = None"
    unfolding A by (rule removed_lookup [OF consistentD(3) [OF C] p ne L]) (simp add: V)
  obtain q where q: "q \<in> N" "alookup (absfs N d) 2 (butlast toks) = Some q" "S_ISDIR (mode (inode_at d q))"
    "dir_map (dirs_at d (inode_at d q)) (last toks) = Some n"
    by (rule old_parent [OF C P L])
  then have pq: "q = p" using p by simp
  have c: "children (absfs N d p) (last toks) = Some n" using parent_child [OF ne p] L by simp
  have same: "children (absfs (N - {n}) d' r) = children (absfs N d r)" if "r \<noteq> p" for r
    using that V by (simp add: A a_remove_def a_unlink_def Let_def)
  have par: "alookup (absfs (N - {n}) d') 2 (butlast toks) = Some p"
    by (rule alookup_upto [OF consistentD(3) [OF C] same p])
  have pn: "p \<noteq> n" using c V by auto
  have adir: "is_adir (absfs (N - {n}) d' p)"
    using children_is_adir [OF c] pn by (simp add: A a_remove_def a_unlink_def Let_def)
  have cn: "children (absfs (N - {n}) d' p) (last toks) = None" using parent_child [OF ne par] none by simp
  have short: "length (last toks) \<le> 27"
    using dir_map_short(1) q(3,4) consistentD(2) [OF C q(1)] by (auto simp: node_ok_def)
  have "resolve (absfs (N - {n}) d') (1 < length toks) 2 toks = (if 1 < length toks then - ENOTDIR else - ENOENT)"
    using resolve_missing [OF ne par adir cn] short by simp
  moreover have fp: "fuse_path toks = mkpath toks" "ok_fuse toks" using P by (auto simp: fuse_path_def ok_fuse_def ok_path_def)
  ultimately show ?thesis
    using run F none fs_getattr_run [OF C' fp(2), of sb] by (simp add: fp(1))
qed

lemma rename_lookup:
  assumes C: "consistent N d" and P: "ok_path src" "ok_path dst"
    and R: "rename_error (absfs N d) src dst = None" and short: "length (last dst) \<le> 27"
    and L: "alookup (absfs N d) 2 src = Some n"
  shows "\<exists>d'. fs_rename (mkpath src) (mkpath dst) d = (Inr 0, d')
    \<and> path2inum (mkpath dst) d' = (Inr (int n), d') \<and> fst (path2inum (mkpath src) d') \<in> {Inr (- ENOENT), Inr (- ENOTDIR)}"
proof -
  obtain d' p where p: "alookup (absfs N d) 2 (butlast src) = Some p"
    and run: "fs_rename (mkpath src) (mkpath dst) d = (Inr 0, d')" and C': "consistent N d'"
    and A: "absfs N d' = a_rename p (last src) (last dst) (absfs N d)"
    using fs_rename_ok [OF C P R short] by blast
  have ne: "src \<noteq> []" "dst \<noteq> []" using P by (simp_all add: ok_path_def)
  have free: "alookup (absfs N d) 2 dst = None" and dir: "butlast dst = butlast src"
    using R L by (auto simp: rename_error_def split: if_splits)
  note rl = renamed_lookup [OF consistentD(3) [OF C] p ne L free dir, folded A]
  show ?thesis
    using run path_live(1) [OF C' P(2) rl(1)] path_dead [OF C' P(1) rl(2)] by fastforce
qed

end
