(* ===== verification/Sample.thy ===== *)
theory Sample
  imports Safety
begin

text \<open>
  Concrete disks: a small tree (a file \<open>/a\<close> of three bytes, a directory \<open>/d\<close> with an
  empty file \<open>/d/b\<close>, an empty directory \<open>/e\<close>), and the same disk with a full map. They
  are consistent, so the theorems about consistent disks speak about something.
\<close>

section \<open>The tree\<close>

definition inode_of :: "u32 \<Rightarrow> u32 \<Rightarrow> u32 list \<Rightarrow> fs_inode" where
  "inode_of m sz ps = \<lparr>uid = 1000, gid = 100, mode = m, ctime = 7, mtime = 9, size_i = sz,
     ptrs = ps @ replicate (1019 - length ps) 0\<rparr>"

definition dir_mode :: u32 where "dir_mode = 0x41ED"
definition file_mode :: u32 where "file_mode = 0x81A4"

definition root_inode :: fs_inode where "root_inode = inode_of dir_mode 4096 [3]"
definition a_inode :: fs_inode where "a_inode = inode_of file_mode 3 [5]"
definition d_inode :: fs_inode where "d_inode = inode_of dir_mode 4096 [7]"
definition b_inode :: fs_inode where "b_inode = inode_of file_mode 0 []"
definition e_inode :: fs_inode where "e_inode = inode_of dir_mode 4096 [10]"

definition put_entry :: "nat \<Rightarrow> cstring \<Rightarrow> nat \<Rightarrow> fs_dirent list \<Rightarrow> fs_dirent list" where
  "put_entry k t n ds = ds[k := \<lparr>valid = True, inode = word_of_int (int n), name = strcpy_into (name (ds ! k)) t\<rparr>]"

definition no_entries :: "fs_dirent list" where
  "no_entries = decode_dirs zero_block"

definition root_dirs :: "fs_dirent list" where
  "root_dirs = put_entry 2 [101] 9 (put_entry 1 [100] 6 (put_entry 0 [97] 4 no_entries))"

definition d_dirs :: "fs_dirent list" where
  "d_dirs = put_entry 0 [98] 8 no_entries"

definition sample_map :: "byte list" where
  "sample_map = [0xFF, 0x07] @ replicate 4094 0"

definition sample :: disk where
  "sample = \<lparr>nblks = 1024, blk = (\<lambda>_. zero_block)
     (0 := encode_super \<lparr>magic = FS_MAGIC, disk_size = 1024, pad = replicate 4088 0\<rparr>,
      1 := sample_map,
      2 := encode_inode root_inode, 3 := encode_dirs root_dirs,
      4 := encode_inode a_inode, 5 := [104, 105, 10] @ replicate 4093 0,
      6 := encode_inode d_inode, 7 := encode_dirs d_dirs,
      8 := encode_inode b_inode,
      9 := encode_inode e_inode, 10 := encode_dirs no_entries),
   history = []\<rparr>"

definition sample_live :: "nat set" where
  "sample_live = {2, 4, 6, 8, 9}"

section \<open>It is consistent\<close>

lemma ok_inode_of: "length ps \<le> 1019 \<Longrightarrow> ok_inode (inode_of m sz ps)"
  by (simp add: ok_inode_def inode_of_def)

lemma ptr_inode_of: "k < length ps \<Longrightarrow> ptr (inode_of m sz ps) k = unat (ps ! k)"
  by (simp add: ptr_def inode_of_def nth_append)

lemma mode_bits [simp]: "S_ISDIR dir_mode" "\<not> S_ISDIR file_mode"
  by (simp_all add: S_ISDIR_def dir_mode_def file_mode_def)

lemma put_entry_ok:
  assumes "dir_ok ds" and "k < 128" and "\<not> valid (ds ! k)" and "ok_token t" and "length t \<le> 27"
    and "dir_map ds t = None" and "n < 2 ^ 31"
  shows "dir_ok (put_entry k t n ds)" and "dir_map (put_entry k t n ds) = (dir_map ds)(t \<mapsto> n)"
  unfolding put_entry_def using slot_add [OF assms refl] by simp_all

lemma put_entry_other: "j \<noteq> k \<Longrightarrow> put_entry k t n ds ! j = ds ! j"
  by (simp add: put_entry_def)

lemma no_entries_ok [simp]: "dir_ok no_entries" "dir_map no_entries = Map.empty" "k < 128 \<Longrightarrow> \<not> valid (no_entries ! k)"
  by (simp_all add: no_entries_def zero_dir_ok zero_dir_map zero_dirs)

lemma d_dirs_ok: "dir_ok d_dirs" "dir_map d_dirs = [[98] \<mapsto> 8]"
  unfolding d_dirs_def
  by (subst put_entry_ok; simp add: ok_token_def)+

lemma root_dirs_ok: "dir_ok root_dirs" "dir_map root_dirs = [[97] \<mapsto> 4, [100] \<mapsto> 6, [101] \<mapsto> 9]"
proof -
  have 1: "dir_ok (put_entry 0 [97] 4 no_entries)" "dir_map (put_entry 0 [97] 4 no_entries) = [[97] \<mapsto> 4]"
    by (subst put_entry_ok; simp add: ok_token_def)+
  have 2: "dir_ok (put_entry 1 [100] 6 (put_entry 0 [97] 4 no_entries))"
    "dir_map (put_entry 1 [100] 6 (put_entry 0 [97] 4 no_entries)) = [[97] \<mapsto> 4, [100] \<mapsto> 6]"
    using put_entry_ok [OF 1(1), of 1 "[100]" 6] by (simp_all add: ok_token_def put_entry_other 1(2))
  show "dir_ok root_dirs" "dir_map root_dirs = [[97] \<mapsto> 4, [100] \<mapsto> 6, [101] \<mapsto> 9]"
    using put_entry_ok [OF 2(1), of 2 "[101]" 9] by (simp_all add: root_dirs_def ok_token_def put_entry_other 2(2) del: One_nat_def)
qed

lemma sample_used: "i < 32768 \<Longrightarrow> used sample_map i \<longleftrightarrow> i < 11"
proof -
  assume i: "i < 32768"
  consider "i div 8 = 0" | "i div 8 = 1" | "2 \<le> i div 8" by linarith
  then show ?thesis
  proof cases
    case 1
    then have "i < 8" by simp
    then have "i \<in> {0, 1, 2, 3, 4, 5, 6, 7}" by auto
    then show ?thesis by (auto simp: used_bit sample_map_def)
  next
    case 2
    then have "8 \<le> i" and "i < 16" by auto
    then have "i \<in> {8, 9, 10, 11, 12, 13, 14, 15}" by auto
    then show ?thesis by (auto simp: used_bit sample_map_def)
  next
    case 3
    then have "sample_map ! (i div 8) = 0" using i by (simp add: sample_map_def nth_append)
    then show ?thesis using 3 by (simp add: used_bit)
  qed
qed

lemma sample_dirs_ok: "ok_dirs root_dirs" "ok_dirs d_dirs" "ok_dirs no_entries"
  using root_dirs_ok(1) d_dirs_ok(1) no_entries_ok(1) by (simp_all add: dir_ok_def)

lemma sample_mountable: "mountable sample"
proof -
  have "dmap sample = sample_map" by (simp add: dmap_def sample_def)
  then have "used (dmap sample) 2" using sample_used [of 2] by simp
  moreover have "wf_disk sample" and "3 \<le> nblks sample"
    by (auto simp: wf_disk_def sample_def sample_map_def root_inode_def a_inode_def d_inode_def
      b_inode_def e_inode_def ok_inode_of sample_dirs_ok super_codec.len_enc ok_super_def)
  ultimately show ?thesis by (simp only: mountable_def simp_thms)
qed

lemma sample_inodes [simp]:
  "inode_at sample 2 = root_inode" "inode_at sample 4 = a_inode" "inode_at sample 6 = d_inode"
  "inode_at sample 8 = b_inode" "inode_at sample 9 = e_inode"
  by (simp_all add: inode_at_def sample_def root_inode_def a_inode_def d_inode_def b_inode_def e_inode_def ok_inode_of)

lemma sample_fields [simp]:
  "mode root_inode = dir_mode" "mode a_inode = file_mode" "mode d_inode = dir_mode"
  "mode b_inode = file_mode" "mode e_inode = dir_mode"
  "size_i root_inode = 4096" "size_i a_inode = 3" "size_i d_inode = 4096" "size_i b_inode = 0" "size_i e_inode = 4096"
  "ptr root_inode 0 = 3" "ptr a_inode 0 = 5" "ptr d_inode 0 = 7" "ptr e_inode 0 = 10"
  by (simp_all add: root_inode_def a_inode_def d_inode_def b_inode_def e_inode_def ptr_inode_of)
     (simp_all add: inode_of_def)

lemma sample_dirs [simp]:
  "dirs_at sample root_inode = root_dirs" "dirs_at sample d_inode = d_dirs" "dirs_at sample e_inode = no_entries"
  by (simp_all add: dirs_at_def sample_def sample_dirs_ok)

lemma sample_data [simp]:
  "data_blocks root_inode = [3]" "data_blocks a_inode = [5]" "data_blocks d_inode = [7]"
  "data_blocks b_inode = []" "data_blocks e_inode = [10]"
  by (simp_all add: data_blocks_def nblocks_def fsize_def)

lemma sample_own [simp]:
  "own sample 2 = {2, 3}" "own sample 4 = {4, 5}" "own sample 6 = {6, 7}" "own sample 8 = {8}" "own sample 9 = {9, 10}"
  by (simp_all add: own_def)

lemma sample_free: "free_set sample = {11..<32768}"
proof -
  have "dmap sample = sample_map" by (simp add: dmap_def sample_def)
  then show ?thesis using sample_used by (auto simp: free_set_def)
qed

lemma sample_block_ok: "block_ok sample b \<longleftrightarrow> 2 \<le> b \<and> b < 11"
  by (auto simp: block_ok_def sample_free) (simp_all add: sample_def)

lemma sample_nodes: "n \<in> sample_live \<Longrightarrow> node_ok sample n"
  by (auto simp: sample_live_def node_ok_def sample_block_ok root_dirs_ok d_dirs_ok fsize_def)

lemma sample_super: "decode_super (blk sample 0) = \<lparr>magic = FS_MAGIC, disk_size = 1024, pad = replicate 4088 0\<rparr>"
  by (simp add: sample_def super_codec.dec_enc ok_super_def)

lemma sample_dmap: "dmap sample = sample_map"
  by (simp add: dmap_def sample_def)

definition sample_attrs :: "u32 \<Rightarrow> attrs" where
  "sample_attrs m = \<lparr>a_uid = 1000, a_gid = 100, a_mode = m, a_ctime = 7, a_mtime = 9\<rparr>"

lemma sample_views [simp]:
  "view sample 2 = ADir (sample_attrs dir_mode) 4096 [[97] \<mapsto> 4, [100] \<mapsto> 6, [101] \<mapsto> 9]"
  "view sample 4 = AFile (sample_attrs file_mode) [104, 105, 10]"
  "view sample 6 = ADir (sample_attrs dir_mode) 4096 [[98] \<mapsto> 8]"
  "view sample 8 = AFile (sample_attrs file_mode) []"
  "view sample 9 = ADir (sample_attrs dir_mode) 4096 Map.empty"
proof -
  have at: "attrs_of root_inode = sample_attrs dir_mode" "attrs_of a_inode = sample_attrs file_mode"
    "attrs_of d_inode = sample_attrs dir_mode" "attrs_of b_inode = sample_attrs file_mode"
    "attrs_of e_inode = sample_attrs dir_mode"
    by (simp_all add: attrs_of_def sample_attrs_def root_inode_def a_inode_def d_inode_def b_inode_def
        e_inode_def inode_of_def)
  have up: "[0..<3] = [0, 1, 2 :: nat]" by (simp add: upt_rec)
  have "blk sample 5 = [104, 105, 10] @ replicate 4093 0" by (simp add: sample_def)
  then have "content sample a_inode = [104, 105, 10]"
    by (simp add: content_def fsize_def fbyte_def up)
  moreover have "content sample b_inode = []" by (simp add: content_def fsize_def)
  ultimately show
    "view sample 2 = ADir (sample_attrs dir_mode) 4096 [[97] \<mapsto> 4, [100] \<mapsto> 6, [101] \<mapsto> 9]"
    "view sample 4 = AFile (sample_attrs file_mode) [104, 105, 10]"
    "view sample 6 = ADir (sample_attrs dir_mode) 4096 [[98] \<mapsto> 8]"
    "view sample 8 = AFile (sample_attrs file_mode) []"
    "view sample 9 = ADir (sample_attrs dir_mode) 4096 Map.empty"
    by (simp_all add: view_def Let_def at root_dirs_ok d_dirs_ok)
qed

lemma sample_absfs [simp]:
  "absfs sample_live sample = [2 \<mapsto> ADir (sample_attrs dir_mode) 4096 [[97] \<mapsto> 4, [100] \<mapsto> 6, [101] \<mapsto> 9],
     4 \<mapsto> AFile (sample_attrs file_mode) [104, 105, 10],
     6 \<mapsto> ADir (sample_attrs dir_mode) 4096 [[98] \<mapsto> 8],
     8 \<mapsto> AFile (sample_attrs file_mode) [],
     9 \<mapsto> ADir (sample_attrs dir_mode) 4096 Map.empty]"
  by (auto simp: absfs_def sample_live_def fun_eq_iff)

lemma sample_consistent: "consistent sample_live sample"
proof -
  have T: "tree_ok (absfs sample_live sample)"
    unfolding tree_ok_def sample_absfs by (auto split: if_splits)
  have "own sample n \<inter> own sample m = {}" if "n \<in> sample_live" "m \<in> sample_live" "n \<noteq> m" for n m
    using that by (auto simp: sample_live_def)
  with T show ?thesis by (simp add: consistent_def sample_mountable sample_nodes)
qed

definition sample_env :: env where
  "sample_env = \<lparr>now = 100, ctx_uid = 1, ctx_gid = 2, stack = (\<lambda>_. zero_block)\<rparr>"

lemma sample_env_ok [simp]: "wf_env sample_env" and sample_env_now [simp]: "now sample_env = 100"
  by (simp_all add: wf_env_def sample_env_def)

lemma sample_slots: "free_slot sample 2" "free_slot sample 6"
proof -
  have "\<not> valid (root_dirs ! 5)" "\<not> valid (d_dirs ! 5)"
    by (simp_all add: root_dirs_def d_dirs_def put_entry_other)
  moreover have "length root_dirs = 128" "length d_dirs = 128"
    using dir_okD(1) root_dirs_ok(1) d_dirs_ok(1) by auto
  ultimately show "free_slot sample 2" "free_slot sample 6"
    by (auto simp: free_slot_def list_ex_iff intro: nth_mem bexI [of _ "_ ! 5"])
qed

section \<open>The same tree with a full map\<close>

definition sample_full :: disk where
  "sample_full = put_block 1 (replicate 4096 0xFF) sample"

lemma full_used: "i < 32768 \<Longrightarrow> used (replicate 4096 0xFF) i"
proof -
  assume "i < 32768"
  then have "i div 8 < 4096" by linarith
  moreover have "i mod 8 \<in> {0, 1, 2, 3, 4, 5, 6, 7}" by auto
  ultimately show ?thesis by (auto simp: used_bit)
qed

lemma full_free: "free_set sample_full = {}"
  using full_used by (auto simp: free_set_def dmap_def sample_full_def)

lemma full_leaked: "consistent sample_live sample_full \<and> absfs sample_live sample_full = absfs sample_live sample"
proof -
  have n: "nblks sample = 1024" by (simp add: sample_def)
  have m: "mountable sample_full" using sample_mountable full_used [of 2] by (simp add: sample_full_def)
  have le: "nblks sample \<le> nblks sample_full" by (simp add: sample_full_def)
  have fr: "b \<noteq> 1 \<Longrightarrow> b < nblks sample \<Longrightarrow> blk sample_full b = blk sample b" for b
    by (simp add: sample_full_def blk_put_other)
  show ?thesis using leaked [OF sample_consistent m le fr] full_free by auto
qed

lemma full_consistent: "consistent sample_live sample_full" and full_absfs [simp]:
  "absfs sample_live sample_full = absfs sample_live sample"
  using full_leaked by simp_all

section \<open>The same tree on a disk of eleven blocks, all in use\<close>

definition sample_tight :: disk where
  "sample_tight = put_block 0 (encode_super \<lparr>magic = FS_MAGIC, disk_size = 11, pad = replicate 4088 0\<rparr>) sample"

lemma tight_super: "decode_super (blk sample_tight 0) = \<lparr>magic = FS_MAGIC, disk_size = 11, pad = replicate 4088 0\<rparr>"
  by (simp add: sample_tight_def super_codec.dec_enc ok_super_def)

lemma tight_free: "free_set sample_tight = {11..<32768}"
  using sample_free by (simp add: sample_tight_def free_set_put) (simp add: sample_def free_set_put)

lemma tight_same: "consistent sample_live sample_tight \<and> absfs sample_live sample_tight = absfs sample_live sample"
proof -
  have m: "mountable sample_tight"
    using sample_mountable by (simp add: sample_tight_def super_codec.len_enc ok_super_def)
  have le: "nblks sample \<le> nblks sample_tight" by (simp add: sample_tight_def)
  have fr: "2 \<le> b \<Longrightarrow> b < nblks sample \<Longrightarrow> blk sample_tight b = blk sample b" for b
    by (simp add: sample_tight_def blk_put_other)
  show ?thesis
    using same_objects [OF sample_consistent m le fr] tight_free sample_free by auto
qed

lemma tight_consistent: "consistent sample_live sample_tight" and tight_absfs [simp]:
  "absfs sample_live sample_tight = absfs sample_live sample"
  using tight_same by simp_all

lemma tight_slot: "free_slot sample_tight 2"
proof -
  have b: "blk sample_tight b = blk sample b" if "2 \<le> b" "b < 11" for b
    using that by (simp add: sample_tight_def blk_put_other) (simp add: sample_def blk_put_other)
  then have "inode_at sample_tight 2 = root_inode" and "dirs_at sample_tight root_inode = root_dirs"
    using sample_inodes(1) sample_dirs(1) by (simp_all add: inode_at_def dirs_at_def)
  then show ?thesis using sample_slots(1) by (simp add: free_slot_def)
qed

section \<open>Paths\<close>

lemma sample_paths [simp]:
  "ok_path [[97]]" "ok_path [[98]]" "ok_path [[99]]" "ok_path [[100]]" "ok_path [[101]]" "ok_path [[100], [98]]" "ok_path [[100], [99]]"
  "ok_path [[97], [98]]"
  by (simp_all add: ok_path_def ok_token_def mkpath_def)

lemma sample_mkpath:
  "mkpath [[97]] = [47, 97]" "mkpath [[98]] = [47, 98]" "mkpath [[99]] = [47, 99]" "mkpath [[100]] = [47, 100]" "mkpath [[101]] = [47, 101]"
  "mkpath [[100], [98]] = [47, 100, 47, 98]" "mkpath [[100], [99]] = [47, 100, 47, 99]"
  by (simp_all add: mkpath_def)

lemma long_name: "replicate 28 y \<noteq> [x]"
  by (auto dest: arg_cong [of _ _ length])

lemma canonical_mkpath: "ok_path toks \<Longrightarrow> canonical (mkpath toks)"
  using canonical_fuse [of toks] by (simp add: ok_fuse_def fuse_path_def ok_path_def)

lemma sample_canonical [simp]:
  "canonical [47, 97]" "canonical [47, 98]" "canonical [47, 99]" "canonical [47, 100]" "canonical [47, 101]"
  "canonical [47, 100, 47, 98]" "canonical [47, 100, 47, 99]"
  using canonical_mkpath [of "[[97]]"] canonical_mkpath [of "[[98]]"] canonical_mkpath [of "[[99]]"]
    canonical_mkpath [of "[[100]]"] canonical_mkpath [of "[[101]]"] canonical_mkpath [of "[[100], [98]]"]
    canonical_mkpath [of "[[100], [99]]"]
  by (simp_all add: sample_mkpath)

section \<open>A session and room to write\<close>

definition demo :: "(env \<times> request) list" where
  "demo = [(sample_env, Unlink [47, 97]), (sample_env, Create [47, 98] 0x1A4), (sample_env, Rmdir [47, 101])]"

lemma demo_good: "list_all good demo"
  by (simp add: demo_def good_def)

lemma sample_room [simp]: "room_for sample m n" if "n \<le> 4096 * 1019"
proof -
  have "(n + 4095) div 4096 \<le> (4096 * 1019 + 4095) div 4096" using that by (intro div_le_mono) simp
  then show ?thesis by (simp add: room_for_def blocks_for_def sample_free)
qed

section \<open>A directory without a free slot\<close>

definition crowd_entry :: "nat \<Rightarrow> fs_dirent" where
  "crowd_entry k = \<lparr>valid = True, inode = word_of_int (int (1000 + k)), name = word_of_nat (128 + k) # replicate 27 0\<rparr>"

definition crowd_dirs :: "fs_dirent list" where
  "crowd_dirs = map crowd_entry [0..<128]"

definition crowd_map :: "byte list" where
  "crowd_map = 0x0F # replicate 124 0 @ replicate 16 0xFF @ replicate 3955 0"

definition crowded :: disk where
  "crowded = \<lparr>nblks = 1200, blk = (\<lambda>b.
     if b = 1 then crowd_map else if b = 2 then encode_inode root_inode
     else if b = 3 then encode_dirs crowd_dirs
     else if 1000 \<le> b \<and> b < 1128 then encode_inode b_inode else zero_block), history = []\<rparr>"

definition crowd_live :: "nat set" where
  "crowd_live = insert 2 {1000..<1128}"

lemma crowd_byte:
  assumes "k < 128"
  shows "unat (word_of_nat (128 + k) :: byte) = 128 + k"
  using assms by (simp add: unsigned_of_nat take_bit_nat_eq_self del: of_nat_add of_nat_numeral)

lemma crowd_name:
  assumes "k < 128"
  shows "c_string (name (crowd_entry k)) = [word_of_nat (128 + k)]" and "ok_token [word_of_nat (128 + k)]"
    and "0 \<in> set (name (crowd_entry k))"
proof -
  have "unat (word_of_nat (128 + k) :: byte) \<noteq> unat (0 :: byte)"
    and "unat (word_of_nat (128 + k) :: byte) \<noteq> unat (0x2F :: byte)"
    unfolding crowd_byte [OF assms] by simp_all
  then have "(word_of_nat (128 + k) :: byte) \<noteq> 0" "(word_of_nat (128 + k) :: byte) \<noteq> 0x2F" by metis+
  then show "c_string (name (crowd_entry k)) = [word_of_nat (128 + k)]" and "ok_token [word_of_nat (128 + k)]"
    and "0 \<in> set (name (crowd_entry k))"
    by (simp_all add: crowd_entry_def c_string_def ok_token_def del: of_nat_add of_nat_numeral)
qed

lemma crowd_same: "j < 128 \<Longrightarrow> k < 128 \<Longrightarrow> (word_of_nat (128 + j) :: byte) = word_of_nat (128 + k) \<Longrightarrow> j = k"
  using crowd_byte by (metis add_left_cancel)

lemma crowd_dirs_ok: "dir_ok crowd_dirs"
proof (rule dir_okI)
  fix j k :: nat assume "j < 128" "k < 128"
    "c_string (name (crowd_dirs ! j)) = c_string (name (crowd_dirs ! k))"
  then show "j = k" using crowd_same [of j k] crowd_name(1) by (simp add: crowd_dirs_def)
qed (use crowd_name in \<open>simp_all add: crowd_dirs_def, simp_all add: crowd_entry_def\<close>)

lemma crowd_num: "k < 128 \<Longrightarrow> unat (inode (crowd_entry k)) = 1000 + k"
  by (simp add: crowd_entry_def unsigned_of_nat take_bit_nat_eq_self del: of_nat_add of_nat_numeral)

lemma crowd_child: "dir_map crowd_dirs t = Some n \<longleftrightarrow> (\<exists>k<128. t = [word_of_nat (128 + k)] \<and> n = 1000 + k)"
  unfolding dir_map_iff [OF crowd_dirs_ok]
  using crowd_name(1) crowd_num by (auto simp: crowd_dirs_def crowd_entry_def)

lemma crowd_map_used: "i < 32768 \<Longrightarrow> used crowd_map i \<longleftrightarrow> i < 4 \<or> 1000 \<le> i \<and> i < 1128"
proof -
  assume i: "i < 32768"
  have m8: "i mod 8 \<in> {0, 1, 2, 3, 4, 5, 6, 7}" by auto
  consider "i div 8 = 0" | "1 \<le> i div 8" "i div 8 < 125" | "125 \<le> i div 8" "i div 8 < 141" | "141 \<le> i div 8"
    by linarith
  then show ?thesis
  proof cases
    case 1
    then have "i \<in> {0, 1, 2, 3, 4, 5, 6, 7}" by auto
    then show ?thesis by (auto simp: used_bit crowd_map_def)
  next
    case 2
    then have "crowd_map ! (i div 8) = 0" by (simp add: crowd_map_def nth_append nth_Cons')
    moreover have "8 \<le> i" "i < 1000" using 2 by linarith+
    ultimately show ?thesis by (simp add: used_bit)
  next
    case 3
    then have "crowd_map ! (i div 8) = 0xFF" by (simp add: crowd_map_def nth_append nth_Cons') linarith
    moreover have "1000 \<le> i" "i < 1128" using 3 by linarith+
    ultimately show ?thesis using m8 by (auto simp: used_bit)
  next
    case 4
    then have "crowd_map ! (i div 8) = 0" using i by (simp add: crowd_map_def nth_append nth_Cons')
    moreover have "1128 \<le> i" using 4 by linarith
    ultimately show ?thesis by (simp add: used_bit)
  qed
qed

lemma crowd_free: "free_set crowded = {4..<1000} \<union> {1128..<32768}"
proof -
  have "dmap crowded = crowd_map" by (simp add: dmap_def crowded_def)
  then show ?thesis using crowd_map_used by (auto simp: free_set_def)
qed

lemma crowd_mountable: "mountable crowded"
proof -
  have "dmap crowded = crowd_map" by (simp add: dmap_def crowded_def)
  then have "used (dmap crowded) 2" using crowd_map_used [of 2] by simp
  moreover have "wf_disk crowded" and "3 \<le> nblks crowded"
    using crowd_dirs_ok
    by (auto simp: wf_disk_def crowded_def crowd_map_def root_inode_def b_inode_def ok_inode_of dir_ok_def)
  ultimately show ?thesis by (simp only: mountable_def simp_thms)
qed

lemma crowd_inodes: "inode_at crowded 2 = root_inode" "1000 \<le> n \<Longrightarrow> n < 1128 \<Longrightarrow> inode_at crowded n = b_inode"
  by (simp_all add: inode_at_def crowded_def root_inode_def b_inode_def ok_inode_of)

lemma crowd_own: "own crowded 2 = {2, 3}" "1000 \<le> n \<Longrightarrow> n < 1128 \<Longrightarrow> own crowded n = {n}"
  by (simp_all add: own_def crowd_inodes)

lemma crowd_root_dirs: "dirs_at crowded root_inode = crowd_dirs"
  using crowd_dirs_ok by (simp add: dirs_at_def crowded_def dir_ok_def)

lemma crowd_nodes: "n \<in> crowd_live \<Longrightarrow> node_ok crowded n"
proof -
  have "nblks crowded = 1200" by (simp add: crowded_def)
  then show "n \<in> crowd_live \<Longrightarrow> node_ok crowded n"
    by (auto simp: crowd_live_def node_ok_def crowd_inodes crowd_own block_ok_def crowd_free crowd_root_dirs
        crowd_dirs_ok fsize_def)
qed

lemma crowd_views:
  "view crowded 2 = ADir (sample_attrs dir_mode) 4096 (dir_map crowd_dirs)"
  "1000 \<le> n \<Longrightarrow> n < 1128 \<Longrightarrow> view crowded n = AFile (sample_attrs file_mode) []"
proof -
  have "attrs_of root_inode = sample_attrs dir_mode" "attrs_of b_inode = sample_attrs file_mode"
    by (simp_all add: attrs_of_def sample_attrs_def root_inode_def b_inode_def inode_of_def)
  then show "view crowded 2 = ADir (sample_attrs dir_mode) 4096 (dir_map crowd_dirs)"
    "1000 \<le> n \<Longrightarrow> n < 1128 \<Longrightarrow> view crowded n = AFile (sample_attrs file_mode) []"
    by (simp_all add: view_def Let_def crowd_inodes crowd_root_dirs content_def fsize_def)
qed

lemma crowd_children:
  "children (absfs crowd_live crowded p) t = Some n \<longleftrightarrow> p = 2 \<and> (\<exists>k<128. t = [word_of_nat (128 + k)] \<and> n = 1000 + k)"
proof -
  have "p = 2 \<or> 1000 \<le> p \<and> p < 1128 \<or> p \<notin> crowd_live" by (auto simp: crowd_live_def)
  then show ?thesis
    by (auto simp: crowd_live_def crowd_views crowd_child simp del: of_nat_add of_nat_numeral)
qed

lemma crowd_tree: "tree_ok (absfs crowd_live crowded)"
  unfolding tree_ok_def
proof (intro conjI allI impI)
  show "is_adir (absfs crowd_live crowded 2)" by (simp add: crowd_live_def crowd_views)
next
  fix p t n assume "children (absfs crowd_live crowded p) t = Some n"
  then have "1000 \<le> n \<and> n < 1128" by (auto simp: crowd_children)
  then show "n \<noteq> 2" and "absfs crowd_live crowded n \<noteq> None"
    by (auto simp: crowd_live_def)
next
  fix p q t u n assume "children (absfs crowd_live crowded p) t = Some n" "children (absfs crowd_live crowded q) u = Some n"
  then show "p = q" and "t = u" by (auto simp: crowd_children)
qed

lemma crowd_consistent: "consistent crowd_live crowded"
proof -
  have "own crowded n \<inter> own crowded m = {}" if "n \<in> crowd_live" "m \<in> crowd_live" "n \<noteq> m" for n m
    using that by (auto simp: crowd_live_def crowd_own)
  then show ?thesis by (simp add: consistent_def crowd_mountable crowd_nodes crowd_tree)
qed

lemma crowd_no_slot: "\<not> free_slot crowded 2"
  by (simp add: free_slot_def crowd_inodes crowd_root_dirs crowd_dirs_def crowd_entry_def list_ex_iff)

lemma crowd_missing: "children (absfs crowd_live crowded 2) [97] = None"
proof -
  have "children (absfs crowd_live crowded 2) [97] \<noteq> Some n" for n
  proof
    assume "children (absfs crowd_live crowded 2) [97] = Some n"
    then obtain k where "k < 128" "(97 :: byte) = word_of_nat (128 + k)" by (auto simp: crowd_children)
    then have "unat (97 :: byte) = 128 + k" using crowd_byte by metis
    then show False by simp
  qed
  then show ?thesis by (cases "children (absfs crowd_live crowded 2) [97]") auto
qed

lemma crowd_lookup: "alookup (absfs crowd_live crowded) 2 [[97]] = None"
  using crowd_missing by simp

lemma crowd_root: "is_adir (absfs crowd_live crowded 2)"
  by (simp add: crowd_live_def crowd_views)

end
