(* ===== verification/Further.thy ===== *)
theory Further
  imports Scenario Sample
begin

text \<open>
  Further theorems on single operations, each applied on a sample disk: what later lookups see
  of a change, and the early returns with their codes.
\<close>

text \<open>
  The result of rename as later lookups see it: the new path has the old inode number, the
  old path names nothing.
\<close>

theorem lookup_after_rename:
  assumes "consistent N d" and "ok_path src" and "ok_path dst"
    and "rename_error (absfs N d) src dst = None" and "length (last dst) \<le> 27"
    and "alookup (absfs N d) 2 src = Some n"
  shows "\<exists>d'. fs_rename (mkpath src) (mkpath dst) d = (Inr 0, d')
    \<and> path2inum (mkpath dst) d' = (Inr (int n), d') \<and> fst (path2inum (mkpath src) d') \<in> {Inr (- ENOENT), Inr (- ENOTDIR)}"
  using assms by (rule rename_lookup)

theorem lookup_after_rename_witness:
  "\<exists>d'. fs_rename (mkpath [[97]]) (mkpath [[99]]) sample = (Inr 0, d')
    \<and> path2inum (mkpath [[99]]) d' = (Inr 4, d') \<and> fst (path2inum (mkpath [[97]]) d') \<in> {Inr (- 2), Inr (- 20)}"
  using lookup_after_rename [OF sample_consistent, of "[[97]]" "[[99]]" 4]
  by (simp add: rename_error_def)

text \<open>
  A file just created is found under its path, reads as empty, and \<open>fs_getattr\<close> reports
  size 0, the masked mode and the caller's ids.
\<close>

theorem created_file_is_visible:
  assumes "consistent N d" and "ok_path toks"
    and "new_error (absfs N d) toks = None" and "alookup (absfs N d) 2 (butlast toks) = Some p"
    and "free_set d \<noteq> {}" and "free_slot d p"
  shows "\<exists>d' x. fs_create e (mkpath toks) m d = (Inr 0, d') \<and> x = Min (free_set d)
    \<and> path2inum (mkpath toks) d' = (Inr (int x), d')
    \<and> fs_read e' (mkpath toks) len off d' = (Inr (0, []), d')
    \<and> fs_getattr (mkpath toks) sb d' = (Inr (0, ostat x (AFile (new_attrs e m (push_bit 15 1)) [])), d')"
  using assms by (rule create_lookup)

theorem created_file_is_visible_witness:
  "\<exists>d' x. fs_create sample_env (mkpath [[99]]) 0x1A4 sample = (Inr 0, d') \<and> x = Min (free_set sample)
    \<and> path2inum (mkpath [[99]]) d' = (Inr (int x), d')
    \<and> fs_read sample_env (mkpath [[99]]) 10 0 d' = (Inr (0, []), d')
    \<and> fs_getattr (mkpath [[99]]) (inode2stat root_inode 2) d' =
        (Inr (0, ostat x (AFile (new_attrs sample_env 0x1A4 (push_bit 15 1)) [])), d')"
  using created_file_is_visible [OF sample_consistent, of "[[99]]" 2 sample_env "0x1A4" sample_env 10 0 "inode2stat root_inode 2"]
  by (simp add: new_error_def sample_free sample_slots)

text \<open>
  A file just unlinked is gone: its blocks are free again, and \<open>fs_getattr\<close> of its path
  fails, with \<open>-ENOENT\<close> in the root directory and with \<open>-ENOTDIR\<close> below it.
\<close>

theorem unlinked_file_is_gone:
  assumes "consistent N d" and "ok_path toks"
    and "alookup (absfs N d) 2 toks = Some n" and "absfs N d n = Some (AFile a c)"
  shows "\<exists>d'. fs_unlink e (mkpath toks) d = (Inr 0, d') \<and> own d n \<subseteq> free_set d'
    \<and> fs_getattr (mkpath toks) sb d' = (Inr (if 1 < length toks then - ENOTDIR else - ENOENT, sb), d')"
  using assms by (rule unlink_lookup)

theorem unlinked_file_is_gone_witness:
  "\<exists>d'. fs_unlink sample_env (mkpath [[100], [98]]) sample = (Inr 0, d') \<and> own sample 8 \<subseteq> free_set d'
    \<and> fs_getattr (mkpath [[100], [98]]) (inode2stat root_inode 2) d' = (Inr (- 20, inode2stat root_inode 2), d')"
  using unlinked_file_is_gone [OF sample_consistent, of "[[100], [98]]" 8 "sample_attrs file_mode" "[]" sample_env
      "inode2stat root_inode 2"]
  by simp

text \<open>
  \<open>fs_chmod\<close> replaces the lower twelve bits of the mode of a file or directory and keeps
  its type and everything else.
\<close>

theorem chmod_sets_permissions:
  assumes "consistent N d" and "ok_fuse toks" and "alookup (absfs N d) 2 toks = Some n"
  shows "\<exists>d'. fs_chmod e (fuse_path toks) m d = (Inr 0, d') \<and> consistent N d'
    \<and> absfs N d' = a_attrs n (chmod_bits m) (absfs N d) \<and> free_set d' = free_set d"
  using assms by (rule fs_chmod_run)

theorem chmod_sets_permissions_witness:
  "\<exists>d'. fs_chmod sample_env (fuse_path []) 0x1C0 sample = (Inr 0, d') \<and> consistent sample_live d'
    \<and> absfs sample_live d' = a_attrs 2 (chmod_bits 0x1C0) (absfs sample_live sample) \<and> free_set d' = free_set sample"
  using chmod_sets_permissions [OF sample_consistent, of "[]" 2 sample_env "0x1C0"]
  by (simp add: ok_fuse_def)

text \<open>
  \<open>fs_utime\<close> of a file sets its modification time, to the time given or to the clock,
  and nothing else.
\<close>

theorem utime_sets_mtime:
  assumes "consistent N d" and "ok_path toks" and "alookup (absfs N d) 2 toks = Some n"
    and "absfs N d n = Some (AFile a c)"
  shows "\<exists>d'. fs_utime e (mkpath toks) ut d = (Inr 0, d') \<and> consistent N d'
    \<and> absfs N d' = (absfs N d)(n \<mapsto> AFile (a\<lparr>a_mtime := utime_value e ut\<rparr>) c) \<and> free_set d' = free_set d"
  using assms by (rule fs_utime_run)

theorem utime_sets_mtime_witness:
  "\<exists>d'. fs_utime sample_env (mkpath [[97]]) (Some 55) sample = (Inr 0, d') \<and> consistent sample_live d'
    \<and> absfs sample_live d' = (absfs sample_live sample)
        (4 \<mapsto> AFile ((sample_attrs file_mode)\<lparr>a_mtime := 55\<rparr>) [104, 105, 10]) \<and> free_set d' = free_set sample"
  using utime_sets_mtime [OF sample_consistent, of "[[97]]" 4 "sample_attrs file_mode" "[104, 105, 10]" sample_env "Some 55"]
  by (simp add: utime_value_def)

text \<open>
  \<open>fs_statfs\<close> on a disk whose map marks no block past the end: block size, name length,
  the number of blocks without superblock and map, and the number of unmarked ones.
\<close>

theorem statfs_counts:
  assumes "mountable d" and "Dn = unat (disk_size (decode_super (blk d 0)))"
    and "2 \<le> Dn" and "Dn \<le> 32768" and "\<And>i. Dn \<le> i \<Longrightarrow> i < 32768 \<Longrightarrow> \<not> used (dmap d) i"
  shows "\<exists>st. fs_statfs path st0 d = (Inr (0, st), d) \<and> f_bsize st = 4096 \<and> f_namemax st = 27
    \<and> unat (f_blocks st) = Dn - 2 \<and> unat (f_bfree st) = card (unused d) \<and> f_bavail st = f_bfree st"
  using assms by (rule fs_statfs_run)

theorem statfs_counts_witness:
  "\<exists>st. fs_statfs [47] \<lparr>f_bsize = 0, f_namemax = 0, f_blocks = 0, f_bfree = 0, f_bavail = 0\<rparr> sample = (Inr (0, st), sample)
    \<and> f_bsize st = 4096 \<and> f_namemax st = 27
    \<and> unat (f_blocks st) = 1022 \<and> unat (f_bfree st) = 1013 \<and> f_bavail st = f_bfree st"
proof -
  have "unused sample = {11..<1024}"
    using sample_used by (auto simp: unused_def sample_super sample_dmap)
  then show ?thesis
    using statfs_counts [OF sample_mountable, of 1024 "[47]" "\<lparr>f_bsize = 0, f_namemax = 0, f_blocks = 0, f_bfree = 0, f_bavail = 0\<rparr>"]
      sample_used by (simp add: sample_super sample_dmap)
qed

text \<open>
  \<open>fs_init\<close> returns if the superblock has the magic number, and exits with status 1
  otherwise; the disk stays as it is.
\<close>

theorem init_checks_magic:
  assumes "mountable d"
  shows "fs_init d = (if magic (decode_super (blk d 0)) = FS_MAGIC then (Inr (), d) else (Inl (Exit 1), d))"
  using assms by (rule fs_init_run)

theorem init_checks_magic_witness: "fs_init sample = (Inr (), sample)"
  using init_checks_magic [OF sample_mountable] by (simp add: sample_super)

text \<open>
  Init, statfs, getattr, readdir and read change no disk, also when the disk is not consistent and
  the path is arbitrary.
\<close>

theorem reading_requests_keep_disk:
  assumes "reading r"
  shows "snd (fs_ops e r d) = d"
  using assms by (rule reading_same)

theorem reading_requests_keep_disk_witness:
  "snd (fs_ops sample_env (Read [1, 2, 3] 10 0) sample_full) = sample_full"
  by (rule reading_requests_keep_disk) simp

text \<open>
  \<open>free_blk\<close> undoes \<open>alloc_blk\<close>: after an allocation, freeing the block restores the map,
  and with it the image: only the history of writes is longer.
\<close>

theorem free_undoes_alloc:
  assumes "mountable d" and "free_set d \<noteq> {}"
  shows "\<exists>h. andThen (alloc_blk e) (free_blk e) d = (Inr (), d\<lparr>history := h\<rparr>)"
  using assms by (rule alloc_free)

theorem free_undoes_alloc_witness:
  "\<exists>h. andThen (alloc_blk sample_env) (free_blk sample_env) sample = (Inr (), sample\<lparr>history := h\<rparr>)"
  by (rule free_undoes_alloc [OF sample_mountable]) (simp add: sample_free)

text \<open>
  Tokenising: the \<open>strtok\<close> loop takes a canonical path, with or without a separator at the
  end, apart into its components, and the path cut at the computed length has all but the last.
\<close>

theorem paths_are_taken_apart:
  assumes "ok_path toks"
  shows "tokenise (tl (mkpath toks)) = toks \<and> tokenise (tl (mkpath toks @ [slash])) = toks
    \<and> tokenise (tl (parent_path (mkpath toks) toks)) = butlast toks"
  using assms by (rule path_tokens)

theorem paths_are_taken_apart_witness:
  "tokenise [100, 47, 98] = [[100], [98]] \<and> tokenise [100, 47, 98, 47] = [[100], [98]] \<and> tokenise [100, 47] = [[100]]"
  using paths_are_taken_apart [of "[[100], [98]]"]
  by (simp add: mkpath_def parent_path_def parent_len_def)

text \<open>
  On a path that names nothing, read, write, truncate and utime return the code of the
  walk, \<open>-ENOENT\<close> or \<open>-ENOTDIR\<close>, chmod and readdir return \<open>-ENOENT\<close>; nothing changes.
\<close>

theorem missing_paths_are_reported:
  assumes "consistent N d" and "ok_path toks" and "alookup (absfs N d) 2 toks = None"
  shows "path_error (absfs N d) toks \<in> {- ENOENT, - ENOTDIR}
    \<and> fs_read e (mkpath toks) len off d = (Inr (path_error (absfs N d) toks, []), d)
    \<and> fs_write e (mkpath toks) buf off d = (Inr (path_error (absfs N d) toks), d)
    \<and> fs_truncate e (mkpath toks) 0 d = (Inr (path_error (absfs N d) toks), d)
    \<and> fs_utime e (mkpath toks) ut d = (Inr (path_error (absfs N d) toks), d)
    \<and> fs_chmod e (mkpath toks) m d = (Inr (- ENOENT), d)
    \<and> fs_readdir (mkpath toks) d = (Inr (- ENOENT, []), d)"
  using missing_codes [OF assms] readdir_missing_path [OF assms] path_error_cases [OF assms(3)] by simp

theorem missing_paths_are_reported_witness:
  "fs_read sample_env (mkpath [[97], [98]]) 1 0 sample = (Inr (path_error (absfs sample_live sample) [[97], [98]], []), sample)
   \<and> fs_chmod sample_env (mkpath [[97], [98]]) 0 sample = (Inr (- 2), sample)"
  using missing_paths_are_reported [OF sample_consistent, of "[[97], [98]]" sample_env 1 0 "[]" None 0] by simp

text \<open>
  Read, write, truncate and utime of a directory return \<open>-EISDIR\<close>, and so does unlink;
  nothing changes.
\<close>

theorem directories_are_no_files:
  assumes "consistent N d" and "ok_path toks"
    and "alookup (absfs N d) 2 toks = Some n" and "absfs N d n = Some (ADir a s m)"
  shows "fs_read e (mkpath toks) len off d = (Inr (- EISDIR, []), d)
    \<and> fs_write e (mkpath toks) buf off d = (Inr (- EISDIR), d)
    \<and> fs_truncate e (mkpath toks) 0 d = (Inr (- EISDIR), d)
    \<and> fs_utime e (mkpath toks) ut d = (Inr (- EISDIR), d)
    \<and> fs_unlink e (mkpath toks) d = (Inr (- EISDIR), d)"
  using dir_codes [OF assms] fs_unlink_dir [OF assms] by simp

theorem directories_are_no_files_witness:
  "fs_write sample_env (mkpath [[100]]) [1] 0 sample = (Inr (- 21), sample)
   \<and> fs_unlink sample_env (mkpath [[100]]) sample = (Inr (- 21), sample)"
  using directories_are_no_files [OF sample_consistent, of "[[100]]" 6 "sample_attrs dir_mode" 4096 "[[98] \<mapsto> 8]"
      sample_env 1 0 "[1]" None] by simp

text \<open>
  \<open>fs_rmdir\<close> refuses a directory with entries with \<open>-ENOTEMPTY\<close>, and the disk does not
  change.
\<close>

theorem rmdir_keeps_nonempty:
  assumes "consistent N d" and "ok_path toks"
    and "alookup (absfs N d) 2 toks = Some n" and "absfs N d n = Some (ADir a s m)" and "m \<noteq> Map.empty"
  shows "fs_rmdir e (mkpath toks) d = (Inr (- ENOTEMPTY), d)"
  using assms by (rule fs_rmdir_full)

theorem rmdir_keeps_nonempty_witness:
  "fs_rmdir sample_env (mkpath [[100]]) sample = (Inr (- 39), sample)"
  by (rule rmdir_keeps_nonempty [OF sample_consistent, of _ 6 "sample_attrs dir_mode" 4096 "[[98] \<mapsto> 8]"]) simp_all

text \<open>
  create and mkdir check, in this order: the object exists, the name is longer than 27
  bytes, the parent is missing, the parent is no directory; the first that applies gives
  the return code, and nothing changes.
\<close>

theorem new_object_checks:
  assumes "consistent N d" and "ok_path toks" and "new_error (absfs N d) toks = Some code"
  shows "fs_create e (mkpath toks) m d = (Inr code, d) \<and> fs_mkdir e (mkpath toks) m d = (Inr code, d)"
  using new_codes [OF assms] by simp

theorem new_object_checks_witness:
  "fs_create sample_env (mkpath [[97], [98]]) 0 sample = (Inr (- 20), sample)
   \<and> fs_mkdir sample_env (mkpath [[97], [98]]) 0 sample = (Inr (- 20), sample)"
  by (rule new_object_checks [OF sample_consistent]) (simp_all add: new_error_def)

text \<open>
  rename checks, in this order: the source is missing, the target exists, the paths differ
  before the last component; the first that applies gives the return code, and nothing changes.
\<close>

theorem rename_order_of_checks:
  assumes "consistent N d" and "ok_path src" and "ok_path dst" and "rename_error (absfs N d) src dst = Some code"
  shows "fs_rename (mkpath src) (mkpath dst) d = (Inr code, d)"
  using assms by (rule rename_checks)

theorem rename_order_of_checks_witness:
  "fs_rename (mkpath [[97]]) (mkpath [[100], [99]]) sample = (Inr (- 22), sample)"
  by (rule rename_order_of_checks [OF sample_consistent]) (simp_all add: rename_error_def)

text \<open>
  A write past the end of the file writes nothing and returns 0, and one past the last
  pointer returns \<open>-ENOSPC\<close>; nothing changes.
\<close>

theorem write_range_checks:
  assumes "consistent N d" and "ok_path toks"
    and "alookup (absfs N d) 2 toks = Some n" and "absfs N d n = Some (AFile a c)"
  shows "(length c < off \<longrightarrow> fs_write e (mkpath toks) buf off d = (Inr 0, d))
    \<and> (off \<le> length c \<longrightarrow> 4096 * 1019 < off + length buf \<longrightarrow> fs_write e (mkpath toks) buf off d = (Inr (- ENOSPC), d))"
  using write_range [OF assms] by simp

theorem write_range_checks_witness:
  "fs_write sample_env (mkpath [[97]]) [1] 4 sample = (Inr 0, sample)
   \<and> fs_write sample_env (mkpath [[97]]) (replicate 4200000 0) 0 sample = (Inr (- 28), sample)"
  using write_range_checks [OF sample_consistent, of "[[97]]" 4 "sample_attrs file_mode" "[104, 105, 10]" 4 sample_env "[1]"]
    write_range_checks [OF sample_consistent, of "[[97]]" 4 "sample_attrs file_mode" "[104, 105, 10]" 0 sample_env "replicate 4200000 0"]
  by simp

text \<open>
  The assertion \<open>lba > 0\<close> of \<open>block_write\<close> does not protect the superblock: with the
  wrapped product of 32-bit integers, block number \<open>2 ^ 20\<close> is written to block 0. Block numbers
  in the range of the image go where they should, zero and negative ones abort.
\<close>

theorem block_write_addresses:
  "block_write buf (2 ^ 20) d = (Inr 0, put_block 0 buf d)
   \<and> (0 < n \<longrightarrow> n < 2 ^ 19 - 1 \<longrightarrow> block_write buf (int n) d = (Inr 0, put_block n buf d))
   \<and> (l \<le> 0 \<longrightarrow> block_write buf l d = (Inl Abort, d))"
  using block_write_alias by (simp add: block_write_in_range block_write_nonpos)

theorem block_write_addresses_witness:
  "block_write zero_block 1048576 sample = (Inr 0, put_block 0 zero_block sample)
   \<and> block_write zero_block 5 sample = (Inr 0, put_block 5 zero_block sample)
   \<and> block_write zero_block 0 sample = (Inl Abort, sample)"
  using block_write_addresses [of zero_block sample 5 0] by simp

end
