(* ===== verification/PathTree.thy ===== *)
theory PathTree
  imports Scenario
begin

text \<open>
  The file system as its users see it: a tree of paths. A state has the objects by path
  (directories with their attributes and the names in their slots, files with their bytes),
  the number of free blocks and the superblock; inode and block numbers are gone.
  \<open>fsys_of N d\<close> is the state a disk stands for, and \<open>tree_ops\<close> is the operations
  vector on such states, all outcomes included. This theory has the states and the
  operations, and what the changes of the inode map do to paths.
\<close>

section \<open>States\<close>

datatype node = Dir attrs int "cstring option list" | File attrs "byte list"

type_synonym ptree = "cstring list \<Rightarrow> node option"

record fsys =
  nodes :: ptree
  room :: nat
  super :: fs_super

definition node_at :: "disk \<Rightarrow> nat \<Rightarrow> node" where
  "node_at d n = (case view d n of ADir a s m \<Rightarrow> Dir a s (slots d n) | AFile a c \<Rightarrow> File a c)"

definition tree_of :: "nat set \<Rightarrow> disk \<Rightarrow> ptree" where
  "tree_of N d toks = map_option (node_at d) (alookup (absfs N d) 2 toks)"

definition fsys_of :: "nat set \<Rightarrow> disk \<Rightarrow> fsys" where
  "fsys_of N d = \<lparr>nodes = tree_of N d, room = card (free_set d), super = decode_super (blk d 0)\<rparr>"

fun is_dir :: "node \<Rightarrow> bool" where
  "is_dir (Dir a s xs) = True"
| "is_dir (File a c) = False"

definition entries :: "cstring option list \<Rightarrow> cstring list" where
  "entries xs = map the (filter (\<lambda>x. x \<noteq> None) xs)"

section \<open>The operations on trees\<close>

text \<open>The return code of a path that names nothing.\<close>

fun t_walk :: "ptree \<Rightarrow> bool \<Rightarrow> cstring list \<Rightarrow> cstring list \<Rightarrow> int" where
  "t_walk T multi us [] = 0"
| "t_walk T multi us (t # ts) =
     (case T (us @ [t]) of
        None \<Rightarrow>
          (if 27 < length t then (if ts \<noteq> [] then - ENOTDIR else - ENOENT)
           else if multi \<and> ts = [] then - ENOTDIR else - ENOENT)
      | Some nd \<Rightarrow>
          if ts = [] then 0 else if is_dir nd then t_walk T multi (us @ [t]) ts else - ENOTDIR)"

definition t_error :: "ptree \<Rightarrow> cstring list \<Rightarrow> int" where
  "t_error T toks = t_walk T (1 < length toks) [] toks"

definition t_new_error :: "ptree \<Rightarrow> cstring list \<Rightarrow> int option" where
  "t_new_error T toks =
     (if T toks \<noteq> None then Some (- EEXIST)
      else if 27 < length (last toks) then Some (- EINVAL)
      else case T (butlast toks) of
        None \<Rightarrow> Some (- ENOENT)
      | Some nd \<Rightarrow> if is_dir nd then None else Some (- ENOTDIR))"

definition t_del_error :: "ptree \<Rightarrow> cstring list \<Rightarrow> int option" where
  "t_del_error T toks =
     (case T (butlast toks) of
        None \<Rightarrow> Some (- ENOENT)
      | Some nd \<Rightarrow>
          if \<not> is_dir nd then Some (- ENOTDIR)
          else if T toks = None then Some (- ENOENT) else None)"

definition t_rename_error :: "ptree \<Rightarrow> cstring list \<Rightarrow> cstring list \<Rightarrow> int option" where
  "t_rename_error T src dst =
     (if T src = None then Some (if t_error T src = - ENOTDIR then - EINVAL else - ENOENT)
      else if T dst \<noteq> None then Some (- EEXIST)
      else if length dst \<noteq> length src \<or> butlast src \<noteq> butlast dst then Some (- EINVAL)
      else None)"

text \<open>What \<open>stat\<close> shows, the inode number apart.\<close>

definition node_attrs :: "node \<Rightarrow> attrs" where
  "node_attrs nd = (case nd of Dir a s xs \<Rightarrow> a | File a c \<Rightarrow> a)"

definition node_size :: "node \<Rightarrow> int" where
  "node_size nd = (case nd of Dir a s xs \<Rightarrow> s | File a c \<Rightarrow> int (length c))"

definition node_stat :: "node \<Rightarrow> stat" where
  "node_stat nd =
     \<lparr>st_ino = 0, st_mode = a_mode (node_attrs nd), st_nlink = 1, st_uid = a_uid (node_attrs nd),
      st_gid = a_gid (node_attrs nd), st_size = node_size nd,
      st_blocks = (if is_dir nd then 1 else (node_size nd + 4095) div 4096),
      st_atim = a_ctime (node_attrs nd), st_mtim = a_mtime (node_attrs nd), st_ctim = a_ctime (node_attrs nd)\<rparr>"

fun with_attrs :: "(attrs \<Rightarrow> attrs) \<Rightarrow> node \<Rightarrow> node" where
  "with_attrs f (Dir a s xs) = Dir (f a) s xs"
| "with_attrs f (File a c) = File (f a) c"

fun with_slots :: "(cstring option list \<Rightarrow> cstring option list) \<Rightarrow> node \<Rightarrow> node" where
  "with_slots f (Dir a s xs) = Dir a s (f xs)"
| "with_slots f (File a c) = File a c"

fun has_slot :: "node \<Rightarrow> bool" where
  "has_slot (Dir a s xs) = (None \<in> set xs)"
| "has_slot (File a c) = False"

text \<open>Changes of the tree: a new leaf, a leaf removed, a subtree under another last name.\<close>

definition t_link :: "cstring list \<Rightarrow> node \<Rightarrow> ptree \<Rightarrow> ptree" where
  "t_link toks nd T =
     T(butlast toks := map_option (with_slots (enter (last toks))) (T (butlast toks)), toks \<mapsto> nd)"

definition t_remove :: "cstring list \<Rightarrow> u32 \<Rightarrow> ptree \<Rightarrow> ptree" where
  "t_remove toks w T =
     T(butlast toks := map_option (with_attrs (\<lambda>a. a\<lparr>a_mtime := w\<rparr>) \<circ> with_slots (erase (last toks))) (T (butlast toks)),
       toks := None)"

definition t_move :: "cstring list \<Rightarrow> cstring list \<Rightarrow> ptree \<Rightarrow> ptree" where
  "t_move src dst T = (\<lambda>us.
     if take (length dst) us = dst then T (src @ drop (length dst) us)
     else if take (length src) us = src then None
     else if us = butlast src then map_option (with_slots (relabel (last src) (last dst))) (T us)
     else T us)"

section \<open>The vector on trees\<close>

definition comps :: "cstring \<Rightarrow> cstring list" where
  "comps p = tokenise (tl p)"

definition t_statfs :: "statvfs \<Rightarrow> fsys \<Rightarrow> statvfs" where
  "t_statfs st S =
     (let blocks = ucast (disk_size (super S) - 2) :: 64 word; free = blocks - of_nat (32766 - room S)
      in st\<lparr>f_bsize := 4096, f_namemax := 27, f_blocks := blocks, f_bfree := free, f_bavail := free\<rparr>)"

definition t_new :: "cstring list \<Rightarrow> node \<Rightarrow> nat \<Rightarrow> (fsys, int) io" where
  "t_new toks nd need S =
     (case t_new_error (nodes S) toks of
        Some code \<Rightarrow> ret code S
      | None \<Rightarrow>
          if room S < need then halt Abort (S\<lparr>room := 0\<rparr>)
          else if \<not> has_slot (the (nodes S (butlast toks))) then ret (- EINVAL) (S\<lparr>room := room S - need\<rparr>)
          else ret 0 (S\<lparr>nodes := t_link toks nd (nodes S), room := room S - need\<rparr>))"

definition t_unlink :: "env \<Rightarrow> cstring list \<Rightarrow> (fsys, int) io" where
  "t_unlink e toks S =
     (case t_del_error (nodes S) toks of
        Some code \<Rightarrow> ret code S
      | None \<Rightarrow> (case the (nodes S toks) of
          Dir a s xs \<Rightarrow> ret (- EISDIR) S
        | File a c \<Rightarrow> ret 0 (S\<lparr>nodes := t_remove toks (now e) (nodes S), room := room S + 1 + blocks_for (length c)\<rparr>)))"

definition t_rmdir :: "env \<Rightarrow> cstring list \<Rightarrow> (fsys, int) io" where
  "t_rmdir e toks S =
     (case t_del_error (nodes S) toks of
        Some code \<Rightarrow> ret code S
      | None \<Rightarrow> (case the (nodes S toks) of
          File a c \<Rightarrow> ret (- ENOTDIR) S
        | Dir a s xs \<Rightarrow>
            if entries xs \<noteq> [] then ret (- ENOTEMPTY) S
            else ret 0 (S\<lparr>nodes := t_remove toks (now e) (nodes S), room := room S + 2\<rparr>)))"

definition t_rename :: "cstring list \<Rightarrow> cstring list \<Rightarrow> (fsys, int) io" where
  "t_rename src dst S =
     (case t_rename_error (nodes S) src dst of
        Some code \<Rightarrow> ret code S
      | None \<Rightarrow> if 27 < length (last dst) then halt Undef S
                else ret 0 (S\<lparr>nodes := t_move src dst (nodes S)\<rparr>))"

definition t_read :: "cstring list \<Rightarrow> nat \<Rightarrow> nat \<Rightarrow> (fsys, int \<times> byte list) io" where
  "t_read toks len off S =
     (case nodes S toks of
        None \<Rightarrow> ret (t_error (nodes S) toks, []) S
      | Some (Dir a s xs) \<Rightarrow> ret (- EISDIR, []) S
      | Some (File a c) \<Rightarrow> (let bs = take len (drop off c) in ret (int (length bs), bs) S))"

definition t_write :: "env \<Rightarrow> cstring list \<Rightarrow> byte list \<Rightarrow> nat \<Rightarrow> (fsys, int) io" where
  "t_write e toks buf off S =
     (case nodes S toks of
        None \<Rightarrow> ret (t_error (nodes S) toks) S
      | Some (Dir a s xs) \<Rightarrow> ret (- EISDIR) S
      | Some (File a c) \<Rightarrow>
          if length c < off then ret 0 S
          else if 4096 * 1019 < off + length buf then ret (- ENOSPC) S
          else let need = blocks_for (off + length buf) - blocks_for (length c) in
            if room S < need
            then halt Abort (S\<lparr>nodes := (nodes S)(toks \<mapsto> File a (take (length c) (splice off buf c))), room := 0\<rparr>)
            else ret (int (length buf))
              (S\<lparr>nodes := (nodes S)(toks \<mapsto> File (a\<lparr>a_mtime := now e\<rparr>) (splice off buf c)), room := room S - need\<rparr>))"

definition t_truncate :: "cstring list \<Rightarrow> int \<Rightarrow> (fsys, int) io" where
  "t_truncate toks len S =
     (if len \<noteq> 0 then ret (- EINVAL) S
      else case nodes S toks of
        None \<Rightarrow> ret (t_error (nodes S) toks) S
      | Some (Dir a s xs) \<Rightarrow> ret (- EISDIR) S
      | Some (File a c) \<Rightarrow>
          ret 0 (S\<lparr>nodes := (nodes S)(toks \<mapsto> File a []), room := room S + blocks_for (length c)\<rparr>))"

definition t_utime :: "env \<Rightarrow> cstring list \<Rightarrow> int option \<Rightarrow> (fsys, int) io" where
  "t_utime e toks ut S =
     (case nodes S toks of
        None \<Rightarrow> ret (t_error (nodes S) toks) S
      | Some (Dir a s xs) \<Rightarrow> ret (- EISDIR) S
      | Some (File a c) \<Rightarrow>
          ret 0 (S\<lparr>nodes := (nodes S)(toks \<mapsto> File (a\<lparr>a_mtime := utime_value e ut\<rparr>) c)\<rparr>))"

definition t_chmod :: "cstring list \<Rightarrow> u32 \<Rightarrow> (fsys, int) io" where
  "t_chmod toks m S =
     (case nodes S toks of
        None \<Rightarrow> ret (- ENOENT) S
      | Some nd \<Rightarrow> ret 0 (S\<lparr>nodes := (nodes S)(toks \<mapsto> with_attrs (chmod_bits m) nd)\<rparr>))"

definition t_getattr :: "cstring list \<Rightarrow> stat \<Rightarrow> (fsys, int \<times> stat) io" where
  "t_getattr toks sb S =
     (case nodes S toks of
        None \<Rightarrow> ret (t_error (nodes S) toks, sb\<lparr>st_ino := 0\<rparr>) S
      | Some nd \<Rightarrow> ret (0, node_stat nd) S)"

definition t_readdir :: "cstring list \<Rightarrow> (fsys, int \<times> (cstring \<times> stat) list) io" where
  "t_readdir toks S =
     (case nodes S toks of
        None \<Rightarrow> ret (- ENOENT, []) S
      | Some (File a c) \<Rightarrow> ret (- ENOTDIR, []) S
      | Some (Dir a s xs) \<Rightarrow>
          ret (0, map (\<lambda>t. (t, node_stat (the (nodes S (toks @ [t]))))) (entries xs)) S)"

fun tree_ops :: "env \<Rightarrow> request \<Rightarrow> (fsys, reply) io" where
  "tree_ops e Init = (\<lambda>S. if magic (super S) = FS_MAGIC then ret RDone S else halt (Exit 1) S)"
| "tree_ops e (Statfs p st) = (\<lambda>S. ret (RStatfs 0 (t_statfs st S)) S)"
| "tree_ops e (Getattr p sb) = andThen (t_getattr (comps p) sb) (\<lambda>(r, s). ret (RStat r s))"
| "tree_ops e (Readdir p) = andThen (t_readdir (comps p)) (\<lambda>(r, l). ret (RDir r l))"
| "tree_ops e (Read p len off) = andThen (t_read (comps p) len off) (\<lambda>(r, bs). ret (RData r bs))"
| "tree_ops e (Rename s t) = andThen (t_rename (comps s) (comps t)) (\<lambda>r. ret (RCode r))"
| "tree_ops e (Chmod p m) = andThen (t_chmod (comps p) m) (\<lambda>r. ret (RCode r))"
| "tree_ops e (Create p m) =
     andThen (t_new (comps p) (File (new_attrs e m (push_bit 15 1)) []) 1) (\<lambda>r. ret (RCode r))"
| "tree_ops e (Mkdir p m) =
     andThen (t_new (comps p) (Dir (new_attrs e m (push_bit 14 1)) 4096 (replicate 128 None)) 2) (\<lambda>r. ret (RCode r))"
| "tree_ops e (Unlink p) = andThen (t_unlink e (comps p)) (\<lambda>r. ret (RCode r))"
| "tree_ops e (Rmdir p) = andThen (t_rmdir e (comps p)) (\<lambda>r. ret (RCode r))"
| "tree_ops e (Write p buf off) = andThen (t_write e (comps p) buf off) (\<lambda>r. ret (RCode r))"
| "tree_ops e (Truncate p len) = andThen (t_truncate (comps p) len) (\<lambda>r. ret (RCode r))"
| "tree_ops e (Utime p ut) = andThen (t_utime e (comps p) ut) (\<lambda>r. ret (RCode r))"

text \<open>Replies without the inode numbers.\<close>

definition hide :: "stat \<Rightarrow> stat" where
  "hide st = st\<lparr>st_ino := 0\<rparr>"

fun hide_reply :: "reply \<Rightarrow> reply" where
  "hide_reply (RStat r s) = RStat r (hide s)"
| "hide_reply (RDir r l) = RDir r (map (\<lambda>(t, s). (t, hide s)) l)"
| "hide_reply x = x"

end
