(* ===== verification/PathLaws.thy ===== *)
theory PathLaws
  imports PathTree
begin

text \<open>
  What the changes of the inode map do to the paths: every path of the changed tree, not
  only the one the request names.
\<close>

section \<open>Paths of changed trees\<close>

text \<open>A tree in which one name \<open>ts\<close> appears or disappears, a leaf before and after.\<close>

lemma snoc_eq: "ts \<noteq> [] \<Longrightarrow> us @ [u] = ts \<longleftrightarrow> us = butlast ts \<and> u = last ts"
  by (metis append_butlast_last_id butlast_snoc last_snoc)

lemma alookup_one_name:
  assumes T: "tree_ok A" and p: "alookup A 2 (butlast ts) = Some p" and ts: "ts \<noteq> []"
    and same: "\<And>q u. q \<noteq> p \<or> u \<noteq> last ts \<Longrightarrow> children (B q) u = children (A q) u"
    and leafA: "\<And>n. alookup A 2 ts = Some n \<Longrightarrow> children (A n) = Map.empty"
    and leafB: "\<And>x. children (B p) (last ts) = Some x \<Longrightarrow> children (B x) = Map.empty"
  shows "alookup B 2 us = (if us = ts then children (B p) (last ts) else alookup A 2 us)"
proof (induction us rule: rev_induct)
  case Nil
  then show ?case using ts by simp
next
  case (snoc u us)
  note at = snoc_eq [OF ts, of us u]
  show ?case
  proof (cases "us = ts")
    case True
    then have "alookup B 2 (us @ [u]) = None"
      using snoc.IH leafB by (cases "children (B p) (last ts)") (simp_all add: alookup_snoc)
    moreover have "alookup A 2 (us @ [u]) = None"
      using True leafA by (cases "alookup A 2 ts") (simp_all add: alookup_snoc)
    ultimately show ?thesis using True by simp
  next
    case False
    then have IH: "alookup B 2 us = alookup A 2 us" using snoc.IH by simp
    show ?thesis
    proof (cases "alookup A 2 us")
      case None
      then have "us @ [u] \<noteq> ts" using p at by auto
      then show ?thesis using IH None by (simp add: alookup_snoc)
    next
      case (Some q)
      have "us = butlast ts" if "q = p" using path_unique [OF T Some [unfolded that] p] .
      moreover have "q = p" if "us = butlast ts" using Some p that by simp
      ultimately have qp: "us @ [u] = ts \<longleftrightarrow> q = p \<and> u = last ts" using at by blast
      have "alookup B 2 (us @ [u]) = children (B q) u" and "alookup A 2 (us @ [u]) = children (A q) u"
        using IH Some by (simp_all add: alookup_snoc)
      with qp same [of q u] show ?thesis by (cases "us @ [u] = ts") auto
    qed
  qed
qed

lemma alookup_linked:
  assumes T: "tree_ok A" and p: "alookup A 2 (butlast ts) = Some p" "is_adir (A p)" and ts: "ts \<noteq> []"
    and new: "alookup A 2 ts = None" and x: "A x = None" and leaf: "children (Some ob) = Map.empty"
  shows "alookup ((a_link p (last ts) x A)(x \<mapsto> ob)) 2 us = (if us = ts then Some x else alookup A 2 us)"
proof -
  define B where "B = (a_link p (last ts) x A)(x \<mapsto> ob)"
  have px: "p \<noteq> x" using p(2) x by auto
  then have ch: "children (B q) = (if q = p then (children (A p))(last ts \<mapsto> x) else children (A q))" for q
    using p(2) x leaf by (auto simp: B_def a_link_def children_set)
  have "alookup B 2 us = (if us = ts then children (B p) (last ts) else alookup A 2 us)"
    using new leaf px by (intro alookup_one_name [OF T p(1) ts]) (auto simp: ch x)
  then show ?thesis unfolding B_def [symmetric] by (simp add: ch)
qed

lemma alookup_removed:
  assumes T: "tree_ok A" and p: "alookup A 2 (butlast ts) = Some p" and ts: "ts \<noteq> []"
    and n: "alookup A 2 ts = Some n" and leaf: "children (A n) = Map.empty"
  shows "alookup (a_remove p (last ts) n w A) 2 us = (if us = ts then None else alookup A 2 us)"
proof -
  define B where "B = a_remove p (last ts) n w A"
  have c: "children (A p) (last ts) = Some n" using parent_child [OF ts p] n by simp
  then have pn: "p \<noteq> n" and D: "is_adir (A p)" using leaf children_is_adir by auto
  then have ch: "children (B q) = (if q = p then (children (A p))(last ts := None) else children (A q))" for q
    using leaf by (auto simp: B_def a_remove_def a_unlink_def Let_def children_set)
  have "alookup B 2 us = (if us = ts then children (B p) (last ts) else alookup A 2 us)"
    using n leaf by (intro alookup_one_name [OF T p ts]) (auto simp: ch)
  then show ?thesis unfolding B_def [symmetric] by (simp add: ch)
qed

lemma same_parent_length: "src \<noteq> [] \<Longrightarrow> dst \<noteq> [] \<Longrightarrow> butlast dst = butlast src \<Longrightarrow> length dst = length src"
proof -
  assume ne: "src \<noteq> []" "dst \<noteq> []" and dir: "butlast dst = butlast src"
  have "length dst - 1 = length src - 1" using arg_cong [OF dir, of length] by simp
  moreover have "0 < length dst" and "0 < length src" using ne by auto
  ultimately show ?thesis by linarith
qed

text \<open>Where a path of the renamed tree was before.\<close>

definition moved_from :: "cstring list \<Rightarrow> cstring list \<Rightarrow> cstring list \<Rightarrow> cstring list" where
  "moved_from src dst us = (if take (length dst) us = dst then src @ drop (length dst) us else us)"

lemma alookup_renamed:
  assumes T: "tree_ok A" and p: "alookup A 2 (butlast src) = Some p" and ne: "src \<noteq> []" "dst \<noteq> []"
    and n: "alookup A 2 src = Some n" and free: "alookup A 2 dst = None" and dir: "butlast dst = butlast src"
  shows "alookup (a_rename p (last src) (last dst) A) 2 us =
    (if take (length src) us = src then None else alookup A 2 (moved_from src dst us))"
proof -
  define B where "B = a_rename p (last src) (last dst) A"
  define L where "L = length src"
  have len: "length dst = L" unfolding L_def using ne dir by (rule same_parent_length)
  have c: "children (A p) (last src) = Some n" using parent_child [OF ne(1) p] n by simp
  then have D: "is_adir (A p)" using children_is_adir by auto
  have cd: "children (A p) (last dst) = None" using parent_child [of dst A p] ne(2) p dir free by simp
  then have diff: "last src \<noteq> last dst" using c by auto
  have ch: "children (B q) = (if q = p then (children (A p))(last src := None, last dst \<mapsto> n) else children (A q))" for q
    using D c by (auto simp: B_def a_rename_def children_set)
  have sd: "src = butlast src @ [last src]" "dst = butlast src @ [last dst]" "L = Suc (length (butlast src))"
    using ne dir append_butlast_last_id [of dst] by (simp_all add: L_def)
  have parent: "us' = butlast src" if "alookup A 2 us' = Some p" for us'
    using path_unique [OF T that p] .
  have "alookup B 2 us = (if take L us = src then None else alookup A 2 (moved_from src dst us))"
  proof (induction us rule: rev_induct)
  case Nil
  then show ?case using ne by (simp add: moved_from_def)
  next
  case (snoc u us)
  consider "L \<le> length us" | "Suc (length us) = L" | "Suc (length us) < L" by linarith
  then show ?case
  proof cases
    case 1
    then have tk: "take L (us @ [u]) = take L us" and mv: "moved_from src dst (us @ [u]) = moved_from src dst us @ [u]"
      by (auto simp: moved_from_def len)
    have "length (moved_from src dst us) = length us"
      using 1 len by (simp add: moved_from_def L_def)
    then have long: "moved_from src dst us \<noteq> butlast src"
      using 1 sd(3) by (metis Suc_n_not_le_n)
    show ?thesis
    proof (cases "take L us = src")
      case True
      then show ?thesis using snoc.IH by (simp only: tk) (simp add: alookup_snoc)
    next
      case False
      then have IH: "alookup B 2 us = alookup A 2 (moved_from src dst us)" using snoc.IH by simp
      have "children (B q) = children (A q)" if "alookup A 2 (moved_from src dst us) = Some q" for q
        using parent [of "moved_from src dst us"] that long ch [of q] by auto
      then show ?thesis
        using False IH by (simp only: tk mv alookup_snoc) (auto split: option.splits)
    qed
  next
    case 2
    then have short: "take L us \<noteq> src" "take L us \<noteq> dst" "take L (us @ [u]) = us @ [u]"
      using len L_def by (auto dest: arg_cong [where f = length])
    then have IH: "alookup B 2 us = alookup A 2 us" using snoc.IH by (simp add: moved_from_def len)
    have at: "us @ [u] = src \<longleftrightarrow> us = butlast src \<and> u = last src" "us @ [u] = dst \<longleftrightarrow> us = butlast src \<and> u = last dst"
      using sd(1,2) by (metis append1_eq_conv)+
    have "drop L (us @ [u]) = []" using 2 by simp
    then have mv: "moved_from src dst (us @ [u]) = (if us @ [u] = dst then src else us @ [u])"
      by (simp only: moved_from_def len short(3) append_Nil2)
    show ?thesis
    proof (cases "us = butlast src")
      case True
      have "alookup B 2 (us @ [u]) = ((children (A p))(last src := None, last dst \<mapsto> n)) u"
        using IH p True ch [of p] by (simp add: alookup_snoc)
      moreover have "moved_from src dst (us @ [u]) = (if u = last dst then src else us @ [u])"
        using at(2) True mv by simp
      moreover have "alookup A 2 (us @ [u]) = children (A p) u" using p True by (simp add: alookup_snoc)
      ultimately show ?thesis using True short(3) at diff n by auto
    next
      case False
      then have "children (B q) = children (A q)" if "alookup A 2 us = Some q" for q
        using parent [of us] that ch [of q] by auto
      moreover have "moved_from src dst (us @ [u]) = us @ [u]" using False at(2) mv by simp
      ultimately show ?thesis using False short(3) at(1) IH by (auto simp: alookup_snoc split: option.splits)
    qed
  next
    case 3
    then have tk: "take L (us @ [u]) = us @ [u]" "take L us = us" "us @ [u] \<noteq> src" "us @ [u] \<noteq> dst" "us \<noteq> src" "us \<noteq> dst"
      and pl: "us \<noteq> butlast src"
      using len sd(3) L_def by (auto dest: arg_cong [where f = length])
    then have IH: "alookup B 2 us = alookup A 2 us" using snoc.IH by (simp add: moved_from_def len)
    have "children (B q) = children (A q)" if "alookup A 2 us = Some q" for q
      using parent [of us] that ch [of q] pl by auto
    then show ?thesis using tk IH by (auto simp: moved_from_def len alookup_snoc split: option.splits)
  qed
  qed
  then show ?thesis by (simp add: B_def L_def)
qed

section \<open>Nodes of changed disks\<close>

lemma node_at_dir: "view d n = ADir a s m \<Longrightarrow> node_at d n = Dir a s (slots d n)"
  by (simp add: node_at_def)

lemma node_at_file: "view d n = AFile a c \<Longrightarrow> node_at d n = File a c"
  by (simp add: node_at_def)

lemma is_dir_node: "is_dir (node_at d n) \<longleftrightarrow> is_adir (Some (view d n))"
  by (cases "view d n") (simp_all add: node_at_def)

lemma node_at_kept:
  assumes "kept M d d'" and "m \<in> M" and "view d' m = view d m"
  shows "node_at d' m = node_at d m"
proof (cases "view d m")
  case (ADir a s f)
  then have "slots d' m = slots d m" using kept_slots [OF assms(1,2)] view_dir(1) by blast
  then show ?thesis using ADir assms(3) by (simp add: node_at_def)
qed (simp add: node_at_def assms(3))

lemma view_from_absfs:
  "m \<in> N \<Longrightarrow> m \<in> N' \<Longrightarrow> absfs N' d' m = absfs N d m \<Longrightarrow> view d' m = view d m"
  by simp

lemma tree_of_none: "tree_of N d us = None \<longleftrightarrow> alookup (absfs N d) 2 us = None"
  by (simp add: tree_of_def)

text \<open>One object changed, with the same children under the same names.\<close>

lemma tree_of_replaced:
  assumes C: "consistent N d" and K: "kept N d d'" and L: "alookup (absfs N d) 2 toks = Some n"
    and A: "absfs N d' = (absfs N d)(n \<mapsto> ob)" and ch: "children (Some ob) = children (absfs N d n)"
  shows "tree_of N d' = (tree_of N d)(toks \<mapsto> node_at d' n)"
proof
  fix us
  have n: "n \<in> N" using live_node(1) [OF C L] .
  have look: "alookup (absfs N d') 2 us = alookup (absfs N d) 2 us"
    unfolding A by (rule alookup_cong) (simp add: ch)
  show "tree_of N d' us = ((tree_of N d)(toks \<mapsto> node_at d' n)) us"
  proof (cases "alookup (absfs N d) 2 us")
    case None
    then show ?thesis using look L by (auto simp: tree_of_def)
  next
    case (Some q)
    have q: "q \<in> N" using live_node(1) [OF C Some] .
    show ?thesis
    proof (cases "us = toks")
      case True
      then show ?thesis using look L by (simp add: tree_of_def)
    next
      case False
      then have "q \<noteq> n" using path_unique [OF consistentD(3) [OF C] Some] L by auto
      then have "view d' q = view d q" using A q by (intro view_from_absfs [of q N N]) simp_all
      then have "node_at d' q = node_at d q" using node_at_kept [OF K q] by simp
      then show ?thesis using False look Some by (simp add: tree_of_def)
    qed
  qed
qed

lemma tree_of_same:
  assumes C: "consistent N d" and K: "kept N d d'" and A: "absfs N d' = absfs N d"
  shows "tree_of N d' = tree_of N d"
proof
  fix us
  show "tree_of N d' us = tree_of N d us"
  proof (cases "alookup (absfs N d) 2 us")
    case (Some q)
    have q: "q \<in> N" using live_node(1) [OF C Some] .
    have "view d' q = view d q" using A q by (intro view_from_absfs [of q N N]) simp_all
    then show ?thesis using Some node_at_kept [OF K q] by (simp add: tree_of_def A)
  qed (simp add: tree_of_def A)
qed

lemma tree_of_linked:
  assumes C: "consistent N d" and p: "alookup (absfs N d) 2 (butlast toks) = Some p" "is_adir (absfs N d p)"
    and ne: "toks \<noteq> []" and new: "alookup (absfs N d) 2 toks = None" and x: "x \<notin> N"
    and leaf: "children (Some ob) = Map.empty"
    and A: "absfs (insert x N) d' = (a_link p (last toks) x (absfs N d))(x \<mapsto> ob)"
    and K: "kept (N - {p}) d d'" and S: "slots d' p = enter (last toks) (slots d p)"
  shows "tree_of (insert x N) d' = t_link toks (node_at d' x) (tree_of N d)"
proof
  fix us
  have pN: "p \<in> N" using live_node(1) [OF C p(1)] .
  have look: "alookup (absfs (insert x N) d') 2 us = (if us = toks then Some x else alookup (absfs N d) 2 us)"
    unfolding A using x by (intro alookup_linked [OF consistentD(3) [OF C] p ne new _ leaf]) simp
  have px: "p \<noteq> x" using pN x by auto
  have nb: "butlast toks \<noteq> toks" using ne by (metis append_butlast_last_id not_Cons_self2 append_self_conv)
  obtain a s m where v: "view d p = ADir a s m" using p(2) pN by (cases "view d p") auto
  have "absfs (insert x N) d' p = Some (ADir a s (m(last toks \<mapsto> x)))"
    using px pN v by (simp only: A) (simp add: a_link_def)
  then have "view d' p = ADir a s (m(last toks \<mapsto> x))" using pN by simp
  then have np: "node_at d' p = with_slots (enter (last toks)) (node_at d p)"
    using v S by (simp add: node_at_def)
  show "tree_of (insert x N) d' us = t_link toks (node_at d' x) (tree_of N d) us"
  proof (cases "us = toks")
    case True
    then show ?thesis using look by (simp add: tree_of_def t_link_def)
  next
    case False
    then have lk: "alookup (absfs (insert x N) d') 2 us = alookup (absfs N d) 2 us" using look by simp
    show ?thesis
    proof (cases "us = butlast toks")
      case True
      then show ?thesis using lk p(1) np nb by (simp add: tree_of_def t_link_def)
    next
      case us: False
      show ?thesis
      proof (cases "alookup (absfs N d) 2 us")
        case None
        then show ?thesis using lk us False by (simp add: tree_of_def t_link_def)
      next
        case (Some q)
        have q: "q \<in> N" using live_node(1) [OF C Some] .
        have qp: "q \<noteq> p" using path_unique [OF consistentD(3) [OF C] Some] p(1) us by auto
        have qx: "q \<noteq> x" using q x by auto
        have "view d' q = view d q"
          using qp qx q by (intro view_from_absfs [of q N "insert x N"]) (simp_all only: A, simp_all add: a_link_def)
        then have "node_at d' q = node_at d q" using node_at_kept [OF K, of q] q qp by simp
        then show ?thesis using lk us False Some by (simp add: tree_of_def t_link_def)
      qed
    qed
  qed
qed

lemma tree_of_removed:
  assumes C: "consistent N d" and p: "alookup (absfs N d) 2 (butlast toks) = Some p" and ne: "toks \<noteq> []"
    and n: "alookup (absfs N d) 2 toks = Some n" and leaf: "children (absfs N d n) = Map.empty"
    and A: "absfs (N - {n}) d' = a_remove p (last toks) n w (absfs N d)"
    and K: "kept (N - {p}) d d'" and S: "slots d' p = erase (last toks) (slots d p)"
  shows "tree_of (N - {n}) d' = t_remove toks w (tree_of N d)"
proof
  fix us
  have pN: "p \<in> N" using live_node(1) [OF C p] .
  have look: "alookup (absfs (N - {n}) d') 2 us = (if us = toks then None else alookup (absfs N d) 2 us)"
    unfolding A by (rule alookup_removed [OF consistentD(3) [OF C] p ne n leaf])
  have c: "children (absfs N d p) (last toks) = Some n" using parent_child [OF ne p] n by simp
  then have pn: "p \<noteq> n" and D: "is_adir (absfs N d p)" using leaf children_is_adir by auto
  have nb: "butlast toks \<noteq> toks" using ne by (metis append_butlast_last_id not_Cons_self2 append_self_conv)
  obtain a s m where v: "view d p = ADir a s m" using D pN by (cases "view d p") auto
  have "absfs (N - {n}) d' p = Some (ADir (a\<lparr>a_mtime := w\<rparr>) s (m(last toks := None)))"
    using pn pN v by (simp only: A) (simp add: a_remove_def a_unlink_def Let_def)
  then have "view d' p = ADir (a\<lparr>a_mtime := w\<rparr>) s (m(last toks := None))" using pN pn by simp
  then have np: "node_at d' p = with_attrs (\<lambda>a. a\<lparr>a_mtime := w\<rparr>) (with_slots (erase (last toks)) (node_at d p))"
    using v S by (simp add: node_at_def)
  show "tree_of (N - {n}) d' us = t_remove toks w (tree_of N d) us"
  proof (cases "us = toks")
    case True
    then show ?thesis using look by (simp add: tree_of_def t_remove_def)
  next
    case False
    then have lk: "alookup (absfs (N - {n}) d') 2 us = alookup (absfs N d) 2 us" using look by simp
    show ?thesis
    proof (cases "us = butlast toks")
      case True
      then show ?thesis using lk p np nb by (simp add: tree_of_def t_remove_def)
    next
      case us: False
      show ?thesis
      proof (cases "alookup (absfs N d) 2 us")
        case None
        then show ?thesis using lk us False by (simp add: tree_of_def t_remove_def)
      next
        case (Some q)
        have q: "q \<in> N" using live_node(1) [OF C Some] .
        have qp: "q \<noteq> p" using path_unique [OF consistentD(3) [OF C] Some] p us by auto
        have qn: "q \<noteq> n" using path_unique [OF consistentD(3) [OF C] Some] n False by auto
        have "view d' q = view d q"
          using qp qn q by (intro view_from_absfs [of q N "N - {n}"]) (simp_all only: A, simp_all add: a_remove_def a_unlink_def Let_def)
        then have "node_at d' q = node_at d q" using node_at_kept [OF K, of q] q qp by simp
        then show ?thesis using lk us False Some by (simp add: tree_of_def t_remove_def)
      qed
    qed
  qed
qed

lemma tree_of_moved:
  assumes C: "consistent N d" and p: "alookup (absfs N d) 2 (butlast src) = Some p" and ne: "src \<noteq> []" "dst \<noteq> []"
    and n: "alookup (absfs N d) 2 src = Some n" and free: "alookup (absfs N d) 2 dst = None"
    and dir: "butlast dst = butlast src"
    and A: "absfs N d' = a_rename p (last src) (last dst) (absfs N d)"
    and K: "kept (N - {p}) d d'" and S: "slots d' p = relabel (last src) (last dst) (slots d p)"
  shows "tree_of N d' = t_move src dst (tree_of N d)"
proof
  fix us
  have pN: "p \<in> N" using live_node(1) [OF C p] .
  note look = alookup_renamed [OF consistentD(3) [OF C] p ne n free dir, of us, folded A]
  have c: "children (absfs N d p) (last src) = Some n" using parent_child [OF ne(1) p] n by simp
  then have D: "is_adir (absfs N d p)" using children_is_adir by auto
  obtain a s m where v: "view d p = ADir a s m" using D pN by (cases "view d p") auto
  have "\<exists>m'. absfs N d' p = Some (ADir a s m')"
    using pN v by (simp only: A) (simp add: a_rename_def)
  then obtain m' where "view d' p = ADir a s m'" using pN by auto
  then have np: "node_at d' p = with_slots (relabel (last src) (last dst)) (node_at d p)"
    using v S by (simp add: node_at_def)
  have other: "map_option (node_at d') (alookup (absfs N d) 2 us') = tree_of N d us'" if "us' \<noteq> butlast src" for us'
  proof (cases "alookup (absfs N d) 2 us'")
    case (Some q)
    have q: "q \<in> N" using live_node(1) [OF C Some] .
    have qp: "q \<noteq> p" using path_unique [OF consistentD(3) [OF C] Some] p that by auto
    have "view d' q = view d q"
      using qp q by (intro view_from_absfs [of q N N]) (simp_all only: A, simp_all add: a_rename_def)
    then show ?thesis using node_at_kept [OF K, of q] q qp Some by (simp add: tree_of_def)
  qed (simp add: tree_of_def)
  have len: "length (butlast src) < length src" using ne by simp
  have same: "length dst = length src" using ne dir by (rule same_parent_length)
  show "tree_of N d' us = t_move src dst (tree_of N d) us"
  proof -
    have sd: "src \<noteq> dst" using n free by auto
    consider "take (length dst) us = dst" | "take (length dst) us \<noteq> dst" "take (length src) us = src"
      | "take (length dst) us \<noteq> dst" "take (length src) us \<noteq> src" by blast
    then show ?thesis
    proof cases
      case 1
      have "length (src @ drop (length dst) us) \<noteq> length (butlast src)" using len by simp
      then have "src @ drop (length dst) us \<noteq> butlast src" by metis
      then show ?thesis
        using 1 sd same look other by (simp add: tree_of_def [of N d'] t_move_def moved_from_def)
    next
      case 2
      then show ?thesis using look by (simp add: tree_of_def [of N d'] t_move_def)
    next
      case 3
      then show ?thesis
        using look other p np by (auto simp: tree_of_def t_move_def moved_from_def)
    qed
  qed
qed

end
