(* ===== verification/TreeSim.thy ===== *)
theory TreeSim
  imports PathLaws
begin

text \<open>
  The operations on the disk refine the operations on trees: from a consistent disk every
  request returns what \<open>tree_ops\<close> returns on the tree the disk stands for, and leaves a
  disk that stands for the tree \<open>tree_ops\<close> leaves, also where the process stops.
\<close>

section \<open>Runs that agree\<close>

definition refines :: "('a \<Rightarrow> 'b) \<Rightarrow> (stop + 'a) \<times> disk \<Rightarrow> (stop + 'b) \<times> fsys \<Rightarrow> bool" where
  "refines h r R \<longleftrightarrow> map_sum id h (fst r) = fst R
     \<and> (\<exists>N. consistent N (snd r) \<and> fsys_of N (snd r) = snd R)"

lemma refines_ret: "consistent N d \<Longrightarrow> fsys_of N d = S \<Longrightarrow> h x = y \<Longrightarrow> refines h (Inr x, d) (ret y S)"
  by (auto simp: refines_def ret_def)

lemma refines_halt: "consistent N d \<Longrightarrow> fsys_of N d = S \<Longrightarrow> refines h (Inl s, d) (halt s S)"
  by (auto simp: refines_def halt_def)

text \<open>A run that changes nothing.\<close>

lemma refines_stay [simp]:
  "consistent N d \<Longrightarrow> refines h (Inr x, d) (ret y (fsys_of N d)) \<longleftrightarrow> h x = y"
  "consistent N d \<Longrightarrow> refines h (Inl s, d) (halt t (fsys_of N d)) \<longleftrightarrow> s = t"
  by (auto simp: refines_def ret_def halt_def)

lemma refines_map:
  assumes "refines h (m d) (M S)" and "\<And>x. k (f x) = g (h x)"
  shows "refines k (andThen m (\<lambda>x. ret (f x)) d) (andThen M (\<lambda>x. ret (g x)) S)"
  using assms
  by (cases "m d"; cases "M S"; cases "fst (m d)"; cases "fst (M S)")
     (auto simp: refines_def andThen_def ret_def)

lemma refines_code:
  "refines id (m d) (M S) \<Longrightarrow>
   refines hide_reply (andThen m (\<lambda>r. ret (RCode r)) d) (andThen M (\<lambda>r. ret (RCode r)) S)"
  by (rule refines_map [where h = id]) simp_all

lemma fsys_of_simps [simp]:
  "nodes (fsys_of N d) = tree_of N d" "room (fsys_of N d) = card (free_set d)"
  "super (fsys_of N d) = decode_super (blk d 0)"
  by (simp_all add: fsys_of_def)

lemma fsys_ofI:
  "tree_of N d = T \<Longrightarrow> card (free_set d) = r \<Longrightarrow> blk d 0 = blk d0 0 \<Longrightarrow>
    fsys_of N d = (fsys_of N0 d0)\<lparr>nodes := T, room := r\<rparr>"
  by (simp add: fsys_of_def)

lemma fsys_ofI_nodes:
  "tree_of N d = T \<Longrightarrow> free_set d = free_set d0 \<Longrightarrow> blk d 0 = blk d0 0 \<Longrightarrow>
    fsys_of N d = (fsys_of N0 d0)\<lparr>nodes := T\<rparr>"
  by (simp add: fsys_of_def)

lemma fsys_ofI_room:
  "tree_of N d = tree_of N0 d0 \<Longrightarrow> card (free_set d) = r \<Longrightarrow> blk d 0 = blk d0 0 \<Longrightarrow>
    fsys_of N d = (fsys_of N0 d0)\<lparr>room := r\<rparr>"
  by (simp add: fsys_of_def)

section \<open>Checks\<close>

lemma tree_of_Some: "alookup (absfs N d) 2 us = Some n \<Longrightarrow> tree_of N d us = Some (node_at d n)"
  by (simp add: tree_of_def)

lemma live_is_dir:
  assumes "consistent N d" and "alookup (absfs N d) 2 us = Some n"
  shows "is_adir (absfs N d n) \<longleftrightarrow> is_dir (node_at d n)"
  using live_node(1) [OF assms] by (simp add: is_dir_node)

lemma walk_agrees:
  assumes C: "consistent N d"
  shows "alookup (absfs N d) 2 us = Some n \<Longrightarrow> alookup (absfs N d) n ts = None \<Longrightarrow>
    resolve (absfs N d) multi n ts = t_walk (tree_of N d) multi us ts"
proof (induction ts arbitrary: us n)
  case Nil
  then show ?case by simp
next
  case (Cons t ts)
  have at: "alookup (absfs N d) 2 (us @ [t]) = children (absfs N d n) t"
    using Cons.prems(1) by (simp add: alookup_snoc)
  show ?case
  proof (cases "children (absfs N d n) t")
    case None
    then show ?thesis using at by (simp add: tree_of_def)
  next
    case (Some k)
    then have k: "alookup (absfs N d) 2 (us @ [t]) = Some k" using at by simp
    have rest: "alookup (absfs N d) k ts = None" using Cons.prems(2) Some by simp
    then have "ts \<noteq> []" by auto
    then show ?thesis
      using Some Cons.IH [OF k rest] live_is_dir [OF C k] tree_of_Some [OF k] by simp
  qed
qed

lemma error_agrees:
  assumes "consistent N d" and "alookup (absfs N d) 2 toks = None"
  shows "path_error (absfs N d) toks = t_error (tree_of N d) toks"
  using walk_agrees [OF assms(1), of "[]" 2 toks] assms(2) by (simp add: path_error_def t_error_def)

lemma new_error_agrees:
  assumes "consistent N d"
  shows "new_error (absfs N d) toks = t_new_error (tree_of N d) toks"
  using live_is_dir [OF assms, of "butlast toks"]
  by (auto simp: new_error_def t_new_error_def tree_of_def split: option.split)

lemma del_error_agrees:
  assumes "consistent N d"
  shows "del_error (absfs N d) toks = t_del_error (tree_of N d) toks"
  using live_is_dir [OF assms, of "butlast toks"]
  by (auto simp: del_error_def t_del_error_def tree_of_def split: option.split)

lemma rename_error_agrees:
  assumes "consistent N d"
  shows "rename_error (absfs N d) src dst = t_rename_error (tree_of N d) src dst"
  using error_agrees [OF assms, of src]
  by (simp add: rename_error_def t_rename_error_def tree_of_def path_error_def)

lemma slot_agrees:
  assumes "S_ISDIR (mode (inode_at d p))"
  shows "has_slot (node_at d p) \<longleftrightarrow> free_slot d p"
proof -
  have "None \<in> set (slots d p) \<longleftrightarrow> free_slot d p"
    by (auto simp: slots_def free_slot_def list_ex_iff slot_name_def image_iff split: if_splits)
  then show ?thesis using assms by (simp add: node_at_def view_def Let_def)
qed

lemma entries_slots: "entries (slots d n) = map (\<lambda>e. c_string (name e)) (filter valid (dirs_at d (inode_at d n)))"
proof -
  have "entries (map slot_name ds) = map (\<lambda>e. c_string (name e)) (filter valid ds)" for ds
    by (induction ds) (simp_all add: entries_def slot_name_def)
  then show ?thesis by (simp add: slots_def)
qed

lemma entries_empty:
  "entries (slots d n) = [] \<longleftrightarrow> dir_map (dirs_at d (inode_at d n)) = Map.empty"
proof -
  have "dir_map ds = Map.empty \<longleftrightarrow> filter valid ds = []" for ds
  proof
    assume m: "dir_map ds = Map.empty"
    show "filter valid ds = []"
    proof (rule ccontr)
      assume "filter valid ds \<noteq> []"
      then obtain e where "e \<in> set ds" and v: "valid e" by (auto simp: filter_empty_conv)
      then obtain k where k: "k < length ds" "ds ! k = e" by (auto simp: in_set_conv_nth)
      have "dir_map ds (c_string (name e)) = None" using m by simp
      then show False unfolding dir_map_None using k v by blast
    qed
  next
    assume "filter valid ds = []"
    then have "\<not> valid (ds ! k)" if "k < length ds" for k using that by (simp add: filter_empty_conv)
    then have "dir_map ds t = None" for t unfolding dir_map_None by simp
    then show "dir_map ds = Map.empty" by (rule ext)
  qed
  then show ?thesis by (simp add: entries_slots)
qed

lemma hide_ostat: "hide (ostat n (view d n)) = node_stat (node_at d n)"
  by (cases "view d n")
     (simp_all add: hide_def ostat_def node_stat_def node_at_def oattrs_def osize_def node_attrs_def node_size_def)

section \<open>Paths\<close>

lemma fuse_cases:
  assumes "ok_fuse toks"
  obtains "toks = []" "fuse_path toks = [slash]" | "ok_path toks" "fuse_path toks = mkpath toks"
  using assms by (cases "toks = []") (auto simp: ok_fuse_def fuse_path_def)

lemma comps_fuse:
  assumes "canonical p"
  shows "ok_fuse (comps p)" and "p = fuse_path (comps p)"
  using assms by (simp_all add: canonical_def comps_def)

lemma root_node:
  assumes "consistent N d"
  obtains a s xs where "tree_of N d [] = Some (Dir a s xs)"
proof -
  have "is_dir (node_at d 2)" using root_in(2) [OF assms] by (simp add: is_dir_node is_adir_view)
  then obtain a s xs where "node_at d 2 = Dir a s xs" by (cases "node_at d 2") auto
  then show ?thesis using that by (simp add: tree_of_def)
qed

lemma node_view:
  assumes "consistent N d" and "alookup (absfs N d) 2 toks = Some n"
  obtains a s m where "absfs N d n = Some (ADir a s m)" and "view d n = ADir a s m"
      and "node_at d n = Dir a s (slots d n)" and "m = dir_map (dirs_at d (inode_at d n))"
  | a c where "absfs N d n = Some (AFile a c)" and "view d n = AFile a c" and "node_at d n = File a c"
  using live_node(1) [OF assms] view_dir(4) by (cases "view d n") (auto simp: node_at_def)

lemma file_own:
  assumes C: "consistent N d" and n: "n \<in> N" and V: "view d n = AFile a c"
  shows "card (own d n - {n}) = blocks_for (length c)" and "own d n \<inter> free_set d = {}" and "finite (own d n)"
proof -
  have f: "\<not> S_ISDIR (mode (inode_at d n))" and c: "c = content d (inode_at d n)" using view_file [OF V] by auto
  have ok: "node_ok d n" using C n by (rule consistentD(2))
  have "own d n - {n} = set (data_blocks (inode_at d n))" using ok by (auto simp: own_def node_ok_def)
  moreover have "distinct (data_blocks (inode_at d n))" using ok by (simp add: node_ok_def)
  ultimately have "card (own d n - {n}) = length (data_blocks (inode_at d n))" by (simp add: distinct_card)
  then show "card (own d n - {n}) = blocks_for (length c)"
    using f by (simp add: data_blocks_def blocks_for_def c content_def nblocks_def)
  show "own d n \<inter> free_set d = {}" using own_not_free [OF C n] .
  show "finite (own d n)" by (simp add: own_def)
qed

end
