(* ===== verification/TreeRef.thy ===== *)
theory TreeRef
  imports TreeSim
begin

text \<open>
  The requests that read or change one object: the operation on the disk refines the one
  on trees.
\<close>

section \<open>Requests that only read\<close>

lemma ref_read:
  assumes C: "consistent N d" and P: "ok_fuse toks"
  shows "refines id (fs_read e (fuse_path toks) len off d) (t_read toks len off (fsys_of N d))"
  using P
proof (cases rule: fuse_cases)
  case 1
  obtain a s xs where "tree_of N d [] = Some (Dir a s xs)" by (rule root_node [OF C])
  then show ?thesis using C 1 root_dir_codes(1) [OF C] by (simp add: t_read_def)
next
  case 2
  then have P: "ok_path toks" by simp
  show ?thesis
  proof (cases "alookup (absfs N d) 2 toks")
    case None
    then show ?thesis
      using C missing_codes(1) [OF C P None] error_agrees [OF C None] tree_of_none [of N d toks]
      by (simp add: t_read_def 2(2))
  next
    case L: (Some n)
    from C L show ?thesis
    proof (cases rule: node_view)
      case (1 a s m)
      then show ?thesis using C dir_codes(1) [OF C P L 1(1)] tree_of_Some [OF L] by (simp add: t_read_def 2(2))
    next
      case (2 a c)
      then show ?thesis
        using C fs_read_file [OF C P L 2(1)] tree_of_Some [OF L] \<open>fuse_path toks = mkpath toks\<close>
        by (simp add: t_read_def Let_def)
    qed
  qed
qed

lemma ref_getattr:
  assumes C: "consistent N d" and P: "ok_fuse toks"
  shows "refines (\<lambda>(r, s). (r, hide s)) (fs_getattr (fuse_path toks) sb d) (t_getattr toks sb (fsys_of N d))"
proof (cases "alookup (absfs N d) 2 toks")
  case None
  then show ?thesis
    using C fs_getattr_run [OF C P, of sb] error_agrees [OF C None] tree_of_none [of N d toks]
    by (simp add: t_getattr_def path_error_def hide_def)
next
  case L: (Some n)
  have V: "absfs N d n = Some (view d n)" using live_node(1) [OF C L] by simp
  then show ?thesis
    using C fs_getattr_run [OF C P, of sb] L tree_of_Some [OF L] by (simp add: t_getattr_def hide_ostat)
qed

lemma ref_readdir:
  assumes C: "consistent N d" and P: "ok_fuse toks"
  shows "refines (\<lambda>(r, l). (r, map (\<lambda>(t, s). (t, hide s)) l)) (fs_readdir (fuse_path toks) d)
    (t_readdir toks (fsys_of N d))"
proof (cases "alookup (absfs N d) 2 toks")
  case None
  then show ?thesis
    using C fs_readdir_missing [OF C P None] tree_of_none [of N d toks] by (simp add: t_readdir_def)
next
  case L: (Some n)
  from C L show ?thesis
  proof (cases rule: node_view)
    case (1 a s m)
    note r = fs_readdir_entries [OF C P L 1(1)]
    have "(c_string (name x), node_stat (node_at d (unat (inode x)))) =
        (c_string (name x), node_stat (the (tree_of N d (toks @ [c_string (name x)]))))"
      if x: "x \<in> set (filter valid (dirs_at d (inode_at d n)))" for x
    proof -
      have v: "valid x" and m: "x \<in> set (dirs_at d (inode_at d n))" using x by auto
      obtain k where k: "k < length (dirs_at d (inode_at d n))" "dirs_at d (inode_at d n) ! k = x"
        using m by (auto simp: in_set_conv_nth)
      have "dir_map (dirs_at d (inode_at d n)) (c_string (name x)) = Some (unat (inode x))"
        unfolding dir_map_iff [OF r(3)] using k v by blast
      then have "children (absfs N d n) (c_string (name x)) = Some (unat (inode x))" unfolding 1(1) r(2) by simp
      then have "alookup (absfs N d) 2 (toks @ [c_string (name x)]) = Some (unat (inode x))"
        using L by (simp add: alookup_snoc)
      then show ?thesis by (simp add: tree_of_def)
    qed
    then have "map (\<lambda>(t, s). (t, hide s)) (map (entry_stat d) (filter valid (dirs_at d (inode_at d n)))) =
        map (\<lambda>t. (t, node_stat (the (tree_of N d (toks @ [t]))))) (entries (slots d n))"
      unfolding entries_slots map_map by (intro map_cong refl) (simp add: entry_stat_def hide_ostat)
    then show ?thesis
      using C r(1) tree_of_Some [OF L] 1(3) by (simp add: t_readdir_def)
  next
    case (2 a c)
    then show ?thesis
      using C fs_readdir_file [OF C P L 2(1)] tree_of_Some [OF L] by (simp add: t_readdir_def)
  qed
qed

text \<open>The count of \<open>fs_statfs\<close> and the number of free blocks.\<close>

lemma count_used_free:
  assumes "mountable d"
  shows "count_used (dmap d) = 32766 - card (free_set d)"
proof -
  have "free_set d \<subseteq> {2..<32768}" by (auto simp: free_set_def)
  moreover have "{i. 2 \<le> i \<and> i < 32768 \<and> used (dmap d) i} = {2..<32768} - free_set d"
  proof (intro set_eqI iffI)
    fix i assume "i \<in> {2..<32768} - free_set d"
    then have "2 \<le> i" "i < 32768" "i = 2 \<or> used (dmap d) i" by (auto simp: free_set_def)
    then show "i \<in> {i. 2 \<le> i \<and> i < 32768 \<and> used (dmap d) i}" using root_marked [OF assms] by auto
  qed (auto simp: free_set_def)
  ultimately show ?thesis by (simp add: count_used_card card_Diff_subset)
qed

lemma ref_statfs:
  assumes C: "consistent N d"
  shows "fs_statfs p st d = (Inr (0, t_statfs st (fsys_of N d)), d)"
proof -
  have mt: "mountable d" using C by (rule consistentD(1))
  then have r0: "block_read 0 d = Some (blk d 0)"
    by (simp add: block_read_in_range [of 0, simplified] get_block_def mountable_def)
  have "count_used (dmap d) < 2 ^ 32" by (simp add: count_used_free [OF mt])
  then have "(ucast (of_nat (count_used (dmap d)) :: u32) :: 64 word) = of_nat (count_used (dmap d))"
    by (simp add: unsigned_of_nat take_bit_nat_eq_self)
  then show ?thesis
    using mt r0
    by (simp add: fs_statfs_def t_statfs_def andThen_def run_simps Let_def count_used_free del: of_nat_diff)
qed

lemma ref_init:
  assumes C: "consistent N d"
  shows "refines hide_reply (fs_ops e Init d) (tree_ops e Init (fsys_of N d))"
  using C fs_init_run [OF consistentD(1) [OF C]] by (simp add: andThen_def ret_run refines_stay [unfolded ret_def halt_def])

section \<open>Requests that change one object\<close>

lemma refines_done:
  assumes "consistent N d'" and "tree_of N d' = T" and "card (free_set d') = r" and "blk d' 0 = blk d 0" and "h x = y"
  shows "refines h (Inr x, d') (ret y ((fsys_of M d)\<lparr>nodes := T, room := r\<rparr>))"
  by (rule refines_ret) (use assms in \<open>simp_all add: fsys_of_def\<close>)

lemma refines_nodes:
  assumes "consistent N d'" and "tree_of N d' = T" and "free_set d' = free_set d" and "blk d' 0 = blk d 0" and "h x = y"
  shows "refines h (Inr x, d') (ret y ((fsys_of M d)\<lparr>nodes := T\<rparr>))"
  by (rule refines_ret) (use assms in \<open>simp_all add: fsys_of_def\<close>)

lemma ref_chmod:
  assumes C: "consistent N d" and P: "ok_fuse toks"
  shows "refines id (fs_chmod e (fuse_path toks) m d) (t_chmod toks m (fsys_of N d))"
proof (cases "alookup (absfs N d) 2 toks")
  case None
  with P have "ok_path toks" "fuse_path toks = mkpath toks" by (cases rule: fuse_cases; simp)+
  then show ?thesis
    using C missing_codes(5) [OF C _ None] tree_of_none [of N d toks] None by (simp add: t_chmod_def)
next
  case L: (Some n)
  have n: "n \<in> N" using live_node(1) [OF C L] .
  obtain d' where run: "fs_chmod e (fuse_path toks) m d = (Inr 0, d')" and C': "consistent N d'"
    and A: "absfs N d' = a_attrs n (chmod_bits m) (absfs N d)" and F: "free_set d' = free_set d" and K: "kept N d d'"
    using fs_chmod_kept [OF C P L, of e m] by blast
  have A': "absfs N d' = (absfs N d)(n \<mapsto> on_attrs (chmod_bits m) (view d n))" using n by (simp add: A a_attrs_def)
  have "absfs N d' n = Some (on_attrs (chmod_bits m) (view d n))" by (simp only: A' fun_upd_same)
  then have v: "view d' n = on_attrs (chmod_bits m) (view d n)" using n by simp
  have nd: "node_at d' n = with_attrs (chmod_bits m) (node_at d n)"
    using v kept_slots [OF K n] view_dir(1) [of d n] by (cases "view d n") (simp_all add: node_at_def)
  have "children (Some (on_attrs (chmod_bits m) (view d n))) = children (absfs N d n)"
    using n children_on_attrs [of "chmod_bits m" "Some (view d n)"] by simp
  then have T: "tree_of N d' = (tree_of N d)(toks \<mapsto> with_attrs (chmod_bits m) (node_at d n))"
    using tree_of_replaced [OF C K L A'] by (simp add: nd)
  show ?thesis
    using refines_nodes [where h = id and x = 0 and y = 0 and M = N, OF C' T F kept_super [OF K]] tree_of_Some [OF L]
    by (simp add: t_chmod_def run)
qed

lemma file_replaced_tree:
  assumes C: "consistent N d" and K: "kept N d d'" and L: "alookup (absfs N d) 2 toks = Some n"
    and V: "absfs N d n = Some (AFile a c)" and A: "absfs N d' = (absfs N d)(n \<mapsto> AFile a' c')"
  shows "tree_of N d' = (tree_of N d)(toks \<mapsto> File a' c')"
proof -
  have n: "n \<in> N" using live_node(1) [OF C L] .
  have "absfs N d' n = Some (AFile a' c')" by (simp only: A fun_upd_same)
  then have "node_at d' n = File a' c'" using n by (simp add: node_at_file)
  then show ?thesis using tree_of_replaced [OF C K L A] V by simp
qed

lemma ref_utime:
  assumes C: "consistent N d" and P: "ok_fuse toks"
  shows "refines id (fs_utime e (fuse_path toks) ut d) (t_utime e toks ut (fsys_of N d))"
  using P
proof (cases rule: fuse_cases)
  case 1
  obtain a s xs where "tree_of N d [] = Some (Dir a s xs)" by (rule root_node [OF C])
  then show ?thesis using C 1 root_dir_codes(4) [OF C] by (simp add: t_utime_def)
next
  case 2
  then have P: "ok_path toks" by simp
  show ?thesis
  proof (cases "alookup (absfs N d) 2 toks")
    case None
    then show ?thesis
      using C missing_codes(4) [OF C P None] error_agrees [OF C None] tree_of_none [of N d toks]
      by (simp add: t_utime_def 2(2))
  next
    case L: (Some n)
    from C L show ?thesis
    proof (cases rule: node_view)
      case (1 a s m)
      then show ?thesis using C dir_codes(4) [OF C P L 1(1)] tree_of_Some [OF L] by (simp add: t_utime_def 2(2))
    next
      case V: (2 a c)
      obtain d' where run: "fs_utime e (mkpath toks) ut d = (Inr 0, d')" and C': "consistent N d'"
        and A: "absfs N d' = (absfs N d)(n \<mapsto> AFile (a\<lparr>a_mtime := utime_value e ut\<rparr>) c)"
        and F: "free_set d' = free_set d" and K: "kept N d d'"
        using fs_utime_kept [OF C P L V(1), of e ut] by blast
      show ?thesis
        using refines_nodes [where h = id and x = 0 and y = 0 and M = N, OF C' file_replaced_tree [OF C K L V(1) A] F kept_super [OF K]] tree_of_Some [OF L] V(3)
        by (simp add: t_utime_def run 2(2))
    qed
  qed
qed

lemma ref_truncate:
  assumes C: "consistent N d" and P: "ok_fuse toks"
  shows "refines id (fs_truncate e (fuse_path toks) len d) (t_truncate toks len (fsys_of N d))"
proof (cases "len = 0")
  case False
  then show ?thesis using C by (simp add: t_truncate_def fs_truncate_len)
next
  case len: True
  from P show ?thesis
  proof (cases rule: fuse_cases)
    case 1
    obtain a s xs where "tree_of N d [] = Some (Dir a s xs)" by (rule root_node [OF C])
    then show ?thesis using C 1 root_dir_codes(3) [OF C] len by (simp add: t_truncate_def)
  next
    case 2
    then have P: "ok_path toks" by simp
    show ?thesis
    proof (cases "alookup (absfs N d) 2 toks")
      case None
      then show ?thesis
        using C missing_codes(3) [OF C P None] error_agrees [OF C None] tree_of_none [of N d toks] len
        by (simp add: t_truncate_def 2(2))
    next
      case L: (Some n)
      have n: "n \<in> N" using live_node(1) [OF C L] .
      from C L show ?thesis
      proof (cases rule: node_view)
        case (1 a s m)
        then show ?thesis using C dir_codes(3) [OF C P L 1(1)] tree_of_Some [OF L] len by (simp add: t_truncate_def 2(2))
      next
        case V: (2 a c)
        obtain d' where run: "fs_truncate e (mkpath toks) 0 d = (Inr 0, d')" and C': "consistent N d'"
          and A: "absfs N d' = (absfs N d)(n \<mapsto> AFile a [])"
          and F: "free_set d' = free_set d \<union> (own d n - {n})" and K: "kept N d d'"
          using fs_truncate_run [OF C P L V(1), of e] by blast
        note own = file_own [OF C n V(2)]
        have "free_set d \<inter> (own d n - {n}) = {}" using own(2) by blast
        then have "card (free_set d') = card (free_set d) + blocks_for (length c)"
          unfolding F using own(1,3) by (simp add: card_Un_disjoint)
        then show ?thesis
          using refines_done [where h = id and x = 0 and y = 0 and M = N, OF C' file_replaced_tree [OF C K L V(1) A] _ kept_super [OF K]] tree_of_Some [OF L] V(3) len
          by (simp add: t_truncate_def run 2(2))
      qed
    qed
  qed
qed

lemma ref_write:
  assumes C: "consistent N d" and P: "ok_fuse toks" and e: "wf_env e"
  shows "refines id (fs_write e (fuse_path toks) buf off d) (t_write e toks buf off (fsys_of N d))"
  using P
proof (cases rule: fuse_cases)
  case 1
  obtain a s xs where "tree_of N d [] = Some (Dir a s xs)" by (rule root_node [OF C])
  then show ?thesis using C 1 root_dir_codes(2) [OF C] by (simp add: t_write_def)
next
  case 2
  then have P: "ok_path toks" by simp
  show ?thesis
  proof (cases "alookup (absfs N d) 2 toks")
    case None
    then show ?thesis
      using C missing_codes(2) [OF C P None] error_agrees [OF C None] tree_of_none [of N d toks]
      by (simp add: t_write_def 2(2))
  next
    case L: (Some n)
    from C L show ?thesis
    proof (cases rule: node_view)
      case (1 a s m)
      then show ?thesis using C dir_codes(2) [OF C P L 1(1)] tree_of_Some [OF L] by (simp add: t_write_def 2(2))
    next
      case V: (2 a c)
      have T: "tree_of N d toks = Some (File a c)" using tree_of_Some [OF L] V(3) by simp
      consider "length c < off" | "off \<le> length c" "4096 * 1019 < off + length buf"
        | "off \<le> length c" "off + length buf \<le> 4096 * 1019" "room_for d (length c) (off + length buf)"
        | "off \<le> length c" "off + length buf \<le> 4096 * 1019" "\<not> room_for d (length c) (off + length buf)"
        by linarith
      then show ?thesis
      proof cases
        case 1
        then show ?thesis using C T write_range(1) [OF C P L V(1)] by (simp add: t_write_def 2(2))
      next
        case b: 2
        then show ?thesis using C T write_range(2) [OF C P L V(1)] by (simp add: t_write_def 2(2))
      next
        case b: 3
        obtain d' where run: "fs_write e (mkpath toks) buf off d = (Inr (int (length buf)), d')" and C': "consistent N d'"
          and A: "absfs N d' = (absfs N d)(n \<mapsto> AFile (a\<lparr>a_mtime := now e\<rparr>) (splice off buf c))" and K: "kept N d d'"
          and F: "card (free_set d') = card (free_set d) - (blocks_for (off + length buf) - blocks_for (length c))"
          using fs_write_run [OF C P e L V(1) b] by blast
        show ?thesis
          using refines_done [where h = id and x = "int (length buf)" and y = "int (length buf)" and M = N, OF C' file_replaced_tree [OF C K L V(1) A] F kept_super [OF K]] b T
          by (simp add: t_write_def run 2(2) Let_def room_for_def)
      next
        case b: 4
        obtain d' where run: "fs_write e (mkpath toks) buf off d = (Inl Abort, d')" and C': "consistent N d'"
          and F: "free_set d' = {}" and K: "kept N d d'"
          and A: "absfs N d' = (absfs N d)(n \<mapsto> AFile a (take (length c) (splice off buf c)))"
          using fs_write_full [OF C P e L V(1) b] by blast
        have "fsys_of N d' = (fsys_of N d)\<lparr>nodes := (tree_of N d)(toks \<mapsto> File a (take (length c) (splice off buf c))), room := 0\<rparr>"
          using fsys_ofI [OF file_replaced_tree [OF C K L V(1) A] _ kept_super [OF K], of 0 N] F by simp
        from refines_halt [OF C' this, of id Abort] show ?thesis
          using b T by (simp add: t_write_def run 2(2) Let_def room_for_def)
      qed
    qed
  qed
qed

end
