(* ===== verification/TreeNew.thy ===== *)
theory TreeNew
  imports TreeRef
begin

text \<open>
  The requests that add, remove or move a name: the operation on the disk refines the one
  on trees.  The end of the theory puts all requests together.
\<close>

section \<open>Requests that change the tree\<close>

text \<open>
  create and mkdir: what they have in common, over what is known of the operation \<open>f\<close>
  in its four outcomes.
\<close>

lemma ref_new:
  assumes C: "consistent N d" and P: "ok_path toks" and need: "0 < need"
    and err: "\<And>code. new_error (absfs N d) toks = Some code \<Longrightarrow> f d = (Inr code, d)"
    and full: "new_error (absfs N d) toks = None \<Longrightarrow> card (free_set d) < need \<Longrightarrow>
      \<exists>d'. f d = (Inl Abort, d') \<and> consistent N d' \<and> absfs N d' = absfs N d \<and> free_set d' = {} \<and> kept N d d'"
    and lost: "\<And>p. new_error (absfs N d) toks = None \<Longrightarrow> alookup (absfs N d) 2 (butlast toks) = Some p \<Longrightarrow>
      need \<le> card (free_set d) \<Longrightarrow> \<not> free_slot d p \<Longrightarrow>
      \<exists>d'. f d = (Inr (- EINVAL), d') \<and> consistent N d' \<and> absfs N d' = absfs N d
        \<and> card (free_set d') = card (free_set d) - need \<and> kept N d d'"
    and made: "\<And>p. new_error (absfs N d) toks = None \<Longrightarrow> alookup (absfs N d) 2 (butlast toks) = Some p \<Longrightarrow>
      need \<le> card (free_set d) \<Longrightarrow> free_slot d p \<Longrightarrow>
      \<exists>d' x ob. f d = (Inr 0, d') \<and> x \<notin> N \<and> consistent (insert x N) d' \<and> children (Some ob) = Map.empty
        \<and> card (free_set d') = card (free_set d) - need
        \<and> absfs (insert x N) d' = (a_link p (last toks) x (absfs N d))(x \<mapsto> ob)
        \<and> kept (N - {p}) d d' \<and> slots d' p = enter (last toks) (slots d p) \<and> node_at d' x = nd"
  shows "refines id (f d) (t_new toks nd need (fsys_of N d))"
proof (cases "new_error (absfs N d) toks")
  case (Some code)
  then show ?thesis using C err by (simp add: t_new_def new_error_agrees [OF C, symmetric])
next
  case None
  then have E: "t_new_error (tree_of N d) toks = None" by (simp add: new_error_agrees [OF C, symmetric])
  show ?thesis
  proof (cases "card (free_set d) < need")
    case True
    obtain d' where d': "f d = (Inl Abort, d')" "consistent N d'" "absfs N d' = absfs N d" "free_set d' = {}" "kept N d d'"
      using full [OF None True] by blast
    have S: "fsys_of N d' = (fsys_of N d)\<lparr>room := 0\<rparr>"
      by (rule fsys_ofI_room) (use tree_of_same [OF C d'(5,3)] kept_super [OF d'(5)] d'(4) in simp_all)
    have "refines id (Inl Abort, d') (halt Abort ((fsys_of N d)\<lparr>room := 0\<rparr>))" by (rule refines_halt [OF d'(2) S])
    then show ?thesis using E True d'(1) by (simp add: t_new_def)
  next
    case False
    then have room: "need \<le> card (free_set d)" by simp
    obtain p where L: "alookup (absfs N d) 2 (butlast toks) = Some p" and pN: "p \<in> N"
      and D: "S_ISDIR (mode (inode_at d p))"
      by (rule new_parent [OF C P None])
    have T: "tree_of N d (butlast toks) = Some (node_at d p)" using L by (rule tree_of_Some)
    show ?thesis
    proof (cases "free_slot d p")
      case slot: False
      obtain d' where d': "f d = (Inr (- EINVAL), d')" "consistent N d'" "absfs N d' = absfs N d"
        "card (free_set d') = card (free_set d) - need" "kept N d d'"
        using lost [OF None L room slot] by blast
      have "fsys_of N d' = (fsys_of N d)\<lparr>room := card (free_set d) - need\<rparr>"
        by (rule fsys_ofI_room) (use tree_of_same [OF C d'(5,3)] kept_super [OF d'(5)] d'(4) in simp_all)
      then show ?thesis
        using refines_ret [OF d'(2), where h = id and x = "- EINVAL" and y = "- EINVAL"] E T False slot slot_agrees [OF D] d'(1)
        by (simp add: t_new_def)
    next
      case slot: True
      obtain d' x ob where d': "f d = (Inr 0, d')" "x \<notin> N" "consistent (insert x N) d'" "children (Some ob) = Map.empty"
        "card (free_set d') = card (free_set d) - need"
        "absfs (insert x N) d' = (a_link p (last toks) x (absfs N d))(x \<mapsto> ob)"
        "kept (N - {p}) d d'" "slots d' p = enter (last toks) (slots d p)" "node_at d' x = nd"
        using made [OF None L room slot] by blast
      have ne: "toks \<noteq> []" using P by (simp add: ok_path_def)
      have new: "alookup (absfs N d) 2 toks = None" using None by (auto simp: new_error_def split: if_splits)
      have D': "is_adir (absfs N d p)" using D pN by (simp add: is_adir_view)
      note tl = tree_of_linked [OF C L D' ne new d'(2,4,6-8), unfolded d'(9)]
      show ?thesis
        using refines_done [where h = id and x = 0 and y = 0 and M = N, OF d'(3) tl d'(5) kept_super [OF d'(7)]]
          E T False slot slot_agrees [OF D] d'(1)
        by (simp add: t_new_def)
    qed
  qed
qed

lemma ref_new_root:
  assumes "consistent N d"
  shows "t_new [] nd need (fsys_of N d) = ret (- EEXIST) (fsys_of N d)"
proof -
  obtain a s xs where "tree_of N d [] = Some (Dir a s xs)" by (rule root_node [OF assms])
  then show ?thesis by (simp add: t_new_def t_new_error_def)
qed

lemma ref_create:
  assumes C: "consistent N d" and P: "ok_fuse toks"
  shows "refines id (fs_create e (fuse_path toks) m d)
    (t_new toks (File (new_attrs e m (push_bit 15 1)) []) 1 (fsys_of N d))"
  using P
proof (cases rule: fuse_cases)
  case 1
  then show ?thesis using C root_dir_codes(5) [OF C] ref_new_root [OF C] by simp
next
  case 2
  show ?thesis
    unfolding 2(2)
  proof (rule ref_new [OF C 2(1)])
    fix p assume a: "new_error (absfs N d) toks = None" "alookup (absfs N d) 2 (butlast toks) = Some p"
      and "1 \<le> card (free_set d)"
    then have ne: "free_set d \<noteq> {}" by auto
    then have card: "card (free_set d - {Min (free_set d)}) = card (free_set d) - 1"
      by (simp add: card_Diff_singleton)
    show "\<exists>d'. fs_create e (mkpath toks) m d = (Inr (- EINVAL), d') \<and> consistent N d' \<and> absfs N d' = absfs N d
        \<and> card (free_set d') = card (free_set d) - 1 \<and> kept N d d'" if "\<not> free_slot d p"
      using fs_create_no_slot [OF C 2(1) a ne that, of e m] card by auto
    show "\<exists>d' x ob. fs_create e (mkpath toks) m d = (Inr 0, d') \<and> x \<notin> N \<and> consistent (insert x N) d'
        \<and> children (Some ob) = Map.empty \<and> card (free_set d') = card (free_set d) - 1
        \<and> absfs (insert x N) d' = (a_link p (last toks) x (absfs N d))(x \<mapsto> ob)
        \<and> kept (N - {p}) d d' \<and> slots d' p = enter (last toks) (slots d p)
        \<and> node_at d' x = File (new_attrs e m (push_bit 15 1)) []" if slot: "free_slot d p"
    proof -
      obtain d' x where x: "x = Min (free_set d)" and r: "fs_create e (mkpath toks) m d = (Inr 0, d')"
        "consistent (insert x N) d'" "free_set d' = free_set d - {x}"
        and A: "absfs (insert x N) d' = (a_link p (last toks) x (absfs N d))(x \<mapsto> AFile (new_attrs e m (push_bit 15 1)) [])"
        and k: "kept (N - {p}) d d'" "slots d' p = enter (last toks) (slots d p)"
        using fs_create_run [OF C 2(1) a ne slot, of e m] by blast
      have "x \<in> free_set d" unfolding x by (rule Min_in [OF finite_free_set ne])
      then have xN: "x \<notin> N" by (rule free_not_live [OF C])
      have "absfs (insert x N) d' x = Some (AFile (new_attrs e m (push_bit 15 1)) [])" by (simp only: A fun_upd_same)
      then have "node_at d' x = File (new_attrs e m (push_bit 15 1)) []" by (simp add: node_at_file)
      moreover have "children (Some (AFile (new_attrs e m (push_bit 15 1)) [])) = Map.empty" by simp
      moreover have "card (free_set d') = card (free_set d) - 1" using card by (simp only: r(3) x)
      ultimately show ?thesis using r(1,2) A k xN by blast
    qed
  next
    assume a: "new_error (absfs N d) toks = None" and "card (free_set d) < 1"
    then have "free_set d = {}" by simp
    then show "\<exists>d'. fs_create e (mkpath toks) m d = (Inl Abort, d') \<and> consistent N d' \<and> absfs N d' = absfs N d
        \<and> free_set d' = {} \<and> kept N d d'"
      using C fs_create_full [OF C 2(1) a, of e m] kept_refl by blast
  qed (use new_codes [OF C 2(1)] in simp_all)
qed

lemma ref_mkdir:
  assumes C: "consistent N d" and P: "ok_fuse toks"
  shows "refines id (fs_mkdir e (fuse_path toks) m d)
    (t_new toks (Dir (new_attrs e m (push_bit 14 1)) 4096 (replicate 128 None)) 2 (fsys_of N d))"
  using P
proof (cases rule: fuse_cases)
  case 1
  then show ?thesis using C root_dir_codes(6) [OF C] ref_new_root [OF C] by simp
next
  case 2
  show ?thesis
    unfolding 2(2)
  proof (rule ref_new [OF C 2(1)])
    fix p assume a: "new_error (absfs N d) toks = None" "alookup (absfs N d) 2 (butlast toks) = Some p"
      and room: "2 \<le> card (free_set d)"
    show "\<exists>d'. fs_mkdir e (mkpath toks) m d = (Inr (- EINVAL), d') \<and> consistent N d' \<and> absfs N d' = absfs N d
        \<and> card (free_set d') = card (free_set d) - 2 \<and> kept N d d'" if "\<not> free_slot d p"
      using fs_mkdir_no_slot [OF C 2(1) a room that, of e m] by auto
    show "\<exists>d' x ob. fs_mkdir e (mkpath toks) m d = (Inr 0, d') \<and> x \<notin> N \<and> consistent (insert x N) d'
        \<and> children (Some ob) = Map.empty \<and> card (free_set d') = card (free_set d) - 2
        \<and> absfs (insert x N) d' = (a_link p (last toks) x (absfs N d))(x \<mapsto> ob)
        \<and> kept (N - {p}) d d' \<and> slots d' p = enter (last toks) (slots d p)
        \<and> node_at d' x = Dir (new_attrs e m (push_bit 14 1)) 4096 (replicate 128 None)" if slot: "free_slot d p"
    proof -
      obtain d' x y where x: "x = Min (free_set d)" and y: "y = Min (free_set d - {x})"
        and r: "fs_mkdir e (mkpath toks) m d = (Inr 0, d')" "consistent (insert x N) d'" "free_set d' = free_set d - {x, y}"
        and A: "absfs (insert x N) d' = (a_link p (last toks) x (absfs N d))
          (x \<mapsto> ADir (new_attrs e m (push_bit 14 1)) 4096 Map.empty)"
        and k: "kept (N - {p}) d d'" "slots d' p = enter (last toks) (slots d p)" "slots d' x = replicate 128 None"
        using fs_mkdir_run [OF C 2(1) a room slot, of e m] by blast
      have "free_set d \<noteq> {}" using room by auto
      then have xf: "x \<in> free_set d" unfolding x by (rule Min_in [OF finite_free_set])
      then have xN: "x \<notin> N" by (rule free_not_live [OF C])
      have c1: "card (free_set d - {x}) = card (free_set d) - 1" using xf by (simp add: card_Diff_singleton)
      then have "card (free_set d - {x}) \<noteq> 0" using room by simp
      then have "free_set d - {x} \<noteq> {}" by (metis card.empty)
      then have yf: "y \<in> free_set d - {x}" unfolding y by (rule Min_in [OF finite_Diff [OF finite_free_set]])
      have "free_set d' = free_set d - {x} - {y}" by (simp only: r(3)) blast
      then have c2: "card (free_set d') = card (free_set d) - 2" using yf c1 by (simp add: card_Diff_singleton)
      have "absfs (insert x N) d' x = Some (ADir (new_attrs e m (push_bit 14 1)) 4096 Map.empty)" by (simp only: A fun_upd_same)
      then have "node_at d' x = Dir (new_attrs e m (push_bit 14 1)) 4096 (replicate 128 None)"
        by (simp add: node_at_dir k(3))
      moreover have "children (Some (ADir (new_attrs e m (push_bit 14 1)) 4096 Map.empty)) = Map.empty" by simp
      ultimately show ?thesis using r(1,2) A k(1,2) xN c2 by blast
    qed
  next
    assume a: "new_error (absfs N d) toks = None" and "card (free_set d) < 2"
    then show "\<exists>d'. fs_mkdir e (mkpath toks) m d = (Inl Abort, d') \<and> consistent N d' \<and> absfs N d' = absfs N d
        \<and> free_set d' = {} \<and> kept N d d'"
      using fs_mkdir_full [OF C 2(1), of e m] by blast
  qed (use new_codes [OF C 2(1)] in simp_all)
qed

section \<open>Requests that remove or move a name\<close>

lemma ref_removed:
  assumes C: "consistent N d" and ne: "toks \<noteq> []"
    and L: "alookup (absfs N d) 2 toks = Some n" and leaf: "children (absfs N d n) = Map.empty"
    and p: "alookup (absfs N d) 2 (butlast toks) = Some p" and C': "consistent (N - {n}) d'"
    and A: "absfs (N - {n}) d' = a_remove p (last toks) n w (absfs N d)"
    and F: "free_set d' = free_set d \<union> own d n"
    and K: "kept (N - {p}) d d'" "slots d' p = erase (last toks) (slots d p)" and k: "card (own d n) = k"
  shows "refines id (Inr 0, d') (ret 0 ((fsys_of N d)\<lparr>nodes := t_remove toks w (tree_of N d), room := card (free_set d) + k\<rparr>))"
proof -
  have "own d n \<inter> free_set d = {}" using own_not_free [OF C live_node(1) [OF C L]] .
  then have "card (free_set d') = card (free_set d) + k" 
    unfolding F k [symmetric] by (subst card_Un_disjoint) (auto simp: own_def)
  from refines_done [where h = id and x = 0 and y = 0, OF C' tree_of_removed [OF C p ne L leaf A K] this kept_super [OF K(1)]]
  show ?thesis by simp
qed

lemma ref_unlink:
  assumes C: "consistent N d" and P: "ok_path toks"
  shows "refines id (fs_unlink e (mkpath toks) d) (t_unlink e toks (fsys_of N d))"
proof (cases "del_error (absfs N d) toks")
  case (Some code)
  then show ?thesis
    using C del_codes(1) [OF C P Some] by (simp add: t_unlink_def del_error_agrees [OF C, symmetric])
next
  case None
  then have E: "t_del_error (tree_of N d) toks = None" by (simp add: del_error_agrees [OF C, symmetric])
  have ne: "toks \<noteq> []" using P by (simp add: ok_path_def)
  obtain n where L: "alookup (absfs N d) 2 toks = Some n"
    using None by (auto simp: del_error_def split: option.splits if_splits)
  from C L show ?thesis
  proof (cases rule: node_view)
    case (1 a s m)
    then show ?thesis using C E fs_unlink_dir [OF C P L 1(1)] tree_of_Some [OF L] by (simp add: t_unlink_def)
  next
    case V: (2 a c)
    obtain d' p where d': "alookup (absfs N d) 2 (butlast toks) = Some p"
      "fs_unlink e (mkpath toks) d = (Inr 0, d')" "consistent (N - {n}) d'"
      "absfs (N - {n}) d' = a_remove p (last toks) n (now e) (absfs N d)"
      "free_set d' = free_set d \<union> own d n" "kept (N - {p}) d d'" "slots d' p = erase (last toks) (slots d p)"
      using fs_unlink_run [OF C P L V(1), of e] by blast
    have own: "card (own d n - {n}) = blocks_for (length c)" "finite (own d n)"
      using file_own [OF C live_node(1) [OF C L] V(2)] by simp_all
    have "n \<in> own d n" by simp
    then have k: "card (own d n) = Suc (blocks_for (length c))" using own by (metis card_Suc_Diff1)
    have leaf: "children (absfs N d n) = Map.empty" by (simp add: V(1))
    show ?thesis
      using ref_removed [OF C ne L leaf d'(1,3-7) k] E d'(2) tree_of_Some [OF L] V(3) by (simp add: t_unlink_def)
  qed
qed

lemma ref_rmdir:
  assumes C: "consistent N d" and P: "ok_path toks"
  shows "refines id (fs_rmdir e (mkpath toks) d) (t_rmdir e toks (fsys_of N d))"
proof (cases "del_error (absfs N d) toks")
  case (Some code)
  then show ?thesis
    using C del_codes(2) [OF C P Some] by (simp add: t_rmdir_def del_error_agrees [OF C, symmetric])
next
  case None
  then have E: "t_del_error (tree_of N d) toks = None" by (simp add: del_error_agrees [OF C, symmetric])
  have ne: "toks \<noteq> []" using P by (simp add: ok_path_def)
  obtain n where L: "alookup (absfs N d) 2 toks = Some n"
    using None by (auto simp: del_error_def split: option.splits if_splits)
  from C L show ?thesis
  proof (cases rule: node_view)
    case (2 a c)
    then show ?thesis using C E fs_rmdir_file [OF C P L 2(1)] tree_of_Some [OF L] by (simp add: t_rmdir_def)
  next
    case V: (1 a s m)
    have empty: "entries (slots d n) = [] \<longleftrightarrow> m = Map.empty" unfolding V(4) by (rule entries_empty)
    show ?thesis
    proof (cases "m = Map.empty")
      case False
      then show ?thesis
        using C E fs_rmdir_full [OF C P L V(1) False] tree_of_Some [OF L] V(3) empty by (simp add: t_rmdir_def)
    next
      case True
      then have V1: "absfs N d n = Some (ADir a s Map.empty)" using V(1) by simp
      obtain d' p where d': "alookup (absfs N d) 2 (butlast toks) = Some p"
        "fs_rmdir e (mkpath toks) d = (Inr 0, d')" "consistent (N - {n}) d'"
        "absfs (N - {n}) d' = a_remove p (last toks) n (now e) (absfs N d)"
        "free_set d' = free_set d \<union> own d n" "kept (N - {p}) d d'" "slots d' p = erase (last toks) (slots d p)"
        using fs_rmdir_run [OF C P L V1, of e] by blast
      have n: "n \<in> N" using live_node(1) [OF C L] .
      have D: "S_ISDIR (mode (inode_at d n))" using V(1) n by (rule adir_node)
      have "n \<noteq> ptr (inode_at d n) 0"
        using consistentD(2) [OF C n] D by (simp add: node_ok_def data_blocks_def)
      then have k: "card (own d n) = 2" unfolding dir_own [OF D] by simp
      have leaf: "children (absfs N d n) = Map.empty" by (simp add: V1)
      show ?thesis
        using ref_removed [OF C ne L leaf d'(1,3-7) k] E d'(2) tree_of_Some [OF L] V(3) empty True
        by (simp add: t_rmdir_def)
    qed
  qed
qed

lemma ref_rename:
  assumes C: "consistent N d" and P: "ok_path src" "ok_path dst"
  shows "refines id (fs_rename (mkpath src) (mkpath dst) d) (t_rename src dst (fsys_of N d))"
proof (cases "rename_error (absfs N d) src dst")
  case (Some code)
  then show ?thesis
    using C rename_checks [OF C P Some] by (simp add: t_rename_def rename_error_agrees [OF C, symmetric])
next
  case None
  then have E: "t_rename_error (tree_of N d) src dst = None" by (simp add: rename_error_agrees [OF C, symmetric])
  show ?thesis
  proof (cases "27 < length (last dst)")
    case True
    then show ?thesis using C E fs_rename_long [OF C P None] by (simp add: t_rename_def)
  next
    case False
    then have short: "length (last dst) \<le> 27" by simp
    have ne: "src \<noteq> []" "dst \<noteq> []" using P by (simp_all add: ok_path_def)
    obtain n where n: "alookup (absfs N d) 2 src = Some n" and new: "alookup (absfs N d) 2 dst = None"
      and dir: "butlast dst = butlast src"
      using None by (auto simp: rename_error_def split: if_splits)
    obtain d' p where d': "alookup (absfs N d) 2 (butlast src) = Some p"
      "fs_rename (mkpath src) (mkpath dst) d = (Inr 0, d')" "consistent N d'"
      "absfs N d' = a_rename p (last src) (last dst) (absfs N d)" "free_set d' = free_set d"
      "kept (N - {p}) d d'" "slots d' p = relabel (last src) (last dst) (slots d p)"
      using fs_rename_done [OF C P None short] by blast
    show ?thesis
      using refines_nodes [where h = id and x = 0 and y = 0 and M = N, OF d'(3)
          tree_of_moved [OF C d'(1) ne n new dir d'(4,6,7)] d'(5) kept_super [OF d'(6)]] E d'(2) short
      by (simp add: t_rename_def)
  qed
qed

section \<open>All requests\<close>

lemma request_refines:
  assumes C: "consistent N d" and e: "wf_env e" and r: "ok_request r"
  shows "refines hide_reply (fs_ops e r d) (tree_ops e r (fsys_of N d))"
proof -
  have P: "ok_fuse (comps p)" "fuse_path (comps p) = p" if "canonical p" for p using comps_fuse [OF that] by simp_all
  have Q: "ok_path (comps p) \<and> mkpath (comps p) = p" if "canonical p" "p \<noteq> [slash]" for p
    using P [OF that(1)] that(2) by (cases rule: fuse_cases [OF P(1) [OF that(1)]]) auto
  show ?thesis
  proof (cases r)
    case Init
    then show ?thesis using ref_init [OF C] by simp
  next
    case (Statfs p st)
    then show ?thesis using ref_statfs [OF C] C by (simp add: andThen_def ret_run refines_stay [unfolded ret_def halt_def])
  next
    case (Getattr p sb)
    then have c: "canonical p" using r by simp
    show ?thesis unfolding Getattr fs_ops.simps tree_ops.simps split_beta
      using ref_getattr [OF C P(1) [OF c], of sb] P(2) [OF c]
      by (intro refines_map [where h = "\<lambda>(r, s). (r, hide s)"]) (simp_all add: split_beta)
  next
    case (Readdir p)
    then have c: "canonical p" using r by simp
    show ?thesis unfolding Readdir fs_ops.simps tree_ops.simps split_beta
      using ref_readdir [OF C P(1) [OF c]] P(2) [OF c]
      by (intro refines_map [where h = "\<lambda>(r, l). (r, map (\<lambda>(t, s). (t, hide s)) l)"]) (simp_all add: split_beta)
  next
    case (Read p len off)
    then have c: "canonical p" using r by simp
    show ?thesis unfolding Read fs_ops.simps tree_ops.simps split_beta
      using ref_read [OF C P(1) [OF c], of e len off] P(2) [OF c]
      by (intro refines_map [where h = id]) (simp_all add: split_beta)
  next
    case (Rename s t)
    then have c: "canonical s" "s \<noteq> [slash]" "canonical t" "t \<noteq> [slash]" using r by simp_all
    show ?thesis unfolding Rename fs_ops.simps tree_ops.simps
      using ref_rename [OF C, of "comps s" "comps t"] Q [OF c(1,2)] Q [OF c(3,4)] by (intro refines_code) simp
  next
    case (Chmod p m)
    then have c: "canonical p" using r by simp
    show ?thesis unfolding Chmod fs_ops.simps tree_ops.simps
      using ref_chmod [OF C P(1) [OF c], of e m] P(2) [OF c] by (intro refines_code) simp
  next
    case (Create p m)
    then have c: "canonical p" using r by simp
    show ?thesis unfolding Create fs_ops.simps tree_ops.simps
      using ref_create [OF C P(1) [OF c], of e m] P(2) [OF c] by (intro refines_code) simp
  next
    case (Mkdir p m)
    then have c: "canonical p" using r by simp
    show ?thesis unfolding Mkdir fs_ops.simps tree_ops.simps
      using ref_mkdir [OF C P(1) [OF c], of e m] P(2) [OF c] by (intro refines_code) simp
  next
    case (Unlink p)
    then have c: "canonical p" "p \<noteq> [slash]" using r by simp_all
    show ?thesis unfolding Unlink fs_ops.simps tree_ops.simps
      using ref_unlink [OF C, of "comps p" e] Q [OF c] by (intro refines_code) simp
  next
    case (Rmdir p)
    then have c: "canonical p" "p \<noteq> [slash]" using r by simp_all
    show ?thesis unfolding Rmdir fs_ops.simps tree_ops.simps
      using ref_rmdir [OF C, of "comps p" e] Q [OF c] by (intro refines_code) simp
  next
    case (Write p buf off)
    then have c: "canonical p" using r by simp
    show ?thesis unfolding Write fs_ops.simps tree_ops.simps
      using ref_write [OF C P(1) [OF c] e, of buf off] P(2) [OF c] by (intro refines_code) simp
  next
    case (Truncate p len)
    then have c: "canonical p" using r by simp
    show ?thesis unfolding Truncate fs_ops.simps tree_ops.simps
      using ref_truncate [OF C P(1) [OF c], of e len] P(2) [OF c] by (intro refines_code) simp
  next
    case (Utime p ut)
    then have c: "canonical p" using r by simp
    show ?thesis unfolding Utime fs_ops.simps tree_ops.simps
      using ref_utime [OF C P(1) [OF c], of e ut] P(2) [OF c] by (intro refines_code) simp
  qed
qed

section \<open>Sessions\<close>

text \<open>One request after the other: what each leaves is a disk the next can start from.\<close>

lemma refines_andThen:
  assumes R: "refines h (m d) (M S)"
    and F: "\<And>x d' N. consistent N d' \<Longrightarrow> refines k (f x d') (g (h x) (fsys_of N d'))"
  shows "refines k (andThen m f d) (andThen M g S)"
proof -
  obtain r d' where m: "m d = (r, d')" by (cases "m d")
  from R m obtain N where C: "consistent N d'" and M: "M S = (map_sum id h r, fsys_of N d')"
    by (cases "M S") (auto simp: refines_def)
  show ?thesis
  proof (cases r)
    case (Inl s)
    then show ?thesis using C by (auto simp: andThen_def m M refines_def)
  next
    case (Inr x)
    then show ?thesis using F [OF C, of x] by (simp add: andThen_def m M)
  qed
qed

primrec tree_session :: "(env \<times> request) list \<Rightarrow> (fsys, reply list) io" where
  "tree_session [] = ret []"
| "tree_session (r # rs) =
     andThen (tree_ops (fst r) (snd r)) (\<lambda>x. andThen (tree_session rs) (\<lambda>xs. ret (x # xs)))"

lemma session_refines:
  assumes "list_all good rs" and "consistent N d"
  shows "refines (map hide_reply) (session rs d) (tree_session rs (fsys_of N d))"
  using assms
proof (induction rs arbitrary: N d)
  case Nil
  then show ?case by (simp add: ret_run refines_stay [unfolded ret_def halt_def])
next
  case (Cons r rs)
  have gr: "good r" and rest: "list_all good rs" using Cons.prems(1) by simp_all
  then have g: "wf_env (fst r)" "ok_request (snd r)" by (simp_all add: good_def)
  show ?case
    unfolding session.simps tree_session.simps
  proof (rule refines_andThen [where h = hide_reply])
    show "refines hide_reply (fs_ops (fst r) (snd r) d) (tree_ops (fst r) (snd r) (fsys_of N d))"
      by (rule request_refines [OF Cons.prems(2) g])
  next
    fix x d' N' assume "consistent N' d'"
    then show "refines (map hide_reply) (andThen (session rs) (\<lambda>xs. ret (x # xs)) d')
        (andThen (tree_session rs) (\<lambda>xs. ret (hide_reply x # xs)) (fsys_of N' d'))"
      by (intro refines_map [where h = "map hide_reply"] Cons.IH [OF rest]) simp_all
  qed
qed

end
