(* ===== verification/Lab4fuse.thy ===== *)
theory Lab4fuse
  imports TreeNew
begin

text \<open>
  The main program \<open>lab4fuse.c\<close>: the checks of its arguments, the image it opens and what it
  hands to FUSE. \<open>fuse_opt_parse\<close> and \<open>fuse_main\<close> are the library's, and parameters here.
\<close>

section \<open>The program\<close>

text \<open>\<open>struct data\<close>, filled in by the option parser; it starts out as zeros.\<close>

record data =
  image_name :: "cstring option"
  part :: int
  cmd_mode :: int

definition data_0 :: data where
  "data_0 = \<lparr>image_name = None, part = 0, cmd_mode = 0\<rparr>"

definition opts :: "string list" where
  "opts = [''-image %s'']"

text \<open>The usage text when it is printed, and the image once it is open. The two messages of
  \<open>block_init\<close> are not kept.\<close>

record process =
  printed :: "string list"
  image :: "disk option"

definition usage :: "(process, unit) io" where
  "usage s = (Inr (), s\<lparr>printed := printed s @
     [''usage: ./lab4fuse -image disk.img directory '',
      ''             disk.img  - name of the image file to mount'',
      ''             directory - directory to mount it on'']\<rparr>)"

type_synonym opt_parser = "string list \<Rightarrow> data \<Rightarrow> cstring list \<Rightarrow> (data \<times> cstring list) option"
type_synonym fuse_loop = "cstring list \<Rightarrow> (env \<Rightarrow> request \<Rightarrow> (disk, reply) io) \<Rightarrow> (disk, int) io"

text \<open>
  \<open>main\<close>: \<open>None\<close> of the parser is its result -1. Without an image name \<open>block_init\<close> is
  called with a null pointer.
\<close>

definition lab4_main :: "opt_parser \<Rightarrow> (cstring \<Rightarrow> disk option) \<Rightarrow> fuse_loop \<Rightarrow> cstring list \<Rightarrow> (process, int) io" where
  "lab4_main fuse_opt_parse host fuse_main argv =
     (if length argv \<noteq> 4 then andThen usage (\<lambda>_. halt (Exit 1))
      else case fuse_opt_parse opts data_0 argv of
        None \<Rightarrow> andThen usage (\<lambda>_. halt (Exit 1))
      | Some (dat, args) \<Rightarrow> (case image_name dat of
          None \<Rightarrow> halt Undef
        | Some file \<Rightarrow> (\<lambda>s. case block_init host file of
            Inl e \<Rightarrow> (Inl e, s)
          | Inr d \<Rightarrow> (case fuse_main args fs_ops d of (r, d') \<Rightarrow> (r, s\<lparr>image := Some d'\<rparr>)))))"

section \<open>What it does\<close>

text \<open>Wrong arguments: the usage text, exit code 1, and no image is opened.\<close>

lemma lab4_main_usage:
  assumes "length argv \<noteq> 4 \<or> fuse_opt_parse opts data_0 argv = None"
  shows "lab4_main fuse_opt_parse host fuse_main argv s = (Inl (Exit 1), snd (usage s))"
  using assms by (auto simp: lab4_main_def andThen_def halt_def usage_def)

lemma lab4_main_no_image:
  assumes "length argv = 4" and "fuse_opt_parse opts data_0 argv = Some (dat, args)" and "image_name dat = Some nm"
    and "block_init host nm = Inl e"
  shows "lab4_main fuse_opt_parse host fuse_main argv s = (Inl e, s)"
  using assms by (simp add: lab4_main_def)

section \<open>The loop of FUSE\<close>

text \<open>
  What FUSE calls, and in which order, is up to the kernel and the programs that use the mounted
  directory: \<open>c log\<close> is the next call when \<open>log\<close> are the calls so far with their replies, and
  \<open>None\<close> when the directory is unmounted. \<open>init\<close> is the first call, and paths are canonical.
\<close>

type_synonym exchange = "(env \<times> request) \<times> reply"
type_synonym caller = "exchange list \<Rightarrow> (env \<times> request) option"

definition fuse_caller :: "caller \<Rightarrow> bool" where
  "fuse_caller c \<longleftrightarrow> (\<exists>e. c [] = Some (e, Init)) \<and> (\<forall>log l. c log = Some l \<longrightarrow> good l)"

text \<open>
  The loop with any operations vector, each call made when the one before has returned, for \<open>n\<close> calls
  at most. Without \<open>-s\<close> nothing but the callers makes them wait for each other (theory \<open>Threads\<close>).
\<close>

fun fuse_session :: "nat \<Rightarrow> (env \<Rightarrow> request \<Rightarrow> (disk, reply) io) \<Rightarrow> caller \<Rightarrow> exchange list \<Rightarrow> (disk, exchange list) io" where
  "fuse_session 0 ops c log = ret log"
| "fuse_session (Suc n) ops c log = (case c log of
     None \<Rightarrow> ret log
   | Some l \<Rightarrow> andThen (ops (fst l) (snd l)) (\<lambda>x. fuse_session n ops c (log @ [(l, x)])))"

definition one_at_a_time :: "fuse_loop \<Rightarrow> cstring list \<Rightarrow> nat \<Rightarrow> caller \<Rightarrow> bool" where
  "one_at_a_time fuse_main args n c \<longleftrightarrow>
     (\<forall>ops d. fuse_main args ops d = andThen (fuse_session n ops c []) (\<lambda>log. ret 0) d)"

text \<open>The calls of a log are those the callers make.\<close>

definition asked :: "caller \<Rightarrow> exchange list \<Rightarrow> bool" where
  "asked c log \<longleftrightarrow> (\<forall>i<length log. c (take i log) = Some (fst (log ! i)))"

lemma asked_Nil: "asked c []"
  by (simp add: asked_def)

lemma asked_snoc: "asked c log \<Longrightarrow> c log = Some l \<Longrightarrow> asked c (log @ [(l, x)])"
  by (auto simp: asked_def nth_append less_Suc_eq)

lemma tree_session_snoc:
  "tree_session (rs @ [l]) S = (case tree_session rs S of
     (Inl s, S') \<Rightarrow> (Inl s, S')
   | (Inr xs, S') \<Rightarrow> (case tree_ops (fst l) (snd l) S' of (Inl s, T) \<Rightarrow> (Inl s, T) | (Inr x, T) \<Rightarrow> (Inr (xs @ [x]), T)))"
  by (induction rs arbitrary: S) (auto simp: andThen_def ret_def split: prod.splits sum.splits)

text \<open>
  Served to the end, the log is what the tree specification answers to the calls in it; stopped, the
  specification stops at the same call with the same outcome.
\<close>

definition answered :: "caller \<Rightarrow> nat \<Rightarrow> fsys \<Rightarrow> exchange list \<Rightarrow> (stop + int) \<times> disk \<Rightarrow> bool" where
  "answered c n S log r \<longleftrightarrow> (case r of
     (Inr k, d) \<Rightarrow> k = 0 \<and> (length log = n \<or> c log = None)
       \<and> (\<exists>N. consistent N d \<and> tree_session (map fst log) S = (Inr (map (hide_reply \<circ> snd) log), fsys_of N d))
   | (Inl s, d) \<Rightarrow> (\<exists>l. c log = Some l \<and> fst (tree_session (map fst log @ [l]) S) = Inl s
       \<and> (s \<noteq> Undef \<longrightarrow> (\<exists>N. consistent N d \<and> snd (tree_session (map fst log @ [l]) S) = fsys_of N d))))"

lemma fuse_session_answered:
  assumes "fuse_caller c" and "asked c log" and "consistent N d"
    and "tree_session (map fst log) S = (Inr (map (hide_reply \<circ> snd) log), fsys_of N d)"
  shows "\<exists>log'. asked c log' \<and> answered c (length log + n) S log' (andThen (fuse_session n fs_ops c log) (\<lambda>log. ret 0) d)"
  using assms(2-4)
proof (induction n arbitrary: log N d)
  case 0
  then show ?case by (intro exI [of _ log]) (auto simp: answered_def ret_def andThen_def)
next
  case (Suc n)
  show ?case
  proof (cases "c log")
    case None
    then show ?thesis using Suc.prems by (intro exI [of _ log]) (auto simp: answered_def ret_def andThen_def)
  next
    case (Some l)
    then have "wf_env (fst l)" "ok_request (snd l)" using assms(1) by (metis fuse_caller_def good_def)+
    then have "refines hide_reply (fs_ops (fst l) (snd l) d) (tree_ops (fst l) (snd l) (fsys_of N d))"
      by (rule request_refines [OF Suc.prems(2)])
    moreover obtain r d' where m: "fs_ops (fst l) (snd l) d = (r, d')" by (cases "fs_ops (fst l) (snd l) d")
    ultimately obtain N' where N': "consistent N' d'"
      and t: "tree_ops (fst l) (snd l) (fsys_of N d) = (map_sum id hide_reply r, fsys_of N' d')"
      unfolding refines_def by (metis fst_conv snd_conv prod.collapse)
    note T = tree_session_snoc [of "map fst log" l S, unfolded Suc.prems(3) prod.case sum.case t]
    show ?thesis
    proof (cases r)
      case (Inl s)
      have "answered c (length log + Suc n) S log (Inl s, d')"
        unfolding answered_def using Some N' T Inl by auto
      then show ?thesis using Suc.prems(1) Some m Inl by (auto simp: andThen_def simp del: fs_ops.simps)
    next
      case (Inr x)
      have "andThen (fuse_session (Suc n) fs_ops c log) k d = andThen (fuse_session n fs_ops c (log @ [(l, x)])) k d'" for k :: "_ \<Rightarrow> (disk, int) io"
        using Some m Inr by (simp add: andThen_def del: fs_ops.simps)
      moreover have "tree_session (map fst (log @ [(l, x)])) S = (Inr (map (hide_reply \<circ> snd) (log @ [(l, x)])), fsys_of N' d')"
        using T Inr by simp
      ultimately show ?thesis
        using Suc.IH [OF asked_snoc [OF Suc.prems(1) Some] N'] by (metis add_Suc_shift length_append_singleton)
    qed
  qed
qed

lemma lab4_main_serves:
  assumes "one_at_a_time fuse_main args n c" and "fuse_caller c" and "length argv = 4"
    and "fuse_opt_parse opts data_0 argv = Some (dat, args)" and "image_name dat = Some nm"
    and "block_init host nm = Inr d" and "consistent N d"
  shows "\<exists>log r d'. asked c log \<and> answered c n (fsys_of N d) log (r, d')
    \<and> lab4_main fuse_opt_parse host fuse_main argv s = (r, s\<lparr>image := Some d'\<rparr>)"
proof -
  obtain r d' where f: "andThen (fuse_session n fs_ops c []) (\<lambda>log. ret (0 :: int)) d = (r, d')"
    by (cases "andThen (fuse_session n fs_ops c []) (\<lambda>log. ret (0 :: int)) d")
  then have "fuse_main args fs_ops d = (r, d')" using assms(1) by (simp only: one_at_a_time_def)
  then have "lab4_main fuse_opt_parse host fuse_main argv s = (r, s\<lparr>image := Some d'\<rparr>)"
    using assms(3-6) by (simp add: lab4_main_def)
  moreover obtain log where "asked c log" "answered c n (fsys_of N d) log (r, d')"
    using fuse_session_answered [OF assms(2) asked_Nil assms(7), of "fsys_of N d" n] f by (auto simp: ret_def)
  ultimately show ?thesis by blast
qed

text \<open>A caller who unlinks a file if \<open>getattr\<close> has found it.\<close>

definition tidy_caller :: "env \<Rightarrow> stat \<Rightarrow> cstring \<Rightarrow> caller" where
  "tidy_caller e sb p log = (case map snd log of
     [] \<Rightarrow> Some (e, Init)
   | [_] \<Rightarrow> Some (e, Getattr p sb)
   | [_, RStat r _] \<Rightarrow> if r = 0 then Some (e, Unlink p) else None
   | _ \<Rightarrow> None)"

lemma tidy_caller_ok:
  assumes "wf_env e" and "canonical p" and "p \<noteq> [slash]"
  shows "fuse_caller (tidy_caller e sb p)"
  using assms
  by (auto simp: fuse_caller_def tidy_caller_def good_def split: list.splits reply.splits if_splits)

end
