(* ===== verification/Harness.thy ===== *)
theory Harness
  imports TreeNew
begin

text \<open>
  Programs that use the file system through its operations vector, as trees of
  interactions: the next call and what follows for each reply. \<open>run\<close> executes such a
  program on a disk; \<open>chk\<close> computes on trees of paths the condition under which the
  program ends well, and is sound for \<open>run\<close>.
\<close>

section \<open>Programs\<close>

text \<open>How a program can go wrong by itself: a failed \<open>ck_assert\<close>, a loop that does not
  end, an access outside an array.\<close>

datatype fault = Check_failed | Endless | Out_of_bounds

datatype 'a prog =
    Return 'a
  | Stuck fault
  | Call request "reply \<Rightarrow> 'a prog"
  | Open cstring "'a prog"
  | Time "int \<Rightarrow> 'a prog"
  | Random "int \<Rightarrow> 'a prog"
  | Sleep int "'a prog"

primrec bind :: "'a prog \<Rightarrow> ('a \<Rightarrow> 'b prog) \<Rightarrow> 'b prog" where
  "bind (Return x) f = f x"
| "bind (Stuck w) f = Stuck w"
| "bind (Call r k) f = Call r (\<lambda>x. bind (k x) f)"
| "bind (Open file p) f = Open file (bind p f)"
| "bind (Time k) f = Time (\<lambda>x. bind (k x) f)"
| "bind (Random k) f = Random (\<lambda>x. bind (k x) f)"
| "bind (Sleep n p) f = Sleep n (bind p f)"

text \<open>Statements one after the other, and a loop over a list.\<close>

fun steps :: "unit prog list \<Rightarrow> unit prog" where
  "steps [] = Return ()"
| "steps [p] = p"
| "steps (p # q # ps) = bind p (\<lambda>_. steps (q # ps))"

primrec each :: "'a list \<Rightarrow> ('a \<Rightarrow> unit prog) \<Rightarrow> unit prog" where
  "each [] f = Return ()"
| "each (x # xs) f = bind (f x) (\<lambda>_. each xs f)"

definition ck_assert :: "bool \<Rightarrow> unit prog" where
  "ck_assert b = (if b then Return () else Stuck Check_failed)"

lemma bind_assoc: "bind (bind p f) g = bind p (\<lambda>x. bind (f x) g)"
  by (induction p) auto

lemma bind_Return: "bind p Return = p"
  by (induction p) auto

section \<open>Running a program\<close>

text \<open>
  What the program meets outside: at each interaction the clock, what the stack frames of
  the file system's functions contain and the next value of \<open>random()\<close>; and the files
  \<open>block_init\<close> can open. \<open>fuse_get_context\<close> of \<open>test2.c\<close> answers with fixed numbers.
\<close>

record host =
  clock :: "nat \<Rightarrow> int"
  frames :: "nat \<Rightarrow> string \<Rightarrow> byte list"
  entropy :: "nat \<Rightarrow> int"
  images :: "cstring \<Rightarrow> disk option"

record fuse_context =
  uid_c :: u32
  gid_c :: u32

definition ctx :: fuse_context where
  "ctx = \<lparr>uid_c = 501, gid_c = 502\<rparr>"

definition env_at :: "host \<Rightarrow> nat \<Rightarrow> env" where
  "env_at H t = \<lparr>now = word_of_int (clock H t), ctx_uid = uid_c ctx, ctx_gid = gid_c ctx, stack = frames H t\<rparr>"

datatype 'a outcome = Done 'a | Faulty fault | Ended stop

primrec run :: "host \<Rightarrow> 'a prog \<Rightarrow> nat \<Rightarrow> disk \<Rightarrow> 'a outcome \<times> disk" where
  "run H (Return x) = (\<lambda>t d. (Done x, d))"
| "run H (Stuck w) = (\<lambda>t d. (Faulty w, d))"
| "run H (Call r k) = (\<lambda>t d. case fs_ops (env_at H t) r d of
     (Inl s, d') \<Rightarrow> (Ended s, d')
   | (Inr x, d') \<Rightarrow> run H (k x) (Suc t) d')"
| "run H (Open file p) = (\<lambda>t d. case block_init (images H) file of
     Inl s \<Rightarrow> (Ended s, d)
   | Inr d' \<Rightarrow> run H p (Suc t) d')"
| "run H (Time k) = (\<lambda>t d. run H (k (clock H t)) (Suc t) d)"
| "run H (Random k) = (\<lambda>t d. run H (k (entropy H t)) (Suc t) d)"
| "run H (Sleep n p) = (\<lambda>t d. run H p (Suc t) d)"

section \<open>Requests with a slash at the end\<close>

text \<open>\<open>getattr\<close> of a path that ends in a slash is \<open>getattr\<close> of the path without it.\<close>

definition served :: "request \<Rightarrow> bool" where
  "served r \<longleftrightarrow> ok_request r
     \<or> (case r of Getattr p sb \<Rightarrow> 1 < length p \<and> length p \<le> 300 \<and> canonical (butlast p) \<and> p = butlast p @ [slash]
        \<and> butlast p \<noteq> [slash] | _ \<Rightarrow> False)"

lemma getattr_slash:
  assumes C: "consistent N d" and P: "ok_path toks" and len: "length (mkpath toks) < 300"
  shows "fs_getattr (mkpath toks @ [slash]) sb d = fs_getattr (mkpath toks) sb d"
    and "comps (mkpath toks @ [slash]) = toks"
proof -
  have ok: "list_all ok_token toks" "toks \<noteq> []" "length toks \<le> 11" using P by (simp_all add: ok_path_def)
  have "path2inum (mkpath toks @ [slash]) d = path2inum (mkpath toks) d"
    using path2inum_run [OF C ok(1,2)] len ok(3) by simp
  then show "fs_getattr (mkpath toks @ [slash]) sb d = fs_getattr (mkpath toks) sb d"
    by (simp add: fs_getattr_def andThen_def)
  show "comps (mkpath toks @ [slash]) = toks" using path_tokens [OF P] by (simp add: comps_def)
qed

lemma served_refines:
  assumes C: "consistent N d" and e: "wf_env e" and r: "served r"
  shows "refines hide_reply (fs_ops e r d) (tree_ops e r (fsys_of N d))"
proof (cases "ok_request r")
  case True
  with C e show ?thesis by (rule request_refines)
next
  case False
  then obtain p q sb where p: "r = Getattr (q @ [slash]) sb" "canonical q" "q \<noteq> [slash]" "length q < 300"
    using r by (cases r) (auto simp: served_def)
  note c = comps_fuse [OF p(2)]
  have P: "ok_path (comps q)" and q: "q = mkpath (comps q)"
    using c p(3) by (cases rule: fuse_cases [OF c(1)]; simp)+
  have len: "length (mkpath (comps q)) < 300" using q p(4) by simp
  note g = getattr_slash [OF C P len, folded q]
  have "fs_ops e r d = fs_ops e (Getattr q sb) d" by (simp add: p(1) andThen_def g(1))
  moreover have "tree_ops e r = tree_ops e (Getattr q sb)" by (simp add: p(1) g(2))
  ultimately show ?thesis using request_refines [OF C e, of "Getattr q sb"] p(2) by simp
qed

section \<open>A condition for a good end, computed on trees\<close>

primrec chk :: "host \<Rightarrow> 'a prog \<Rightarrow> nat \<Rightarrow> fsys \<Rightarrow> ('a \<Rightarrow> nat \<Rightarrow> fsys \<Rightarrow> bool) \<Rightarrow> bool" where
  "chk H (Return x) = (\<lambda>t S Q. Q x t S)"
| "chk H (Stuck w) = (\<lambda>t S Q. False)"
| "chk H (Call r k) = (\<lambda>t S Q. served r \<and> (case tree_ops (env_at H t) r S of
     (Inl s, S') \<Rightarrow> False
   | (Inr y, S') \<Rightarrow> \<forall>x. hide_reply x = y \<longrightarrow> chk H (k x) (Suc t) S' Q))"
| "chk H (Open file p) = (\<lambda>t S Q. \<exists>N d. block_init (images H) file = Inr d \<and> consistent N d
     \<and> chk H p (Suc t) (fsys_of N d) Q)"
| "chk H (Time k) = (\<lambda>t S Q. chk H (k (clock H t)) (Suc t) S Q)"
| "chk H (Random k) = (\<lambda>t S Q. chk H (k (entropy H t)) (Suc t) S Q)"
| "chk H (Sleep n p) = (\<lambda>t S Q. chk H p (Suc t) S Q)"

definition wf_host :: "host \<Rightarrow> bool" where
  "wf_host H \<longleftrightarrow> (\<forall>t v. length (frames H t v) = FS_BLOCK_SIZE)"

lemma wf_env_at: "wf_host H \<Longrightarrow> wf_env (env_at H t)"
  by (simp add: wf_host_def wf_env_def env_at_def)

lemma chk_sound:
  assumes H: "wf_host H"
  shows "consistent N d \<Longrightarrow> chk H p t (fsys_of N d) Q \<Longrightarrow>
    \<exists>x d' N' t'. run H p t d = (Done x, d') \<and> consistent N' d' \<and> Q x t' (fsys_of N' d')"
proof (induction p arbitrary: N d t)
  case (Call r k)
  then have s: "served r" by simp
  obtain y S' where y: "tree_ops (env_at H t) r (fsys_of N d) = (Inr y, S')"
    and k: "\<And>x. hide_reply x = y \<Longrightarrow> chk H (k x) (Suc t) S' Q"
    using Call.prems(2) by (auto split: prod.splits sum.splits)
  have R: "refines hide_reply (fs_ops (env_at H t) r d) (Inr y, S')"
    using served_refines [OF Call.prems(1) wf_env_at [OF H] s, of t] by (simp add: y)
  obtain o1 d' where o1: "fs_ops (env_at H t) r d = (o1, d')" by (cases "fs_ops (env_at H t) r d")
  obtain x N' where x: "o1 = Inr x" "hide_reply x = y" "consistent N' d'" "fsys_of N' d' = S'"
    using R by (cases o1) (auto simp: refines_def o1)
  have "chk H (k x) (Suc t) (fsys_of N' d') Q" using k [OF x(2)] x(4) by simp
  with x(3) have "\<exists>x' d'' N'' t'. run H (k x) (Suc t) d' = (Done x', d'') \<and> consistent N'' d'' \<and> Q x' t' (fsys_of N'' d'')"
    by (intro Call.IH) auto
  then show ?case by (simp add: o1 x(1))
next
  case (Open f p)
  then obtain N' d' where "block_init (images H) f = Inr d'" "consistent N' d'" "chk H p (Suc t) (fsys_of N' d') Q"
    by auto
  then show ?case using Open.IH [of N' d' "Suc t"] by simp
qed auto

lemma chk_bind [simp]: "chk H (bind p f) t S Q = chk H p t S (\<lambda>x t S. chk H (f x) t S Q)"
  by (induction p arbitrary: t S) (simp_all split: prod.splits sum.splits)

lemma chk_mono: "chk H p t S Q \<Longrightarrow> (\<And>x t S. Q x t S \<Longrightarrow> R x t S) \<Longrightarrow> chk H p t S R"
  by (induction p arbitrary: t S) (fastforce split: prod.splits sum.splits)+

lemma chk_ck_assert [simp]: "chk H (ck_assert b) t S Q \<longleftrightarrow> b \<and> Q () t S"
  by (simp add: ck_assert_def)

end
