(* ===== verification/Names.thy ===== *)
theory Names
  imports Harness
begin

text \<open>
  String literals: C strings written as lists of characters, and what the model needs to
  know of a literal path (its components, that it is one FUSE could send).
\<close>

definition cstr :: "string \<Rightarrow> cstring" where
  "cstr s = map of_char s"

lemma of_char_byte: "(of_char c :: byte) = word_of_nat (of_char c)"
  by (simp add: of_char_def flip: of_nat_of_char)

lemma of_char_byte_eq [simp]: "(of_char c :: byte) = of_char d \<longleftrightarrow> c = d"
proof
  assume "(of_char c :: byte) = of_char d"
  then have "unat (of_char c :: byte) = unat (of_char d :: byte)" by simp
  moreover have "unat (of_char x :: byte) = of_char x" for x
    using of_char_mod_256 [of x, where 'a = nat] by (simp add: of_char_byte unat_of_nat)
  ultimately show "c = d" by simp
qed simp

lemma cstr_eq [simp]: "cstr s = cstr t \<longleftrightarrow> s = t"
  unfolding cstr_def by (rule inj_map_eq_map) (simp add: inj_def)

lemma length_cstr [simp]: "length (cstr s) = length s"
  by (simp add: cstr_def)

text \<open>Every byte string is one.\<close>

lemma cstr_onto: "\<exists>ss. us = map cstr ss"
proof -
  have b: "cstr [char_of (unat b)] = [b]" for b :: byte
  proof -
    have "unat b < 256" using unsigned_less [of b] by simp
    then show ?thesis by (simp add: cstr_def of_char_byte of_char_of [where 'a = nat])
  qed
  have "\<exists>s. cstr s = w" for w
  proof (induction w)
    case (Cons x w)
    then obtain s where "cstr s = w" by blast
    then have "cstr (char_of (unat x) # s) = x # w" using b [of x] by (simp add: cstr_def)
    then show ?case by blast
  qed (simp add: cstr_def)
  then show ?thesis by (induction us) (auto intro: exI [of _ "_ # _"], metis list.simps(9))
qed

lemma cstr_append: "cstr (s @ t) = cstr s @ cstr t"
  by (simp add: cstr_def)

lemma in_cstr: "(of_char c :: byte) \<in> set (cstr s) \<longleftrightarrow> c \<in> set s"
  by (auto simp: cstr_def)

lemma in_cstr_lit:
  "slash \<in> set (cstr s) \<longleftrightarrow> CHR ''/'' \<in> set s" "0 \<in> set (cstr s) \<longleftrightarrow> CHR 0x00 \<in> set s"
  using in_cstr [of "CHR ''/''" s] in_cstr [of "CHR 0x00" s] by (simp_all add: of_char_def)

lemma cstr_slash: "cstr ''/'' = [slash]"
  by (simp add: cstr_def of_char_def)

section \<open>Paths\<close>

text \<open>What is in front of the first slash, and the components behind each slash.\<close>

fun pieces :: "string \<Rightarrow> string \<times> string list" where
  "pieces [] = ([], [])"
| "pieces (c # s) = (let (u, us) = pieces s in if c = CHR ''/'' then ([], u # us) else (c # u, us))"

lemma pieces_join: "fst (pieces s) @ concat (map (\<lambda>u. CHR ''/'' # u) (snd (pieces s))) = s"
  by (induction s) (auto simp: split_beta Let_def)

lemma pieces_no_slash: "CHR ''/'' \<notin> set (fst (pieces s)) \<and> (\<forall>u\<in>set (snd (pieces s)). CHR ''/'' \<notin> set u)"
  by (induction s) (auto simp: split_beta Let_def)

definition plain :: "string \<Rightarrow> bool" where
  "plain s \<longleftrightarrow> fst (pieces s) = [] \<and> snd (pieces s) \<noteq> [] \<and> list_all (\<lambda>u. u \<noteq> []) (snd (pieces s))
     \<and> list_all (\<lambda>c. c \<noteq> CHR 0x00) s \<and> length (snd (pieces s)) \<le> 11 \<and> length s \<le> 300"

lemma plain_path:
  assumes "plain s"
  shows "ok_path (map cstr (snd (pieces s)))" and "mkpath (map cstr (snd (pieces s))) = cstr s"
proof -
  have j: "concat (map (\<lambda>u. CHR ''/'' # u) (snd (pieces s))) = s"
    using pieces_join [of s] assms by (simp add: plain_def)
  have "concat (map (\<lambda>t. slash # t) (map cstr us)) = cstr (concat (map (\<lambda>u. CHR ''/'' # u) us))" for us
    by (induction us) (simp_all add: cstr_def of_char_def)
  then show m: "mkpath (map cstr (snd (pieces s))) = cstr s" by (simp only: mkpath_def j)
  have "ok_token (cstr u)" if u: "u \<in> set (snd (pieces s))" for u
  proof -
    have "CHR ''/'' \<notin> set u" using pieces_no_slash [of s] u by blast
    moreover have "u \<noteq> []" using assms u by (auto simp: plain_def list_all_iff)
    moreover have "set u \<subseteq> set s" using u by (subst j [symmetric]) auto
    then have "CHR 0x00 \<notin> set u" using assms by (auto simp: plain_def list_all_iff)
    moreover have "cstr u = [] \<longleftrightarrow> u = []" by (simp add: cstr_def)
    ultimately show ?thesis by (simp add: ok_token_def in_cstr_lit)
  qed
  then show "ok_path (map cstr (snd (pieces s)))"
    using assms m by (simp add: ok_path_def list_all_iff plain_def)
qed

lemma path_lit:
  assumes "plain s"
  shows "canonical (cstr s)" and "cstr s \<noteq> [slash]" and "comps (cstr s) = map cstr (snd (pieces s))"
proof -
  note P = plain_path [OF assms]
  have f: "fuse_path (map cstr (snd (pieces s))) = cstr s" using P by (simp add: fuse_path_def ok_path_def)
  have "ok_fuse (map cstr (snd (pieces s)))" using P(1) by (simp add: ok_fuse_def)
  from canonical_fuse [OF this] show "canonical (cstr s)" unfolding f .
  show "comps (cstr s) = map cstr (snd (pieces s))" using path_tokens [OF P(1)] by (simp add: comps_def P(2))
  then show "cstr s \<noteq> [slash]" using assms by (auto simp: comps_def plain_def)
qed

lemma root_lit: "canonical (cstr ''/'')" "comps (cstr ''/'') = []"
  using canonical_fuse [of "[]"] by (simp_all add: cstr_slash comps_def fuse_path_def ok_fuse_def)

lemma slash_lit:
  assumes "plain s" and "length s < 300"
  shows "served (Getattr (cstr (s @ ''/'')) sb)" and "comps (cstr (s @ ''/'')) = map cstr (snd (pieces s))"
proof -
  have c: "cstr (s @ ''/'') = cstr s @ [slash]" by (simp add: cstr_append cstr_slash)
  have "s \<noteq> []" using assms(1) by (auto simp: plain_def)
  then show "served (Getattr (cstr (s @ ''/'')) sb)"
    using path_lit(1,2) [OF assms(1)] assms(2) by (simp add: served_def c)
  show "comps (cstr (s @ ''/'')) = map cstr (snd (pieces s))"
    using path_tokens [OF plain_path(1) [OF assms(1)]] by (simp add: comps_def c plain_path(2) [OF assms(1)])
qed

end
