(* ===== verification/Test2.thy ===== *)
theory Test2
  imports Names
begin

text \<open>
  The unit tests of \<open>test2.c\<close>, function by function, as programs over the operations
  vector. A test that needs the value an uninitialised variable has takes it from
  \<open>locals\<close>; \<open>malloc\<close> is taken to succeed, and \<open>free\<close>, \<open>printf\<close> have no effect.
\<close>

section \<open>Statements\<close>

abbreviation (input) O777 :: u32 where "O777 \<equiv> 0x1FF"
abbreviation (input) O765 :: u32 where "O765 \<equiv> 0x1F5"
abbreviation (input) O640 :: u32 where "O640 \<equiv> 0x1A0"
abbreviation (input) S_IFREG :: u32 where "S_IFREG \<equiv> 0x8000"

text \<open>The variables a test leaves uninitialised: \<open>sb\<close>, \<open>sv\<close> and \<open>char buf[3000]\<close>.\<close>

record locals =
  sb_0 :: stat
  sv_0 :: statvfs
  buf_0 :: "byte list"

text \<open>The parts of a reply: the return value, what was filled in.\<close>

fun code :: "reply \<Rightarrow> int" where
  "code RDone = 0"
| "code (RCode r) = r"
| "code (RStatfs r sv) = r"
| "code (RStat r sb) = r"
| "code (RDir r l) = r"
| "code (RData r bs) = r"

fun stat_of :: "stat \<Rightarrow> reply \<Rightarrow> stat" where
  "stat_of sb (RStat r s) = s"
| "stat_of sb x = sb"

fun statvfs_of :: "statvfs \<Rightarrow> reply \<Rightarrow> statvfs" where
  "statvfs_of sv (RStatfs r s) = s"
| "statvfs_of sv x = sv"

fun names_of :: "reply \<Rightarrow> cstring list" where
  "names_of (RDir r l) = map fst l"
| "names_of x = []"

fun bytes_of :: "reply \<Rightarrow> byte list" where
  "bytes_of (RData r bs) = bs"
| "bytes_of x = []"

text \<open>\<open>rv = fs_ops.op(...); ck_assert_int_eq(rv, n)\<close>, the same with \<open>ck_assert_int_lt\<close>, and a call
  whose result is dropped.\<close>

definition rv_eq :: "request \<Rightarrow> int \<Rightarrow> unit prog" where
  "rv_eq r n = Call r (\<lambda>x. ck_assert (code x = n))"

definition rv_lt :: "request \<Rightarrow> int \<Rightarrow> unit prog" where
  "rv_lt r n = Call r (\<lambda>x. ck_assert (code x < n))"

definition dropped :: "request \<Rightarrow> unit prog" where
  "dropped r = Call r (\<lambda>x. Return ())"

text \<open>\<open>rv = fs_ops.getattr(path, &sb); ck_assert_int_eq(rv, 0)\<close>, then statements over \<open>sb\<close>.\<close>

definition stat_ok :: "locals \<Rightarrow> string \<Rightarrow> (stat \<Rightarrow> unit prog) \<Rightarrow> unit prog" where
  "stat_ok u path f = Call (Getattr (cstr path) (sb_0 u)) (\<lambda>x.
     bind (ck_assert (code x = 0)) (\<lambda>_. f (stat_of (sb_0 u) x)))"

section \<open>Lines 24 to 47: the mock context, the image and the filler\<close>

definition new_image :: "unit prog" where
  "new_image = Open (cstr ''test2.img'') (Call Init (\<lambda>x. Return ()))"

definition mkdir_1_filler :: "cstring option list \<Rightarrow> cstring \<Rightarrow> cstring option list option" where
  "mkdir_1_filler xs nm =
     (let i = scan (\<lambda>x. x = None) xs in if i < length xs then Some (xs[i := Some nm]) else None)"

text \<open>readdir calls the filler for each name.\<close>

primrec fill_all :: "cstring option list \<Rightarrow> cstring list \<Rightarrow> cstring option list option" where
  "fill_all xs [] = Some xs"
| "fill_all xs (nm # nms) = (case mkdir_1_filler xs nm of None \<Rightarrow> None | Some ys \<Rightarrow> fill_all ys nms)"

definition list_dir :: "string \<Rightarrow> cstring option list \<Rightarrow> (int \<Rightarrow> cstring option list \<Rightarrow> unit prog) \<Rightarrow> unit prog" where
  "list_dir path xs f = Call (Readdir (cstr path)) (\<lambda>x.
     case fill_all xs (names_of x) of None \<Rightarrow> Stuck Out_of_bounds | Some ys \<Rightarrow> f (code x) ys)"

definition nulls :: "nat \<Rightarrow> cstring option list" where
  "nulls n = replicate n None"

definition str_eq :: "cstring option list \<Rightarrow> nat \<Rightarrow> string \<Rightarrow> unit prog" where
  "str_eq xs i s = ck_assert (xs ! i = Some (cstr s))"

definition ptr_null :: "cstring option list \<Rightarrow> nat \<Rightarrow> unit prog" where
  "ptr_null xs i = ck_assert (xs ! i = None)"

section \<open>Directories\<close>

definition mkdir_0 :: "locals \<Rightarrow> unit prog" where
  "mkdir_0 u = steps [
     new_image,
     each [''/dir1'', ''/dir2'', ''/dir3'', ''/dir1/dir4'', ''/dir1/dir5''] (\<lambda>dir. steps [
       rv_eq (Mkdir (cstr dir) O777) 0,
       stat_ok u dir (\<lambda>sb. Return ())]),
     list_dir ''/'' (nulls 5) (\<lambda>rv root. steps [
       ck_assert (rv = 0), str_eq root 0 ''dir1'', str_eq root 1 ''dir2'', str_eq root 2 ''dir3'', ptr_null root 3]),
     list_dir ''/dir1'' (nulls 4) (\<lambda>rv d1. steps [
       ck_assert (rv = 0), str_eq d1 0 ''dir4'', str_eq d1 1 ''dir5'', ptr_null d1 2]),
     rv_eq (Create (cstr ''/dir1/filexxx'') O777) 0,
     stat_ok u ''/dir1/filexxx'' (\<lambda>sb. steps [
       ck_assert (st_mode sb = S_IFREG OR O777), ck_assert (st_size sb = 0)]),
     rv_eq (Create (cstr ''/dir1/dir4/file1'') O777) 0,
     stat_ok u ''/dir1/dir4/file1'' (\<lambda>sb. steps [
       ck_assert (st_mode sb = S_IFREG OR O777), ck_assert (st_size sb = 0)])]"

text \<open>\<open>uint32_t now = time(NULL)\<close>, and the two comparisons of a time with \<open>now\<close>.\<close>

definition now_is :: "(u32 \<Rightarrow> unit prog) \<Rightarrow> unit prog" where
  "now_is f = Time (\<lambda>tm. f (word_of_int tm))"

definition recent :: "u32 \<Rightarrow> u32 \<Rightarrow> unit prog" where
  "recent tm nw = steps [ck_assert (uint tm \<ge> uint nw), ck_assert (uint tm < uint (nw + 10))]"

definition mkdir_time :: "locals \<Rightarrow> unit prog" where
  "mkdir_time u = steps [
     new_image,
     each [''/dir1''] (\<lambda>dir. now_is (\<lambda>nw. steps [
       rv_eq (Mkdir (cstr dir) O777) 0,
       stat_ok u dir (\<lambda>sb. recent (st_ctim sb) nw)]))]"

text \<open>\<open>int blks = sv.f_bfree\<close>: the low 32 bits, read as a signed number.\<close>

definition free_blks :: "statvfs \<Rightarrow> int" where
  "free_blks sv = sint (ucast (f_bfree sv) :: u32)"

definition start_blocks :: "locals \<Rightarrow> (int \<Rightarrow> unit prog) \<Rightarrow> unit prog" where
  "start_blocks u f = Call (Statfs (cstr ''/'') (sv_0 u)) (\<lambda>x.
     bind (ck_assert (code x = 0)) (\<lambda>_. f (free_blks (statvfs_of (sv_0 u) x))))"

definition check_blocks :: "locals \<Rightarrow> int \<Rightarrow> unit prog" where
  "check_blocks u blks = Call (Statfs (cstr ''/'') (sv_0 u)) (\<lambda>x. steps [
     ck_assert (code x = 0), ck_assert (blks = sint (f_bfree (statvfs_of (sv_0 u) x)))])"

definition mkdir_rmdir_1 :: "locals \<Rightarrow> unit prog" where
  "mkdir_rmdir_1 u = bind new_image (\<lambda>_. start_blocks u (\<lambda>blks. steps [
     each [''/dir1'', ''/dir2'', ''/dir3'', ''/dir1/dir4'', ''/dir1/dir5'', ''/dir1/dir4/dir6'']
       (\<lambda>dir. rv_eq (Mkdir (cstr dir) O777) 0),
     list_dir ''/'' (nulls 5) (\<lambda>rv root. steps [
       ck_assert (rv = 0), str_eq root 0 ''dir1'', str_eq root 1 ''dir2'', str_eq root 2 ''dir3'', ptr_null root 3]),
     list_dir ''/dir1'' (nulls 4) (\<lambda>rv d1. steps [
       ck_assert (rv = 0), str_eq d1 0 ''dir4'', str_eq d1 1 ''dir5'', ptr_null d1 2]),
     list_dir ''/dir2'' (nulls 4) (\<lambda>rv d2. steps [
       ck_assert (rv = 0), ptr_null d2 0,
       list_dir ''/dir3'' d2 (\<lambda>rv d2. steps [ck_assert (rv = 0), ptr_null d2 0])]),
     list_dir ''/dir1/dir4'' (nulls 4) (\<lambda>rv d4. steps [
       ck_assert (rv = 0), str_eq d4 0 ''dir6'', ptr_null d4 1,
       dropped (Rmdir (cstr ''/dir1/dir5'')), ck_assert (rv = 0),
       dropped (Rmdir (cstr ''/dir1/dir4/dir6'')), ck_assert (rv = 0),
       dropped (Rmdir (cstr ''/dir1/dir4'')), ck_assert (rv = 0)]),
     list_dir ''/dir1'' (nulls 4) (\<lambda>rv d5. steps [ck_assert (rv = 0), ptr_null d5 0]),
     list_dir ''/'' (nulls 4) (\<lambda>rv d6. steps [
       ck_assert (rv = 0), str_eq d6 0 ''dir1'', str_eq d6 1 ''dir2'', str_eq d6 2 ''dir3'', ptr_null d6 3,
       dropped (Rmdir (cstr ''/dir1'')), ck_assert (rv = 0),
       dropped (Rmdir (cstr ''/dir2'')), ck_assert (rv = 0),
       dropped (Rmdir (cstr ''/dir3'')), ck_assert (rv = 0)]),
     list_dir ''/'' (nulls 4) (\<lambda>rv d7. ptr_null d7 0),
     check_blocks u blks]))"

text \<open>The checks of owner, mode and size; \<open>sb\<close> keeps 16 bits of the numbers.\<close>

definition owned :: "stat \<Rightarrow> u32 \<Rightarrow> unit prog" where
  "owned sb m = steps [ck_assert (st_mode sb = m), ck_assert (st_uid sb = 501), ck_assert (st_gid sb = 502)]"

definition mkdir_rmdir_2 :: "locals \<Rightarrow> unit prog" where
  "mkdir_rmdir_2 u = bind new_image (\<lambda>_. start_blocks u (\<lambda>blks. steps [
     rv_eq (Mkdir (cstr ''/dir10'') O765) 0,
     stat_ok u ''/dir10'' (\<lambda>sb. owned sb (0x4000 OR O765)),
     rv_eq (Mkdir (cstr ''/dir10/dir11'') O640) 0,
     stat_ok u ''/dir10/dir11'' (\<lambda>sb. owned sb (0x4000 OR O640)),
     rv_eq (Rmdir (cstr ''/dir10/dir11'')) 0,
     rv_eq (Rmdir (cstr ''/dir10'')) 0,
     check_blocks u blks]))"

section \<open>Files\<close>

definition create_0 :: "locals \<Rightarrow> unit prog" where
  "create_0 u = steps [
     new_image,
     each [''/f1'', ''/f2''] (\<lambda>f. steps [
       rv_eq (Create (cstr f) (S_IFREG OR O777)) 0,
       stat_ok u f (\<lambda>sb. steps [ck_assert (st_mode sb = S_IFREG OR O777), ck_assert (st_size sb = 0)])]),
     list_dir ''/'' (nulls 4) (\<lambda>rv d1. steps [
       ck_assert (rv = 0), str_eq d1 0 ''f1'', str_eq d1 1 ''f2'', ptr_null d1 2])]"

definition create_time :: "locals \<Rightarrow> unit prog" where
  "create_time u = steps [
     new_image,
     each [''/f1''] (\<lambda>f. now_is (\<lambda>nw. steps [
       rv_eq (Create (cstr f) (S_IFREG OR O777)) 0,
       stat_ok u f (\<lambda>sb. recent (st_ctim sb) nw)]))]"

text \<open>The inner loop of \<open>unlink_0\<close> goes over the files behind the one just removed.\<close>

primrec unlink_each :: "locals \<Rightarrow> string list \<Rightarrow> unit prog" where
  "unlink_each u [] = Return ()"
| "unlink_each u (f # fs) = steps [
     rv_eq (Unlink (cstr f)) 0,
     rv_lt (Getattr (cstr f) (sb_0 u)) 0,
     each fs (\<lambda>g. stat_ok u g (\<lambda>sb. Return ())),
     unlink_each u fs]"

definition unlink_0 :: "locals \<Rightarrow> unit prog" where
  "unlink_0 u = bind new_image (\<lambda>_. start_blocks u (\<lambda>blks. steps [
     each [''/f1'', ''/f2''] (\<lambda>f. rv_eq (Create (cstr f) (S_IFREG OR O777)) 0),
     list_dir ''/'' (nulls 4) (\<lambda>rv d1. steps [
       ck_assert (rv = 0), str_eq d1 0 ''f1'', str_eq d1 1 ''f2'', ptr_null d1 2]),
     unlink_each u [''/f1'', ''/f2''],
     check_blocks u blks]))"

definition unlink_time :: "locals \<Rightarrow> unit prog" where
  "unlink_time u = steps [
     new_image,
     rv_eq (Mkdir (cstr ''/dir1'') O777) 0,
     rv_eq (Create (cstr ''/dir1/file1'') (S_IFREG OR O777)) 0,
     stat_ok u ''/dir1/file1'' (\<lambda>sb. Return ()),
     Sleep 1 (now_is (\<lambda>nw. steps [
       rv_eq (Unlink (cstr ''/dir1/file1'')) 0,
       stat_ok u ''/dir1/'' (\<lambda>sb. recent (st_mtim sb) nw)]))]"

definition create_mkdir_unlink_rmdir_1 :: "locals \<Rightarrow> unit prog" where
  "create_mkdir_unlink_rmdir_1 u = bind new_image (\<lambda>_. start_blocks u (\<lambda>blks. steps [
     each [''/f1'', ''/f2''] (\<lambda>f. rv_eq (Create (cstr f) (S_IFREG OR O777)) 0),
     list_dir ''/'' (nulls 4) (\<lambda>rv d1. steps [
       ck_assert (rv = 0), str_eq d1 0 ''f1'', str_eq d1 1 ''f2'', ptr_null d1 2]),
     rv_eq (Mkdir (cstr ''/dir20'') O777) 0,
     each [''/dir20/f3'', ''/dir20/f4''] (\<lambda>f. steps [
       rv_eq (Create (cstr f) (S_IFREG OR O777)) 0,
       stat_ok u f (\<lambda>sb. steps [ck_assert (st_mode sb = S_IFREG OR O777), ck_assert (st_size sb = 0)])]),
     list_dir ''/dir20'' (nulls 4) (\<lambda>rv d2. steps [
       ck_assert (rv = 0), str_eq d2 0 ''f3'', str_eq d2 1 ''f4'', ptr_null d2 2]),
     each [''/f1'', ''/f2'', ''/dir20/f3'', ''/dir20/f4''] (\<lambda>f. rv_eq (Unlink (cstr f)) 0),
     rv_eq (Rmdir (cstr ''/dir20'')) 0,
     check_blocks u blks]))"

definition create_unlink_2 :: "locals \<Rightarrow> unit prog" where
  "create_unlink_2 u = bind new_image (\<lambda>_. start_blocks u (\<lambda>blks. steps [
     rv_eq (Create (cstr ''/f5'') (S_IFREG OR O765)) 0,
     stat_ok u ''/f5'' (\<lambda>sb. steps [owned sb (S_IFREG OR O765), ck_assert (st_size sb = 0)]),
     rv_eq (Create (cstr ''/f6'') (S_IFREG OR O765)) 0,
     stat_ok u ''/f6'' (\<lambda>sb. owned sb (S_IFREG OR O765)),
     rv_eq (Unlink (cstr ''/f5'')) 0,
     rv_eq (Unlink (cstr ''/f6'')) 0,
     check_blocks u blks]))"

definition create_write_unlink_3 :: "locals \<Rightarrow> unit prog" where
  "create_write_unlink_3 u = bind new_image (\<lambda>_. start_blocks u (\<lambda>blks. steps [
     rv_eq (Create (cstr ''/f5'') (S_IFREG OR O765)) 0,
     rv_eq (Write (cstr ''/f5'') (take 3000 (buf_0 u)) 0) 3000,
     stat_ok u ''/f5'' (\<lambda>sb. steps [owned sb (S_IFREG OR O765), ck_assert (st_size sb = 3000)]),
     rv_eq (Create (cstr ''/f6'') (S_IFREG OR O765)) 0,
     rv_eq (Write (cstr ''/f6'') (take 3000 (buf_0 u)) 0) 3000,
     stat_ok u ''/f6'' (\<lambda>sb. steps [owned sb (S_IFREG OR O765), ck_assert (st_size sb = 3000)]),
     rv_eq (Unlink (cstr ''/f5'')) 0,
     rv_eq (Unlink (cstr ''/f6'')) 0,
     check_blocks u blks]))"

section \<open>Refused requests\<close>

text \<open>The tree the four tests of errors build, and how they take it down.\<close>

definition build_tree :: "unit prog" where
  "build_tree = steps [
     rv_eq (Mkdir (cstr ''/dir1'') O777) 0,
     rv_eq (Mkdir (cstr ''/dir1/dir2'') O777) 0,
     rv_eq (Mkdir (cstr ''/dir1/dir2/dir3'') O777) 0,
     rv_eq (Create (cstr ''/file1'') (S_IFREG OR O777)) 0,
     rv_eq (Create (cstr ''/dir1/file2'') (S_IFREG OR O777)) 0,
     rv_eq (Create (cstr ''/dir1/dir2/file3'') (S_IFREG OR O777)) 0]"

definition clear_tree :: "unit prog" where
  "clear_tree = steps [
     each [''/dir1/dir2/file3'', ''/dir1/file2'', ''/file1''] (\<lambda>f. rv_eq (Unlink (cstr f)) 0),
     each [''/dir1/dir2/dir3'', ''/dir1/dir2'', ''/dir1''] (\<lambda>d. rv_eq (Rmdir (cstr d)) 0)]"

definition mkdir_rmdir_unlink_fail :: "locals \<Rightarrow> unit prog" where
  "mkdir_rmdir_unlink_fail u = bind new_image (\<lambda>_. start_blocks u (\<lambda>blks. steps [
     build_tree,
     rv_eq (Mkdir (cstr ''/dir1/dir5/dir'') O777) (- ENOENT),
     rv_eq (Mkdir (cstr ''/dir1/file2/dir'') O777) (- ENOTDIR),
     rv_eq (Mkdir (cstr ''/dir1/dir2/file3'') O777) (- EEXIST),
     rv_eq (Mkdir (cstr ''/dir1/dir2/dir3'') O777) (- EEXIST),
     rv_eq (Mkdir (cstr ''/dir1/dir2/this-directory-is-really-long'') O777) (- EINVAL),
     rv_eq (Mkdir (cstr ''/dir7/dir'') O777) (- ENOENT),
     rv_eq (Mkdir (cstr ''/file1/dir'') O777) (- ENOTDIR),
     rv_eq (Mkdir (cstr ''/dir1/file2'') O777) (- EEXIST),
     rv_eq (Mkdir (cstr ''/dir1/dir2'') O777) (- EEXIST),
     rv_eq (Mkdir (cstr ''/this-directory-is-really-long'') O777) (- EINVAL),
     clear_tree,
     check_blocks u blks]))"

definition create_fail :: "locals \<Rightarrow> unit prog" where
  "create_fail u = bind new_image (\<lambda>_. start_blocks u (\<lambda>blks. steps [
     build_tree,
     rv_eq (Create (cstr ''/dir1/dir5/file'') (S_IFREG OR O777)) (- ENOENT),
     rv_eq (Create (cstr ''/dir1/file2/file'') (S_IFREG OR O777)) (- ENOTDIR),
     rv_eq (Create (cstr ''/dir1/dir2/file3'') (S_IFREG OR O777)) (- EEXIST),
     rv_eq (Create (cstr ''/dir1/dir2/dir3'') (S_IFREG OR O777)) (- EEXIST),
     rv_eq (Create (cstr ''/dir1/dir2/this-filename-is-also-really-long'') (S_IFREG OR O777)) (- EINVAL),
     rv_eq (Create (cstr ''/dir7/file'') (S_IFREG OR O777)) (- ENOENT),
     rv_eq (Create (cstr ''/file1/file'') (S_IFREG OR O777)) (- ENOTDIR),
     rv_eq (Create (cstr ''/dir1/file2'') (S_IFREG OR O777)) (- EEXIST),
     rv_eq (Create (cstr ''/dir1/dir2'') (S_IFREG OR O777)) (- EEXIST),
     rv_eq (Create (cstr ''/this-filename-is-also-really-long'') (S_IFREG OR O777)) (- EINVAL),
     clear_tree,
     check_blocks u blks]))"

definition unlink_fail :: "locals \<Rightarrow> unit prog" where
  "unlink_fail u = bind new_image (\<lambda>_. start_blocks u (\<lambda>blks. steps [
     build_tree,
     rv_eq (Unlink (cstr ''/dir1/nothing/file3'')) (- ENOENT),
     rv_eq (Unlink (cstr ''/dir1/file2/file3'')) (- ENOTDIR),
     rv_eq (Unlink (cstr ''/dir1/dir2/nothing'')) (- ENOENT),
     rv_eq (Unlink (cstr ''/dir1/dir2/dir3'')) (- EISDIR),
     clear_tree,
     check_blocks u blks]))"

definition rmdir_fail :: "locals \<Rightarrow> unit prog" where
  "rmdir_fail u = bind new_image (\<lambda>_. start_blocks u (\<lambda>blks. steps [
     build_tree,
     rv_eq (Rmdir (cstr ''/dir1/nothing/dir3'')) (- ENOENT),
     rv_eq (Rmdir (cstr ''/dir1/file2/dir3'')) (- ENOTDIR),
     rv_eq (Rmdir (cstr ''/dir1/dir2/nothing'')) (- ENOENT),
     rv_eq (Rmdir (cstr ''/dir1/dir2/file3'')) (- ENOTDIR),
     rv_eq (Rmdir (cstr ''/dir1/dir2'')) (- ENOTEMPTY),
     clear_tree,
     check_blocks u blks]))"

section \<open>File contents\<close>

text \<open>\<open>p[i] = random()\<close>: the low eight bits.\<close>

primrec rnd_bytes :: "nat \<Rightarrow> byte list prog" where
  "rnd_bytes 0 = Return []"
| "rnd_bytes (Suc n) = Random (\<lambda>r. bind (rnd_bytes n) (\<lambda>p. Return (word_of_int r # p)))"

definition rnd_data :: "nat \<Rightarrow> byte list prog" where
  "rnd_data len = rnd_bytes (len + 10)"

text \<open>
  The loop of \<open>_do_write\<close>. The caller's fuel bounds the iterations: each writes at least one
  byte, so \<open>len\<close> of them are enough when \<open>blksiz\<close> is positive. With \<open>blksiz = 0\<close> the loop of
  the source does not end, and the model's does not for any fuel.
\<close>

primrec write_steps :: "nat \<Rightarrow> cstring \<Rightarrow> byte list \<Rightarrow> nat \<Rightarrow> nat \<Rightarrow> nat \<Rightarrow> unit prog" where
  "write_steps 0 path p len blksiz off = (if 0 < len then Stuck Endless else Return ())"
| "write_steps (Suc fuel) path p len blksiz off =
     (if 0 < len then
        let bytes = (if blksiz < len then blksiz else len) in
        bind (rv_eq (Write path (take bytes p) off) (int bytes)) (\<lambda>_.
        write_steps fuel path (drop bytes p) (len - bytes) blksiz (off + bytes))
      else Return ())"

definition do_write :: "cstring \<Rightarrow> byte list \<Rightarrow> nat \<Rightarrow> nat \<Rightarrow> unit prog" where
  "do_write path p len blksiz = write_steps len path p len blksiz 0"

definition read_back :: "locals \<Rightarrow> cstring \<Rightarrow> nat \<Rightarrow> byte list prog" where
  "read_back u path len = Call (Getattr path (sb_0 u)) (\<lambda>x.
     bind (ck_assert (S_ISREG (st_mode (stat_of (sb_0 u) x)))) (\<lambda>_.
     Call (Read path (len + 50) 0) (\<lambda>y.
     bind (ck_assert (code y = int len)) (\<lambda>_. Return (bytes_of y)))))"

text \<open>\<open>memcmp(p, q, n) == 0\<close>.\<close>

definition same_bytes :: "nat \<Rightarrow> byte list \<Rightarrow> byte list \<Rightarrow> bool" where
  "same_bytes n p q \<longleftrightarrow> take n p = take n q"

definition write_table :: "(string \<times> nat) list" where
  "write_table = [(''/file1'', 1), (''/file2'', 17), (''/file3'', 4001), (''/file4'', 4096), (''/file5'', 5001),
     (''/file6'', 100000)]"

definition do_write_test :: "locals \<Rightarrow> nat \<Rightarrow> unit prog" where
  "do_write_test u file_len = bind (rnd_data file_len) (\<lambda>data_in. steps [
     each write_table (\<lambda>(path, len). steps [
       rv_eq (Create (cstr path) (S_IFREG OR O777)) 0,
       do_write (cstr path) data_in file_len len,
       bind (read_back u (cstr path) file_len) (\<lambda>data_out. ck_assert (same_bytes file_len data_in data_out))]),
     each write_table (\<lambda>(path, len). rv_eq (Unlink (cstr path)) 0)])"

text \<open>\<open>new_image(); int blks = start_blocks(); ...; check_blocks(blks)\<close>.\<close>

definition leaves_no_blocks :: "locals \<Rightarrow> unit prog \<Rightarrow> unit prog" where
  "leaves_no_blocks u p = bind new_image (\<lambda>_. start_blocks u (\<lambda>blks. steps [p, check_blocks u blks]))"

definition write_4091 :: "locals \<Rightarrow> unit prog" where
  "write_4091 u = leaves_no_blocks u (do_write_test u 4091)"

definition write_time :: "locals \<Rightarrow> unit prog" where
  "write_time u = steps [
     new_image,
     rv_eq (Create (cstr ''/f1'') (S_IFREG OR O777)) 0,
     stat_ok u ''/f1'' (\<lambda>sb. Return ()),
     Sleep 1 (now_is (\<lambda>nw. bind (rnd_data 10) (\<lambda>data_in. steps [
       do_write (cstr ''/f1'') data_in 10 1,
       stat_ok u ''/f1'' (\<lambda>sb. recent (st_mtim sb) nw)])))]"

definition write_4096 :: "locals \<Rightarrow> unit prog" where
  "write_4096 u = leaves_no_blocks u (do_write_test u 4096)"

definition write_4200 :: "locals \<Rightarrow> unit prog" where
  "write_4200 u = leaves_no_blocks u (do_write_test u 4200)"

definition write_8190 :: "locals \<Rightarrow> unit prog" where
  "write_8190 u = leaves_no_blocks u (do_write_test u 8190)"

definition write_12300 :: "locals \<Rightarrow> unit prog" where
  "write_12300 u = leaves_no_blocks u (do_write_test u 12300)"

text \<open>\<open>memcpy(p + off, q, n)\<close>.\<close>

definition memcpy_at :: "byte list \<Rightarrow> nat \<Rightarrow> byte list \<Rightarrow> nat \<Rightarrow> byte list" where
  "memcpy_at p off q n = take off p @ take n q @ drop (off + n) p"

definition do_overwrite_test :: "locals \<Rightarrow> string \<Rightarrow> nat \<Rightarrow> nat \<Rightarrow> nat \<Rightarrow> unit prog" where
  "do_overwrite_test u path sz off len =
     bind (rv_eq (Create (cstr path) (S_IFREG OR O777)) 0) (\<lambda>_.
     bind (rnd_data sz) (\<lambda>data_1.
     bind (do_write (cstr path) data_1 sz (10 * 4096)) (\<lambda>_.
     bind (rnd_data len) (\<lambda>data_2.
     bind (rv_eq (Write (cstr path) (take len data_2) off) (int len)) (\<lambda>_.
     bind (read_back u (cstr path) sz) (\<lambda>data_3. steps [
       ck_assert (same_bytes sz (memcpy_at data_1 off data_2 len) data_3),
       rv_eq (Unlink (cstr path)) 0]))))))"

definition overwrite_1 :: "locals \<Rightarrow> unit prog" where
  "overwrite_1 u = leaves_no_blocks u (do_overwrite_test u ''/file7'' 4000 1000 1200)"

definition overwrite_2 :: "locals \<Rightarrow> unit prog" where
  "overwrite_2 u = leaves_no_blocks u (do_overwrite_test u ''/file7'' 6000 1000 4000)"

definition overwrite_3 :: "locals \<Rightarrow> unit prog" where
  "overwrite_3 u = leaves_no_blocks u (do_overwrite_test u ''/file7'' 12000 1000 9000)"

definition cross_eof :: "locals \<Rightarrow> unit prog" where
  "cross_eof u = leaves_no_blocks u (
     bind (rv_eq (Create (cstr ''/file17'') (S_IFREG OR O777)) 0) (\<lambda>_.
     bind (rnd_data 8000) (\<lambda>data_1.
     bind (do_write (cstr ''/file17'') data_1 8000 (10 * 4096)) (\<lambda>_.
     bind (rnd_data 7000) (\<lambda>data_2.
     bind (rv_eq (Write (cstr ''/file17'') (take 7000 data_2) 5000) 7000) (\<lambda>_.
     bind (read_back u (cstr ''/file17'') 12000) (\<lambda>data_3. steps [
       ck_assert (same_bytes 5000 data_1 data_3),
       ck_assert (same_bytes 7000 data_2 (drop 5000 data_3)),
       rv_eq (Unlink (cstr ''/file17'')) 0])))))))"

text \<open>\<open>sprintf(path, "/file_%d", n)\<close>.\<close>

fun decimal :: "nat \<Rightarrow> string" where
  "decimal n = (if n < 10 then [char_of (48 + n)] else decimal (n div 10) @ [char_of (48 + n mod 10)])"

declare decimal.simps [simp del]

definition file_path :: "nat \<Rightarrow> string" where
  "file_path n = ''/file_'' @ decimal n"

definition truncate_test :: "locals \<Rightarrow> unit prog" where
  "truncate_test u = leaves_no_blocks u (
     let sizes = [4000, 4096, 8000, 8192, 12288, 13000] in steps [
       each sizes (\<lambda>n.
         bind (rv_eq (Create (cstr (file_path n)) (S_IFREG OR O777)) 0) (\<lambda>_.
         bind (rnd_data n) (\<lambda>data_1. steps [
           do_write (cstr (file_path n)) data_1 n (10 * 4096),
           rv_eq (Truncate (cstr (file_path n)) 0) 0,
           stat_ok u (file_path n) (\<lambda>sb. ck_assert (st_size sb = 0))]))),
       each sizes (\<lambda>n. rv_eq (Unlink (cstr (file_path n))) 0)])"

definition utime_0 :: "locals \<Rightarrow> unit prog" where
  "utime_0 u = steps [
     new_image,
     each [''/f1'', ''/f2''] (\<lambda>f. bind (rv_eq (Create (cstr f) (S_IFREG OR O777)) 0) (\<lambda>_. now_is (\<lambda>nw. steps [
       rv_eq (Utime (cstr f) None) 0,
       stat_ok u f (\<lambda>sb. recent (st_mtim sb) nw),
       Time (\<lambda>tm. let modtime = tm + 20 in steps [
         rv_eq (Utime (cstr f) (Some modtime)) 0,
         stat_ok u f (\<lambda>sb. ck_assert (uint (st_mtim sb) = modtime))])])))]"

section \<open>The suite\<close>

definition test2_suite :: "(locals \<Rightarrow> unit prog) list" where
  "test2_suite = [create_0, create_time, mkdir_0, mkdir_time, unlink_0, unlink_time, mkdir_rmdir_1, mkdir_rmdir_2,
     mkdir_rmdir_unlink_fail, create_mkdir_unlink_rmdir_1, create_unlink_2, create_fail, unlink_fail, rmdir_fail,
     write_4091, write_time, write_4096, write_4200, write_8190, write_12300, create_write_unlink_3, overwrite_1,
     overwrite_2, overwrite_3, cross_eof, truncate_test, utime_0]"

text \<open>\<open>main\<close>: the library's runner is a parameter, the number of failed tests it reports.\<close>

definition test2_main :: "((locals \<Rightarrow> unit prog) list \<Rightarrow> nat) \<Rightarrow> int" where
  "test2_main srunner = (let n_failed = srunner test2_suite in if n_failed = 0 then 0 else 1)"

end
