(* ===== verification/Step.thy ===== *)
theory Step
  imports Test2
begin

text \<open>
  The condition \<open>chk\<close> computed statement by statement, on explicit trees: one equation
  for each statement the tests are made of. With them a test is checked by simplification.
\<close>

section \<open>Requests\<close>

named_theorems step_simps \<open>what one statement of a test needs of the tree\<close>

definition after :: "(stop + 'a) \<times> fsys \<Rightarrow> ('a \<Rightarrow> fsys \<Rightarrow> bool) \<Rightarrow> bool" where
  "after r P = (case r of (Inl s, S) \<Rightarrow> False | (Inr x, S) \<Rightarrow> P x S)"

lemma after_ret [step_simps]: "after (ret x S) P = P x S" "after (halt s S) P = False"
  by (simp_all add: after_def ret_def halt_def)

lemma after_if [step_simps]:
  "after (if b then x else y) P = (if b then after x P else after y P)"
  "after (let v = w in f v) P = after (f w) P"
  by simp_all

lemma hide_code: "hide_reply x = RCode r \<longleftrightarrow> x = RCode r"
  by (cases x) auto

lemma hide_stat: "hide_reply x = RStat r s \<longleftrightarrow> (\<exists>s'. x = RStat r s' \<and> hide s' = s)"
  by (cases x) auto

lemma hide_statfs: "hide_reply x = RStatfs r s \<longleftrightarrow> x = RStatfs r s"
  by (cases x) auto

lemma hide_data: "hide_reply x = RData r s \<longleftrightarrow> x = RData r s"
  by (cases x) auto

lemma hide_done: "hide_reply x = RDone \<longleftrightarrow> x = RDone"
  by (cases x) auto

lemma chk_code:
  assumes "served r" and "tree_ops (env_at H t) r = andThen M (\<lambda>c. ret (RCode c))"
  shows "chk H (Call r k) t S Q \<longleftrightarrow> after (M S) (\<lambda>c S'. chk H (k (RCode c)) (Suc t) S' Q)"
  using assms by (auto simp: after_def andThen_def ret_def hide_code split: prod.splits sum.splits)

lemma served_lit [step_simps]:
  "served Init"
  "canonical p \<Longrightarrow> served (Getattr p sb)"
  "canonical p \<Longrightarrow> served (Readdir p)"
  "canonical p \<Longrightarrow> served (Read p len off)"
  by (simp_all add: served_def)

text \<open>Calls that answer with a code.\<close>

lemma chk_calls [step_simps]:
  "canonical p \<Longrightarrow> chk H (Call (Mkdir p m) k) t S Q \<longleftrightarrow>
     after (t_new (comps p) (Dir (new_attrs (env_at H t) m (push_bit 14 1)) 4096 (replicate 128 None)) 2 S)
       (\<lambda>c S'. chk H (k (RCode c)) (Suc t) S' Q)"
  "canonical p \<Longrightarrow> chk H (Call (Create p m) k) t S Q \<longleftrightarrow>
     after (t_new (comps p) (File (new_attrs (env_at H t) m (push_bit 15 1)) []) 1 S)
       (\<lambda>c S'. chk H (k (RCode c)) (Suc t) S' Q)"
  "canonical p \<Longrightarrow> p \<noteq> [slash] \<Longrightarrow> chk H (Call (Unlink p) k) t S Q \<longleftrightarrow>
     after (t_unlink (env_at H t) (comps p) S) (\<lambda>c S'. chk H (k (RCode c)) (Suc t) S' Q)"
  "canonical p \<Longrightarrow> p \<noteq> [slash] \<Longrightarrow> chk H (Call (Rmdir p) k) t S Q \<longleftrightarrow>
     after (t_rmdir (env_at H t) (comps p) S) (\<lambda>c S'. chk H (k (RCode c)) (Suc t) S' Q)"
  "canonical p \<Longrightarrow> chk H (Call (Write p buf off) k) t S Q \<longleftrightarrow>
     after (t_write (env_at H t) (comps p) buf off S) (\<lambda>c S'. chk H (k (RCode c)) (Suc t) S' Q)"
  "canonical p \<Longrightarrow> chk H (Call (Truncate p len) k) t S Q \<longleftrightarrow>
     after (t_truncate (comps p) len S) (\<lambda>c S'. chk H (k (RCode c)) (Suc t) S' Q)"
  "canonical p \<Longrightarrow> chk H (Call (Utime p ut) k) t S Q \<longleftrightarrow>
     after (t_utime (env_at H t) (comps p) ut S) (\<lambda>c S'. chk H (k (RCode c)) (Suc t) S' Q)"
  by (rule chk_code; simp add: served_def)+

lemma chk_more_calls:
  "canonical p \<Longrightarrow> chk H (Call (Chmod p m) k) t S Q \<longleftrightarrow>
     after (t_chmod (comps p) m S) (\<lambda>c S'. chk H (k (RCode c)) (Suc t) S' Q)"
  "canonical p \<Longrightarrow> canonical q \<Longrightarrow> p \<noteq> [slash] \<Longrightarrow> q \<noteq> [slash] \<Longrightarrow> chk H (Call (Rename p q) k) t S Q \<longleftrightarrow>
     after (t_rename (comps p) (comps q) S) (\<lambda>c S'. chk H (k (RCode c)) (Suc t) S' Q)"
  by (rule chk_code; simp add: served_def)+

lemma chk_init [step_simps]:
  "chk H (Call Init k) t S Q \<longleftrightarrow> magic (super S) = FS_MAGIC \<and> chk H (k RDone) (Suc t) S Q"
  by (auto simp: served_def ret_def halt_def hide_done)

lemma chk_statfs [step_simps]:
  "chk H (Call (Statfs p sv) k) t S Q \<longleftrightarrow> chk H (k (RStatfs 0 (t_statfs sv S))) (Suc t) S Q"
  by (auto simp: served_def ret_def hide_statfs)

lemma chk_getattr [step_simps]:
  "served (Getattr p sb) \<Longrightarrow> chk H (Call (Getattr p sb) k) t S Q \<longleftrightarrow>
     after (t_getattr (comps p) sb S) (\<lambda>(c, s) S'. \<forall>i. chk H (k (RStat c (s\<lparr>st_ino := i\<rparr>))) (Suc t) S' Q)"
proof -
  have h: "(\<forall>x. hide_reply x = RStat c s \<longrightarrow> P x) \<longleftrightarrow> (\<forall>i. P (RStat c (s\<lparr>st_ino := i\<rparr>)))" if "st_ino s = 0" for P c s
  proof
    assume a: "\<forall>i. P (RStat c (s\<lparr>st_ino := i\<rparr>))"
    show "\<forall>x. hide_reply x = RStat c s \<longrightarrow> P x"
    proof (intro allI impI)
      fix x assume "hide_reply x = RStat c s"
      then obtain s' where "x = RStat c s'" "hide s' = s" by (auto simp: hide_stat)
      moreover then have "s' = s\<lparr>st_ino := st_ino s'\<rparr>" by (auto simp: hide_def)
      ultimately show "P x" using a by metis
    qed
  qed (use that in \<open>auto simp: hide_stat hide_def\<close>)
  assume "served (Getattr p sb)"
  then show ?thesis
    by (cases "nodes S (comps p)")
       (simp_all add: after_def andThen_def ret_def t_getattr_def h node_stat_def)
qed

text \<open>A continuation of readdir that looks at the code and the names.\<close>

lemma chk_readdir_names:
  assumes "canonical p" and k: "\<And>x. k x = K (code x) (names_of x)"
  shows "chk H (Call (Readdir p) k) t S Q \<longleftrightarrow> (case nodes S (comps p) of
       None \<Rightarrow> chk H (K (- ENOENT) []) (Suc t) S Q
     | Some (File a c) \<Rightarrow> chk H (K (- ENOTDIR) []) (Suc t) S Q
     | Some (Dir a s es) \<Rightarrow> chk H (K 0 (entries es)) (Suc t) S Q)"
proof -
  have n: "names_of x = map fst l" "code x = c" if "hide_reply x = RDir c l" for x c l
    using that by (cases x; auto simp: comp_def split_beta)+
  have x: "\<exists>x. hide_reply x = RDir c (map (\<lambda>t. (t, node_stat (g t))) ts)" for c g ts
    by (rule exI [of _ "RDir c (map (\<lambda>t. (t, node_stat (g t))) ts)"]) (simp add: hide_def node_stat_def)
  have e: "(\<forall>x. hide_reply x = RDir c (map (\<lambda>t. (t, node_stat (g t))) ts) \<longrightarrow> P (code x) (names_of x)) \<longleftrightarrow> P c ts"
    for c g ts and P :: "int \<Rightarrow> cstring list \<Rightarrow> bool"
    using n [of _ c "map (\<lambda>t. (t, node_stat (g t))) ts"] x [of c g ts] by (auto simp: comp_def)
  note E = e [where P = "\<lambda>c ns. chk H (K c ns) (Suc t) S Q"]
  show ?thesis
  proof (cases "nodes S (comps p)")
    case None
    then show ?thesis using assms(1) E [where ts = "[]"] by (simp add: served_def andThen_def t_readdir_def ret_def k)
  next
    case (Some nd)
    then show ?thesis
      using assms(1) E [where ts = "[]"] E
      by (cases nd) (simp_all add: served_def andThen_def t_readdir_def ret_def k)
  qed
qed

lemma chk_readdir [step_simps]:
  assumes "canonical (cstr path)"
  shows "chk H (list_dir path xs f) t S Q \<longleftrightarrow>
    (case nodes S (comps (cstr path)) of
       None \<Rightarrow> (case fill_all xs [] of None \<Rightarrow> False | Some ys \<Rightarrow> chk H (f (- ENOENT) ys) (Suc t) S Q)
     | Some (File a c) \<Rightarrow> (case fill_all xs [] of None \<Rightarrow> False | Some ys \<Rightarrow> chk H (f (- ENOTDIR) ys) (Suc t) S Q)
     | Some (Dir a s es) \<Rightarrow>
         (case fill_all xs (entries es) of None \<Rightarrow> False | Some ys \<Rightarrow> chk H (f 0 ys) (Suc t) S Q))"
  unfolding list_dir_def
  by (subst chk_readdir_names [OF assms, where K = "\<lambda>c ns. case fill_all xs ns of None \<Rightarrow> Stuck Out_of_bounds | Some ys \<Rightarrow> f c ys"])
     (simp_all split: option.split node.split)

lemma chk_read:
  assumes "canonical p"
  shows "chk H (Call (Read p len off) k) t S Q \<longleftrightarrow>
    after (t_read (comps p) len off S) (\<lambda>(c, bs) S'. chk H (k (RData c bs)) (Suc t) S' Q)"
  using assms by (auto simp: served_def after_def andThen_def ret_def hide_data split: prod.splits sum.splits)

section \<open>Statements of the tests\<close>

lemma chk_rv_eq [step_simps]:
  "canonical p \<Longrightarrow> chk H (rv_eq (Mkdir p m) n) t S Q \<longleftrightarrow>
     after (t_new (comps p) (Dir (new_attrs (env_at H t) m (push_bit 14 1)) 4096 (replicate 128 None)) 2 S)
       (\<lambda>c S'. c = n \<and> Q () (Suc t) S')"
  "canonical p \<Longrightarrow> chk H (rv_eq (Create p m) n) t S Q \<longleftrightarrow>
     after (t_new (comps p) (File (new_attrs (env_at H t) m (push_bit 15 1)) []) 1 S)
       (\<lambda>c S'. c = n \<and> Q () (Suc t) S')"
  "canonical p \<Longrightarrow> p \<noteq> [slash] \<Longrightarrow> chk H (rv_eq (Unlink p) n) t S Q \<longleftrightarrow>
     after (t_unlink (env_at H t) (comps p) S) (\<lambda>c S'. c = n \<and> Q () (Suc t) S')"
  "canonical p \<Longrightarrow> p \<noteq> [slash] \<Longrightarrow> chk H (rv_eq (Rmdir p) n) t S Q \<longleftrightarrow>
     after (t_rmdir (env_at H t) (comps p) S) (\<lambda>c S'. c = n \<and> Q () (Suc t) S')"
  "canonical p \<Longrightarrow> chk H (rv_eq (Write p buf off) n) t S Q \<longleftrightarrow>
     after (t_write (env_at H t) (comps p) buf off S) (\<lambda>c S'. c = n \<and> Q () (Suc t) S')"
  "canonical p \<Longrightarrow> chk H (rv_eq (Truncate p len) n) t S Q \<longleftrightarrow>
     after (t_truncate (comps p) len S) (\<lambda>c S'. c = n \<and> Q () (Suc t) S')"
  "canonical p \<Longrightarrow> chk H (rv_eq (Utime p ut) n) t S Q \<longleftrightarrow>
     after (t_utime (env_at H t) (comps p) ut S) (\<lambda>c S'. c = n \<and> Q () (Suc t) S')"
  by (simp_all add: rv_eq_def chk_calls del: chk.simps(3))

lemma chk_dropped [step_simps]:
  "canonical p \<Longrightarrow> p \<noteq> [slash] \<Longrightarrow> chk H (dropped (Rmdir p)) t S Q \<longleftrightarrow>
     after (t_rmdir (env_at H t) (comps p) S) (\<lambda>c S'. Q () (Suc t) S')"
  by (simp add: dropped_def chk_calls del: chk.simps(3))

lemma chk_rv_lt [step_simps]:
  "canonical p \<Longrightarrow> chk H (rv_lt (Getattr p sb) n) t S Q \<longleftrightarrow>
     after (t_getattr (comps p) sb S) (\<lambda>(c, s) S'. c < n \<and> Q () (Suc t) S')"
  by (simp add: rv_lt_def chk_getattr served_lit split_beta del: chk.simps(3))

lemma chk_test_getattr [step_simps]:
  "served (Getattr (cstr p) (sb_0 u)) \<Longrightarrow> chk H (stat_ok u p f) t S Q \<longleftrightarrow>
     after (t_getattr (comps (cstr p)) (sb_0 u) S)
       (\<lambda>(c, s) S'. c = 0 \<and> (\<forall>i. chk H (f (s\<lparr>st_ino := i\<rparr>)) (Suc t) S' Q))"
  by (simp add: stat_ok_def chk_getattr split_beta del: chk.simps(3))

lemma chk_rv_eq_more [step_simps]:
  "canonical p \<Longrightarrow> chk H (rv_eq (Chmod p m) n) t S Q \<longleftrightarrow>
     after (t_chmod (comps p) m S) (\<lambda>c S'. c = n \<and> Q () (Suc t) S')"
  "canonical p \<Longrightarrow> canonical q \<Longrightarrow> p \<noteq> [slash] \<Longrightarrow> q \<noteq> [slash] \<Longrightarrow> chk H (rv_eq (Rename p q) n) t S Q \<longleftrightarrow>
     after (t_rename (comps p) (comps q) S) (\<lambda>c S'. c = n \<and> Q () (Suc t) S')"
  by (simp_all add: rv_eq_def chk_more_calls del: chk.simps(3))

lemma chk_getattr_code [step_simps]:
  "canonical p \<Longrightarrow> chk H (rv_eq (Getattr p sb) n) t S Q \<longleftrightarrow>
     after (t_getattr (comps p) sb S) (\<lambda>(c, s) S'. c = n \<and> Q () (Suc t) S')"
  by (simp add: rv_eq_def chk_getattr served_lit split_beta del: chk.simps(3))

lemma chk_read_code [step_simps]:
  "canonical p \<Longrightarrow> chk H (rv_eq (Read p len off) n) t S Q \<longleftrightarrow>
     after (t_read (comps p) len off S) (\<lambda>(c, s) S'. c = n \<and> Q () (Suc t) S')"
  by (simp add: rv_eq_def chk_read split_beta del: chk.simps(3))

lemma chk_now_is [step_simps]: "chk H (now_is f) t S Q \<longleftrightarrow> chk H (f (word_of_int (clock H t))) (Suc t) S Q"
  by (simp add: now_is_def)

lemma chk_recent [step_simps]:
  "chk H (recent tm nw) t S Q \<longleftrightarrow> uint nw \<le> uint tm \<and> uint tm < uint (nw + 10) \<and> Q () t S"
  by (auto simp: recent_def)

text \<open>The free blocks \<open>statfs\<close> reports.\<close>

definition free_word :: "fs_super \<Rightarrow> nat \<Rightarrow> 64 word" where
  "free_word sp r = ucast (disk_size sp - 2) - of_nat (32766 - r)"

lemma chk_blocks [step_simps]:
  "chk H (start_blocks u f) t S Q \<longleftrightarrow>
     chk H (f (sint (ucast (free_word (super S) (room S)) :: u32))) (Suc t) S Q"
  "chk H (check_blocks u blks) t S Q \<longleftrightarrow> blks = sint (free_word (super S) (room S)) \<and> Q () (Suc t) S"
  by (simp_all add: start_blocks_def check_blocks_def chk_statfs t_statfs_def free_word_def free_blks_def Let_def
    del: chk.simps(3))

lemma chk_new_image:
  "chk H new_image t S Q \<longleftrightarrow> (\<exists>N d. block_init (images H) (cstr ''test2.img'') = Inr d \<and> consistent N d
     \<and> magic (decode_super (blk d 0)) = FS_MAGIC \<and> Q () (Suc (Suc t)) (fsys_of N d))"
  by (simp add: new_image_def chk_init del: chk.simps(3))

section \<open>Attributes, slots, times\<close>

lemma new_attrs_fields [step_simps]:
  "a_mode (new_attrs e m typ) = (0xfff AND m) OR typ"
  "a_ctime (new_attrs e m typ) = now e" "a_mtime (new_attrs e m typ) = now e"
  "a_uid (new_attrs e m typ) = ucast (ctx_uid e)" "a_gid (new_attrs e m typ) = ucast (ctx_gid e)"
  by (simp_all add: new_attrs_def)

lemma env_at_fields [step_simps]:
  "now (env_at H t) = word_of_int (clock H t)" "ctx_uid (env_at H t) = 501" "ctx_gid (env_at H t) = 502"
  by (simp_all add: env_at_def ctx_def)

lemma node_stat_fields [step_simps]:
  "st_mode (node_stat nd) = a_mode (node_attrs nd)" "st_uid (node_stat nd) = a_uid (node_attrs nd)"
  "st_gid (node_stat nd) = a_gid (node_attrs nd)" "st_size (node_stat nd) = node_size nd"
  "st_mtim (node_stat nd) = a_mtime (node_attrs nd)" "st_ctim (node_stat nd) = a_ctime (node_attrs nd)"
  "node_attrs (Dir a s xs) = a" "node_attrs (File a c) = a" "node_size (Dir a s xs) = s" "node_size (File a c) = int (length c)"
  by (simp_all add: node_stat_def node_attrs_def node_size_def)

lemma enter_blank [step_simps]: "0 < n \<Longrightarrow> enter t (replicate n None) = Some t # replicate (n - 1) None"
  by (cases n) simp_all

lemma entries_run [step_simps]:
  "entries (Some t # xs) = t # entries xs" "entries (None # xs) = entries xs" "entries (replicate n None) = []"
  "entries [] = []"
  by (simp_all add: entries_def)

lemma erase_run [step_simps]:
  "erase t (Some u # xs) = (if u = t then None else Some u) # erase t xs"
  "erase t (None # xs) = None # erase t xs"
  "erase t (replicate n None) = replicate n None"
  by (simp_all add: erase_def)

lemma filler_run [step_simps]:
  "mkdir_1_filler [] nm = None"
  "mkdir_1_filler (None # xs) nm = Some (Some nm # xs)"
  "mkdir_1_filler (Some x # xs) nm = map_option (\<lambda>ys. Some x # ys) (mkdir_1_filler xs nm)"
  by (simp_all add: mkdir_1_filler_def Let_def)

text \<open>
  What the tests expect of the clock: it does not run backwards, a test takes less than ten
  seconds, and the year is before 2106, so that \<open>uint32_t\<close> holds the time.
\<close>

definition timed :: "host \<Rightarrow> bool" where
  "timed H \<longleftrightarrow> (\<forall>i j. i \<le> j \<longrightarrow> clock H i \<le> clock H j \<and> clock H j < clock H i + 10)
     \<and> (\<forall>i. 0 \<le> clock H i \<and> clock H i < 2 ^ 32 - 40)"

lemma timed_run [step_simps]:
  assumes "timed H"
  shows "i \<le> j \<Longrightarrow> clock H i \<le> clock H j" and "i \<le> j \<Longrightarrow> clock H j < clock H i + 10"
    and "uint (word_of_int (clock H i) :: u32) = clock H i"
    and "uint (word_of_int (clock H i) + 10 :: u32) = clock H i + 10"
    and "uint (word_of_int (clock H i) + 20 :: u32) = clock H i + 20"
proof -
  have r: "0 \<le> clock H i" "clock H i < 2 ^ 32 - 40" using assms by (simp_all add: timed_def)
  have w: "uint (word_of_int x :: u32) = x" if "0 \<le> x" "x < 2 ^ 32" for x
    using that by (simp add: uint_word_of_int)
  show "uint (word_of_int (clock H i) :: u32) = clock H i" using r by (intro w; simp)
  have e: "word_of_int (clock H i) + numeral k = (word_of_int (clock H i + numeral k) :: u32)" for k by simp
  show "uint (word_of_int (clock H i) + 10 :: u32) = clock H i + 10"
    unfolding e using r by (intro w; simp)
  show "uint (word_of_int (clock H i) + 20 :: u32) = clock H i + 20"
    unfolding e using r by (intro w; simp)
qed (use assms in \<open>auto simp: timed_def\<close>)

section \<open>A fresh image\<close>

text \<open>
  The state \<open>gen-disk.py\<close> makes of \<open>disk2.in\<close>: an empty root directory on 400 blocks; the
  map has 32768 bits, of which the superblock, the map, the root and its block are set.
\<close>

definition disk2_state :: "fsys \<Rightarrow> bool" where
  "disk2_state S \<longleftrightarrow> (\<exists>a sz. nodes S = [[] \<mapsto> Dir a sz (replicate 128 None)]) \<and> room S = 32764
     \<and> magic (super S) = FS_MAGIC \<and> disk_size (super S) = 400"

definition ready :: "host \<Rightarrow> bool" where
  "ready H \<longleftrightarrow> wf_host H \<and> (\<exists>N d. block_init (images H) (cstr ''test2.img'') = Inr d \<and> consistent N d
     \<and> disk2_state (fsys_of N d))"

lemma passI:
  assumes "ready H"
    and k: "\<And>a sz sp. magic sp = FS_MAGIC \<Longrightarrow> disk_size sp = 400 \<Longrightarrow>
      chk H (k ()) 2 \<lparr>nodes = [[] \<mapsto> Dir a sz (replicate 128 None)], room = 32764, super = sp\<rparr> (\<lambda>_ _ _. True)"
  shows "fst (run H (bind new_image k) 0 d) = Done ()"
proof -
  obtain N d0 where H: "wf_host H" and b: "block_init (images H) (cstr ''test2.img'') = Inr d0" and C: "consistent N d0"
    and f: "disk2_state (fsys_of N d0)"
    using assms(1) by (auto simp: ready_def)
  obtain T r sp where S: "fsys_of N d0 = \<lparr>nodes = T, room = r, super = sp\<rparr>" by (cases "fsys_of N d0")
  obtain a sz where T: "T = [[] \<mapsto> Dir a sz (replicate 128 None)]" "r = 32764" "magic sp = FS_MAGIC" "disk_size sp = 400"
    using f by (auto simp: disk2_state_def S)
  have "chk H (bind (Call Init (\<lambda>x. Return ())) k) 1 (fsys_of N d0) (\<lambda>_ _ _. True)"
    using k [OF T(3,4), of a sz] by (simp add: chk_init S T numeral_2_eq_2 del: chk.simps(3) bind.simps)
  from chk_sound [OF H C this] show ?thesis
    by (auto simp: new_image_def b)
qed

section \<open>The paths of the tests\<close>

lemma lit_paths [step_simps]:
  "canonical (cstr ''/file_4000'')" "cstr ''/file_4000'' \<noteq> [slash]"
  "comps (cstr ''/file_4000'') = [cstr ''file_4000'']"
  "canonical (cstr ''/file_4096'')" "cstr ''/file_4096'' \<noteq> [slash]"
  "comps (cstr ''/file_4096'') = [cstr ''file_4096'']"
  "canonical (cstr ''/file_8000'')" "cstr ''/file_8000'' \<noteq> [slash]"
  "comps (cstr ''/file_8000'') = [cstr ''file_8000'']"
  "canonical (cstr ''/file_8192'')" "cstr ''/file_8192'' \<noteq> [slash]"
  "comps (cstr ''/file_8192'') = [cstr ''file_8192'']"
  "canonical (cstr ''/file_12288'')" "cstr ''/file_12288'' \<noteq> [slash]"
  "comps (cstr ''/file_12288'') = [cstr ''file_12288'']"
  "canonical (cstr ''/file_13000'')" "cstr ''/file_13000'' \<noteq> [slash]"
  "comps (cstr ''/file_13000'') = [cstr ''file_13000'']"
  "canonical (cstr ''/dir1'')" "cstr ''/dir1'' \<noteq> [slash]"
  "comps (cstr ''/dir1'') = [cstr ''dir1'']"
  "canonical (cstr ''/dir1/dir2'')" "cstr ''/dir1/dir2'' \<noteq> [slash]"
  "comps (cstr ''/dir1/dir2'') = [cstr ''dir1'', cstr ''dir2'']"
  "canonical (cstr ''/dir1/dir2/dir3'')" "cstr ''/dir1/dir2/dir3'' \<noteq> [slash]"
  "comps (cstr ''/dir1/dir2/dir3'') = [cstr ''dir1'', cstr ''dir2'', cstr ''dir3'']"
  "canonical (cstr ''/dir1/dir2/file3'')" "cstr ''/dir1/dir2/file3'' \<noteq> [slash]"
  "comps (cstr ''/dir1/dir2/file3'') = [cstr ''dir1'', cstr ''dir2'', cstr ''file3'']"
  "canonical (cstr ''/dir1/dir2/nothing'')" "cstr ''/dir1/dir2/nothing'' \<noteq> [slash]"
  "comps (cstr ''/dir1/dir2/nothing'') = [cstr ''dir1'', cstr ''dir2'', cstr ''nothing'']"
  "canonical (cstr ''/dir1/dir2/this-directory-is-really-long'')" "cstr ''/dir1/dir2/this-directory-is-really-long'' \<noteq> [slash]"
  "comps (cstr ''/dir1/dir2/this-directory-is-really-long'') = [cstr ''dir1'', cstr ''dir2'', cstr ''this-directory-is-really-long'']"
  "canonical (cstr ''/dir1/dir2/this-filename-is-also-really-long'')" "cstr ''/dir1/dir2/this-filename-is-also-really-long'' \<noteq> [slash]"
  "comps (cstr ''/dir1/dir2/this-filename-is-also-really-long'') = [cstr ''dir1'', cstr ''dir2'', cstr ''this-filename-is-also-really-long'']"
  "canonical (cstr ''/dir1/dir4'')" "cstr ''/dir1/dir4'' \<noteq> [slash]"
  "comps (cstr ''/dir1/dir4'') = [cstr ''dir1'', cstr ''dir4'']"
  "canonical (cstr ''/dir1/dir4/dir6'')" "cstr ''/dir1/dir4/dir6'' \<noteq> [slash]"
  "comps (cstr ''/dir1/dir4/dir6'') = [cstr ''dir1'', cstr ''dir4'', cstr ''dir6'']"
  "canonical (cstr ''/dir1/dir4/file1'')" "cstr ''/dir1/dir4/file1'' \<noteq> [slash]"
  "comps (cstr ''/dir1/dir4/file1'') = [cstr ''dir1'', cstr ''dir4'', cstr ''file1'']"
  "canonical (cstr ''/dir1/dir5'')" "cstr ''/dir1/dir5'' \<noteq> [slash]"
  "comps (cstr ''/dir1/dir5'') = [cstr ''dir1'', cstr ''dir5'']"
  "canonical (cstr ''/dir1/dir5/dir'')" "cstr ''/dir1/dir5/dir'' \<noteq> [slash]"
  "comps (cstr ''/dir1/dir5/dir'') = [cstr ''dir1'', cstr ''dir5'', cstr ''dir'']"
  "canonical (cstr ''/dir1/dir5/file'')" "cstr ''/dir1/dir5/file'' \<noteq> [slash]"
  "comps (cstr ''/dir1/dir5/file'') = [cstr ''dir1'', cstr ''dir5'', cstr ''file'']"
  "canonical (cstr ''/dir1/file1'')" "cstr ''/dir1/file1'' \<noteq> [slash]"
  "comps (cstr ''/dir1/file1'') = [cstr ''dir1'', cstr ''file1'']"
  "canonical (cstr ''/dir1/file2'')" "cstr ''/dir1/file2'' \<noteq> [slash]"
  "comps (cstr ''/dir1/file2'') = [cstr ''dir1'', cstr ''file2'']"
  "canonical (cstr ''/dir1/file2/dir'')" "cstr ''/dir1/file2/dir'' \<noteq> [slash]"
  "comps (cstr ''/dir1/file2/dir'') = [cstr ''dir1'', cstr ''file2'', cstr ''dir'']"
  "canonical (cstr ''/dir1/file2/dir3'')" "cstr ''/dir1/file2/dir3'' \<noteq> [slash]"
  "comps (cstr ''/dir1/file2/dir3'') = [cstr ''dir1'', cstr ''file2'', cstr ''dir3'']"
  "canonical (cstr ''/dir1/file2/file'')" "cstr ''/dir1/file2/file'' \<noteq> [slash]"
  "comps (cstr ''/dir1/file2/file'') = [cstr ''dir1'', cstr ''file2'', cstr ''file'']"
  "canonical (cstr ''/dir1/file2/file3'')" "cstr ''/dir1/file2/file3'' \<noteq> [slash]"
  "comps (cstr ''/dir1/file2/file3'') = [cstr ''dir1'', cstr ''file2'', cstr ''file3'']"
  "canonical (cstr ''/dir1/filexxx'')" "cstr ''/dir1/filexxx'' \<noteq> [slash]"
  "comps (cstr ''/dir1/filexxx'') = [cstr ''dir1'', cstr ''filexxx'']"
  "canonical (cstr ''/dir1/nothing/dir3'')" "cstr ''/dir1/nothing/dir3'' \<noteq> [slash]"
  "comps (cstr ''/dir1/nothing/dir3'') = [cstr ''dir1'', cstr ''nothing'', cstr ''dir3'']"
  "canonical (cstr ''/dir1/nothing/file3'')" "cstr ''/dir1/nothing/file3'' \<noteq> [slash]"
  "comps (cstr ''/dir1/nothing/file3'') = [cstr ''dir1'', cstr ''nothing'', cstr ''file3'']"
  "canonical (cstr ''/dir10'')" "cstr ''/dir10'' \<noteq> [slash]"
  "comps (cstr ''/dir10'') = [cstr ''dir10'']"
  "canonical (cstr ''/dir10/dir11'')" "cstr ''/dir10/dir11'' \<noteq> [slash]"
  "comps (cstr ''/dir10/dir11'') = [cstr ''dir10'', cstr ''dir11'']"
  "canonical (cstr ''/dir2'')" "cstr ''/dir2'' \<noteq> [slash]"
  "comps (cstr ''/dir2'') = [cstr ''dir2'']"
  "canonical (cstr ''/dir20'')" "cstr ''/dir20'' \<noteq> [slash]"
  "comps (cstr ''/dir20'') = [cstr ''dir20'']"
  "canonical (cstr ''/dir20/f3'')" "cstr ''/dir20/f3'' \<noteq> [slash]"
  "comps (cstr ''/dir20/f3'') = [cstr ''dir20'', cstr ''f3'']"
  "canonical (cstr ''/dir20/f4'')" "cstr ''/dir20/f4'' \<noteq> [slash]"
  "comps (cstr ''/dir20/f4'') = [cstr ''dir20'', cstr ''f4'']"
  "canonical (cstr ''/dir3'')" "cstr ''/dir3'' \<noteq> [slash]"
  "comps (cstr ''/dir3'') = [cstr ''dir3'']"
  "canonical (cstr ''/dir7/dir'')" "cstr ''/dir7/dir'' \<noteq> [slash]"
  "comps (cstr ''/dir7/dir'') = [cstr ''dir7'', cstr ''dir'']"
  "canonical (cstr ''/dir7/file'')" "cstr ''/dir7/file'' \<noteq> [slash]"
  "comps (cstr ''/dir7/file'') = [cstr ''dir7'', cstr ''file'']"
  "canonical (cstr ''/f1'')" "cstr ''/f1'' \<noteq> [slash]"
  "comps (cstr ''/f1'') = [cstr ''f1'']"
  "canonical (cstr ''/f2'')" "cstr ''/f2'' \<noteq> [slash]"
  "comps (cstr ''/f2'') = [cstr ''f2'']"
  "canonical (cstr ''/f5'')" "cstr ''/f5'' \<noteq> [slash]"
  "comps (cstr ''/f5'') = [cstr ''f5'']"
  "canonical (cstr ''/f6'')" "cstr ''/f6'' \<noteq> [slash]"
  "comps (cstr ''/f6'') = [cstr ''f6'']"
  "canonical (cstr ''/file1'')" "cstr ''/file1'' \<noteq> [slash]"
  "comps (cstr ''/file1'') = [cstr ''file1'']"
  "canonical (cstr ''/file1/dir'')" "cstr ''/file1/dir'' \<noteq> [slash]"
  "comps (cstr ''/file1/dir'') = [cstr ''file1'', cstr ''dir'']"
  "canonical (cstr ''/file1/file'')" "cstr ''/file1/file'' \<noteq> [slash]"
  "comps (cstr ''/file1/file'') = [cstr ''file1'', cstr ''file'']"
  "canonical (cstr ''/file17'')" "cstr ''/file17'' \<noteq> [slash]"
  "comps (cstr ''/file17'') = [cstr ''file17'']"
  "canonical (cstr ''/file2'')" "cstr ''/file2'' \<noteq> [slash]"
  "comps (cstr ''/file2'') = [cstr ''file2'']"
  "canonical (cstr ''/file3'')" "cstr ''/file3'' \<noteq> [slash]"
  "comps (cstr ''/file3'') = [cstr ''file3'']"
  "canonical (cstr ''/file4'')" "cstr ''/file4'' \<noteq> [slash]"
  "comps (cstr ''/file4'') = [cstr ''file4'']"
  "canonical (cstr ''/file5'')" "cstr ''/file5'' \<noteq> [slash]"
  "comps (cstr ''/file5'') = [cstr ''file5'']"
  "canonical (cstr ''/file6'')" "cstr ''/file6'' \<noteq> [slash]"
  "comps (cstr ''/file6'') = [cstr ''file6'']"
  "canonical (cstr ''/file7'')" "cstr ''/file7'' \<noteq> [slash]"
  "comps (cstr ''/file7'') = [cstr ''file7'']"
  "canonical (cstr ''/this-directory-is-really-long'')" "cstr ''/this-directory-is-really-long'' \<noteq> [slash]"
  "comps (cstr ''/this-directory-is-really-long'') = [cstr ''this-directory-is-really-long'']"
  "canonical (cstr ''/this-filename-is-also-really-long'')" "cstr ''/this-filename-is-also-really-long'' \<noteq> [slash]"
  "comps (cstr ''/this-filename-is-also-really-long'') = [cstr ''this-filename-is-also-really-long'']"
  by (subst path_lit; simp add: plain_def)+

section \<open>How a test is checked\<close>

text \<open>The ticks stay numerals.\<close>

lemma ticks [step_simps]: "Suc 0 = 1" "Suc 1 = 2"
  by simp_all

text \<open>Only the tree is simplified while a statement is checked, not what follows it.\<close>

lemma chk_cong: "t = t' \<Longrightarrow> S = S' \<Longrightarrow> chk H p t S Q = chk H p t' S' Q"
  by simp

lemma after_cong: "r = r' \<Longrightarrow> after r P = after r' P"
  by simp

lemma chk_statements [step_simps]:
  "chk H (steps []) t S Q = Q () t S"
  "chk H (steps [p]) t S Q = chk H p t S Q"
  "chk H (steps (p # q # ps)) t S Q = chk H p t S (\<lambda>_ t S. chk H (steps (q # ps)) t S Q)"
  "chk H (each [] f) t S Q = Q () t S"
  "chk H (each (x # xs) f) t S Q = chk H (f x) t S (\<lambda>_ t S. chk H (each xs f) t S Q)"
  by simp_all

lemma chk_forms [step_simps]:
  "chk H (case (a, b) of (x, y) \<Rightarrow> g x y) t S Q = chk H (g a b) t S Q"
  "chk H (let z = v in k z) t S Q = chk H (k v) t S Q"
  "chk H (str_eq xs i s) t S Q \<longleftrightarrow> xs ! i = Some (cstr s) \<and> Q () t S"
  "chk H (ptr_null xs i) t S Q \<longleftrightarrow> xs ! i = None \<and> Q () t S"
  "chk H (owned sb m) t S Q \<longleftrightarrow> st_mode sb = m \<and> st_uid sb = 501 \<and> st_gid sb = 502 \<and> Q () t S"
  by (simp_all add: str_eq_def ptr_null_def owned_def)

lemma chk_units [step_simps]:
  "chk H build_tree = chk H (steps [
     rv_eq (Mkdir (cstr ''/dir1'') O777) 0,
     rv_eq (Mkdir (cstr ''/dir1/dir2'') O777) 0,
     rv_eq (Mkdir (cstr ''/dir1/dir2/dir3'') O777) 0,
     rv_eq (Create (cstr ''/file1'') (S_IFREG OR O777)) 0,
     rv_eq (Create (cstr ''/dir1/file2'') (S_IFREG OR O777)) 0,
     rv_eq (Create (cstr ''/dir1/dir2/file3'') (S_IFREG OR O777)) 0])"
  "chk H clear_tree = chk H (steps [
     each [''/dir1/dir2/file3'', ''/dir1/file2'', ''/file1''] (\<lambda>f. rv_eq (Unlink (cstr f)) 0),
     each [''/dir1/dir2/dir3'', ''/dir1/dir2'', ''/dir1''] (\<lambda>d. rv_eq (Rmdir (cstr d)) 0)])"
  "chk H (unlink_each u []) = chk H (Return ())"
  "chk H (unlink_each u (f # fs)) = chk H (steps [
     rv_eq (Unlink (cstr f)) 0, rv_lt (Getattr (cstr f) (sb_0 u)) 0,
     each fs (\<lambda>g. stat_ok u g (\<lambda>sb. Return ())), unlink_each u fs])"
  by (simp_all only: build_tree_def clear_tree_def unlink_each.simps)

lemma nulls_run [step_simps]:
  "0 < n \<Longrightarrow> mkdir_1_filler (nulls n) nm = Some (Some nm # nulls (n - 1))"
  "i < n \<Longrightarrow> nulls n ! i = None"
proof -
  assume "0 < n"
  then have "nulls n = None # nulls (n - 1)" unfolding nulls_def by (cases n) simp_all
  then show "mkdir_1_filler (nulls n) nm = Some (Some nm # nulls (n - 1))" by (simp only: filler_run)
qed (simp add: nulls_def)

lemma nth_run [step_simps]: "(x # xs) ! 1 = xs ! 0"
  by simp

lemma blocks_for_run [step_simps]:
  "blocks_for 0 = 0" "blocks_for (numeral k) = (numeral k + 4095) div 4096"
  by (simp_all add: blocks_for_def)

lemma splice_run [step_simps]: "splice 0 buf [] = buf"
  by (simp add: splice_def)

lemma utime_run [step_simps]: "utime_value e None = now e" "utime_value e (Some x) = word_of_int x"
  by (simp_all add: utime_value_def)

lemma dir1_slash [step_simps]:
  "served (Getattr (cstr ''/dir1/'') sb)" "comps (cstr ''/dir1/'') = [cstr ''dir1'']"
  using slash_lit(1) [of "''/dir1''" sb] slash_lit(2) [of "''/dir1''"] by (simp_all add: plain_def)

lemma file_paths [step_simps]:
  "file_path 4000 = ''/file_4000''"
  "file_path 4096 = ''/file_4096''"
  "file_path 8000 = ''/file_8000''"
  "file_path 8192 = ''/file_8192''"
  "file_path 12288 = ''/file_12288''"
  "file_path 13000 = ''/file_13000''"
  by (simp_all add: file_path_def decimal.simps char_of_eq_iff)

section \<open>File contents\<close>

text \<open>The bytes \<open>rnd_data\<close> draws.\<close>

definition rnd_list :: "host \<Rightarrow> nat \<Rightarrow> nat \<Rightarrow> byte list" where
  "rnd_list H t n = map (\<lambda>i. word_of_int (entropy H i)) [t..<t + n]"

lemma length_rnd_list [simp]: "length (rnd_list H t n) = n"
  by (simp add: rnd_list_def)

lemma chk_rnd_bytes: "chk H (rnd_bytes n) t S Q \<longleftrightarrow> Q (rnd_list H t n) (t + n) S"
proof (induction n arbitrary: t Q)
  case 0
  then show ?case by (simp add: rnd_list_def)
next
  case (Suc n)
  have "rnd_list H t (Suc n) = word_of_int (entropy H t) # rnd_list H (Suc t) n"
    by (simp add: rnd_list_def upt_conv_Cons del: upt_Suc)
  then show ?case using Suc.IH by simp
qed

lemma chk_rnd_data: "chk H (rnd_data n) t S Q \<longleftrightarrow> Q (rnd_list H t (n + 10)) (t + (n + 10)) S"
  by (simp add: rnd_data_def chk_rnd_bytes)

text \<open>The number of calls \<open>_do_write\<close> makes, and what they leave.\<close>

definition calls :: "nat \<Rightarrow> nat \<Rightarrow> nat" where
  "calls len b = (len + b - 1) div b"

lemma calls_simps:
  "0 < b \<Longrightarrow> calls 0 b = 0" "0 < len \<Longrightarrow> len \<le> b \<Longrightarrow> calls len b = 1"
  "0 < b \<Longrightarrow> b < len \<Longrightarrow> calls len b = Suc (calls (len - b) b)"
proof -
  assume b: "0 < b" "b < len"
  then have "len + b - 1 = (len - b + b - 1) + b" by simp
  then show "calls len b = Suc (calls (len - b) b)" using b unfolding calls_def by (simp only: div_add_self2)
next
  assume "0 < len" "len \<le> b"
  then have "len + b - 1 = (len - 1) + b" "(len - 1) div b = 0" by simp_all
  moreover have "(len - 1 + b) div b = (len - 1) div b + 1" using \<open>0 < len\<close> \<open>len \<le> b\<close> by (intro div_add_self2) simp
  ultimately show "calls len b = 1" unfolding calls_def by simp
qed (simp add: calls_def)

lemma blocks_for_mono: "m \<le> n \<Longrightarrow> blocks_for m \<le> blocks_for n"
  by (simp add: blocks_for_def div_le_mono)

lemma splice_end: "length c = off \<Longrightarrow> splice off buf c = c @ buf"
  by (simp add: splice_def)

text \<open>A file that grows by \<open>buf\<close>, last written at tick \<open>t\<close>.\<close>

definition grown :: "host \<Rightarrow> nat \<Rightarrow> cstring list \<Rightarrow> attrs \<Rightarrow> byte list \<Rightarrow> byte list \<Rightarrow> fsys \<Rightarrow> fsys" where
  "grown H t toks a c buf S = S\<lparr>nodes := (nodes S)(toks \<mapsto> File (a\<lparr>a_mtime := now (env_at H t)\<rparr>) (c @ buf)),
     room := room S - (blocks_for (length c + length buf) - blocks_for (length c))\<rparr>"

lemma chk_append:
  assumes "canonical p" and "nodes S (comps p) = Some (File a c)" and "length c = off"
    and "off + length buf \<le> 4096 * 1019" and "blocks_for (off + length buf) - blocks_for off \<le> room S"
  shows "chk H (rv_eq (Write p buf off) (int (length buf))) t S Q \<longleftrightarrow> Q () (Suc t) (grown H t (comps p) a c buf S)"
  using assms by (simp add: chk_rv_eq t_write_def after_ret splice_end grown_def Let_def)

lemma grown_grown:
  assumes "length buf = m"
  shows "grown H t' toks (a\<lparr>a_mtime := w\<rparr>) (c @ buf) buf' (grown H t toks a c buf S) = grown H t' toks a c (buf @ buf') S"
proof -
  have "blocks_for (length c) \<le> blocks_for (length c + length buf)"
    "blocks_for (length c + length buf) \<le> blocks_for (length c + length buf + length buf')"
    by (simp_all add: blocks_for_mono)
  then show ?thesis by (simp add: grown_def add.assoc)
qed

lemma chk_write_steps:
  assumes "canonical p" and "0 < b"
  shows "nodes S (comps p) = Some (File a c) \<Longrightarrow> length c = off \<Longrightarrow> 0 < len \<Longrightarrow> len \<le> fuel \<Longrightarrow> len \<le> length buf \<Longrightarrow>
    off + len \<le> 4096 * 1019 \<Longrightarrow> blocks_for (off + len) - blocks_for off \<le> room S \<Longrightarrow>
    chk H (write_steps fuel p buf len b off) t S Q \<longleftrightarrow>
      Q () (t + calls len b) (grown H (t + calls len b - 1) (comps p) a c (take len buf) S)"
proof (induction fuel arbitrary: S a c off len buf t)
  case 0
  then show ?case by simp
next
  case (Suc fuel)
  show ?case
  proof (cases "b < len")
    case False
    have stop: "chk H (write_steps fuel p (drop len buf) 0 b (off + len)) t' S' Q \<longleftrightarrow> Q () t' S'" for t' S'
      by (cases fuel) simp_all
    have "chk H (rv_eq (Write p (take len buf) off) (int (length (take len buf)))) t S R \<longleftrightarrow>
        R () (Suc t) (grown H t (comps p) a c (take len buf) S)" for R
      using Suc.prems by (intro chk_append [OF assms(1)]) simp_all
    then show ?thesis using False Suc.prems by (simp add: stop calls_simps(2) Let_def)
  next
    case True
    let ?S = "grown H t (comps p) a c (take b buf) S"
    have m: "blocks_for off \<le> blocks_for (off + b)" "blocks_for (off + b) \<le> blocks_for (off + len)"
      using True by (simp_all add: blocks_for_mono)
    have "chk H (rv_eq (Write p (take b buf) off) (int (length (take b buf)))) t S R \<longleftrightarrow> R () (Suc t) ?S" for R
      using Suc.prems True m by (intro chk_append [OF assms(1)]) simp_all
    then have w: "chk H (rv_eq (Write p (take b buf) off) (int b)) t S R \<longleftrightarrow> R () (Suc t) ?S" for R
      using Suc.prems True by simp
    have n: "nodes ?S (comps p) = Some (File (a\<lparr>a_mtime := now (env_at H t)\<rparr>) (c @ take b buf))"
      by (simp add: grown_def)
    have "chk H (write_steps fuel p (drop b buf) (len - b) b (off + b)) (Suc t) ?S Q \<longleftrightarrow>
        Q () (Suc t + calls (len - b) b) (grown H (Suc t + calls (len - b) b - 1) (comps p)
          (a\<lparr>a_mtime := now (env_at H t)\<rparr>) (c @ take b buf) (take (len - b) (drop b buf)) ?S)"
      using Suc.prems True assms(2) m by (intro Suc.IH [OF n]) (simp_all add: grown_def)
    moreover have "take b buf @ take (len - b) (drop b buf) = take len buf"
      using True by (metis less_or_eq_imp_le le_add_diff_inverse take_add)
    ultimately show ?thesis
      using True w Suc.prems(3) by (simp add: Let_def calls_simps(3) [OF assms(2) True] grown_grown [OF refl])
  qed
qed

fun bytes_at :: "node option \<Rightarrow> byte list option" where
  "bytes_at (Some (File a c)) = Some c"
| "bytes_at nd = None"

lemma chk_do_write [step_simps]:
  assumes "canonical p" and "bytes_at (nodes S (comps p)) = Some []" and "0 < len" and "0 < b" and "len \<le> length buf"
    and "len \<le> 4096 * 1019" and "blocks_for len \<le> room S"
  shows "chk H (do_write p buf len b) t S Q \<longleftrightarrow>
    Q () (t + calls len b) (S\<lparr>nodes := (nodes S)(comps p \<mapsto>
        File ((node_attrs (the (nodes S (comps p))))\<lparr>a_mtime := now (env_at H (t + calls len b - 1))\<rparr>) (take len buf)),
      room := room S - blocks_for len\<rparr>)"
proof -
  obtain a where a: "nodes S (comps p) = Some (File a [])"
    using assms(2) by (cases "nodes S (comps p)" rule: bytes_at.cases) auto
  have "chk H (write_steps len p buf len b 0) t S Q \<longleftrightarrow>
      Q () (t + calls len b) (grown H (t + calls len b - 1) (comps p) a [] (take len buf) S)"
    by (rule chk_write_steps [OF assms(1,4) a]) (use assms in \<open>simp_all add: blocks_for_run\<close>)
  then show ?thesis using assms(5) by (simp add: do_write_def grown_def a node_stat_fields blocks_for_run)
qed

lemma chk_read_back [step_simps]:
  assumes "canonical p" and "bytes_at (nodes S (comps p)) \<noteq> None" and "length (the (bytes_at (nodes S (comps p)))) = n"
    and "S_ISREG (a_mode (node_attrs (the (nodes S (comps p)))))"
  shows "chk H (read_back u p n) t S Q \<longleftrightarrow> Q (the (bytes_at (nodes S (comps p)))) (Suc (Suc t)) S"
proof -
  obtain a c where a: "nodes S (comps p) = Some (File a c)"
    using assms(2) by (cases "nodes S (comps p)" rule: bytes_at.cases) auto
  have r: "chk H (Call (Read p (n + 50) 0) k) t' S Q' \<longleftrightarrow> chk H (k (RData (int n) c)) (Suc t') S Q'" for k t' Q'
    using assms(1,3) a by (auto simp: served_def andThen_def t_read_def ret_def hide_data Let_def)
  show ?thesis
    using assms(1,3,4) a
    by (simp add: read_back_def chk_getattr served_lit r t_getattr_def after_ret node_stat_fields del: chk.simps(3))
qed

lemmas run_test = step_simps t_new_def t_new_error_def t_link_def t_unlink_def t_rmdir_def t_del_error_def
  t_remove_def t_getattr_def t_write_def t_truncate_def t_utime_def t_error_def free_word_def root_lit chk_rnd_data

end
