(* ===== verification/GenDisk.thy ===== *)
theory GenDisk
  imports Names
begin

text \<open>
  The images \<open>gen-disk.py\<close> makes: a description lists the files and directories with their
  inode numbers, attributes, blocks and entries; the script lays them out, marks their
  blocks in the map and fills files with letters drawn from a generator seeded by the name
  (a parameter here). An image made of a well-formed description is consistent, and stands
  for the tree the description names.
\<close>

section \<open>Descriptions\<close>

text \<open>One line of the description: a file, or a directory with its entries.\<close>

record item =
  i_num :: nat
  i_name :: string
  i_uid :: u16
  i_gid :: u16
  i_mode :: u32
  i_ctime :: u32
  i_mtime :: u32
  i_size :: u32
  i_blocks :: "nat list"
  i_entries :: "(bool \<times> string \<times> nat) list option"

definition item_inode :: "item \<Rightarrow> fs_inode" where
  "item_inode x = \<lparr>uid = i_uid x, gid = i_gid x, mode = i_mode x, ctime = i_ctime x, mtime = i_mtime x,
     size_i = i_size x, ptrs = map (\<lambda>b. word_of_int (int b)) (i_blocks x) @ replicate (1019 - length (i_blocks x)) 0\<rparr>"

text \<open>The script reuses one entry: behind the end of a name are bytes of the names before it.\<close>

primrec dirents :: "byte list \<Rightarrow> (bool \<times> string \<times> nat) list \<Rightarrow> fs_dirent list" where
  "dirents buf [] = []"
| "dirents buf (e # es) = (case e of (v, nm, n) \<Rightarrow> let b = strcpy_into buf (cstr nm) in
     \<lparr>valid = v, inode = word_of_int (int n), name = b\<rparr> # dirents b es)"

definition dir_block :: "(bool \<times> string \<times> nat) list \<Rightarrow> nat \<Rightarrow> fs_dirent list" where
  "dir_block es k = (let ds = dirents (replicate 28 0) (take 128 (drop (128 * k) es))
     in ds @ drop (length ds) (decode_dirs zero_block))"

definition item_block :: "(string \<Rightarrow> nat \<Rightarrow> byte list) \<Rightarrow> item \<Rightarrow> nat \<Rightarrow> byte list" where
  "item_block fill x k = (case i_entries x of None \<Rightarrow> fill (i_name x) k | Some es \<Rightarrow> encode_dirs (dir_block es k))"

definition cells :: "(string \<Rightarrow> nat \<Rightarrow> byte list) \<Rightarrow> item \<Rightarrow> (nat \<times> byte list) list" where
  "cells fill x = (i_num x, encode_inode (item_inode x))
     # zip (i_blocks x) (map (item_block fill x) [0..<length (i_blocks x)])"

definition numbers :: "item list \<Rightarrow> nat list" where
  "numbers xs = concat (map (\<lambda>x. i_num x # i_blocks x) xs)"

primrec marks :: "nat list \<Rightarrow> byte list \<Rightarrow> byte list" where
  "marks [] m = m"
| "marks (n # ns) m = marks ns (bit_set m n)"

text \<open>A block that two items name is the last one's.\<close>

definition gen_disk :: "(string \<Rightarrow> nat \<Rightarrow> byte list) \<Rightarrow> nat \<Rightarrow> item list \<Rightarrow> disk" where
  "gen_disk fill n xs = \<lparr>nblks = n, blk = (\<lambda>b.
     if b = 0 then encode_super \<lparr>magic = FS_MAGIC, disk_size = word_of_int (int n), pad = replicate 4088 0\<rparr>
     else if b = 1 then marks (0 # 1 # numbers xs) (replicate 4096 0)
     else case map_of (rev (concat (map (cells fill) xs))) b of None \<Rightarrow> zero_block | Some bs \<Rightarrow> bs), history = []\<rparr>"

section \<open>Well-formed descriptions\<close>

definition name_ok :: "string \<Rightarrow> bool" where
  "name_ok nm \<longleftrightarrow> nm \<noteq> [] \<and> length nm \<le> 27 \<and> list_all (\<lambda>c. c \<noteq> CHR ''/'' \<and> c \<noteq> CHR 0x00) nm"

definition child_list :: "(bool \<times> string \<times> nat) list \<Rightarrow> (string \<times> nat) list" where
  "child_list es = map snd (filter fst es)"

definition item_children :: "item \<Rightarrow> (string \<times> nat) list" where
  "item_children x = (case i_entries x of None \<Rightarrow> [] | Some es \<Rightarrow> child_list es)"

definition wf_item :: "item \<Rightarrow> bool" where
  "wf_item x \<longleftrightarrow> length (i_blocks x) \<le> 1019 \<and> (case i_entries x of
     None \<Rightarrow> \<not> S_ISDIR (i_mode x) \<and> 0 \<le> sint (i_size x) \<and> nat (sint (i_size x)) \<le> 4096 * length (i_blocks x)
   | Some es \<Rightarrow> S_ISDIR (i_mode x) \<and> i_size x \<noteq> 0 \<and> i_blocks x \<noteq> [] \<and> length es \<le> 128
       \<and> list_all (\<lambda>e. name_ok (fst (snd e))) es \<and> distinct (map fst (child_list es)))"

text \<open>The script has room for 400 blocks.\<close>

definition wf_items :: "nat \<Rightarrow> item list \<Rightarrow> bool" where
  "wf_items n xs \<longleftrightarrow> 3 \<le> n \<and> n \<le> 400 \<and> list_all wf_item xs
     \<and> distinct (numbers xs) \<and> list_all (\<lambda>b. 2 \<le> b \<and> b < n) (numbers xs)
     \<and> list_ex (\<lambda>x. i_num x = 2 \<and> i_entries x \<noteq> None) xs
     \<and> distinct (map snd (concat (map item_children xs)))
     \<and> list_all (\<lambda>m. m \<noteq> 2 \<and> m \<in> set (map i_num xs)) (map snd (concat (map item_children xs)))"

definition ok_fill :: "(string \<Rightarrow> nat \<Rightarrow> byte list) \<Rightarrow> bool" where
  "ok_fill fill \<longleftrightarrow> (\<forall>nm k. length (fill nm k) = FS_BLOCK_SIZE)"

section \<open>Where things are\<close>

lemma keys_cells: "map fst (cells fill x) = i_num x # i_blocks x"
  by (simp add: cells_def)

lemma keys_all: "map fst (concat (map (cells fill) xs)) = numbers xs"
  by (induction xs) (simp_all add: numbers_def keys_cells)

lemma blk_cell:
  assumes "wf_items n xs" and "x \<in> set xs" and "(b, bs) \<in> set (cells fill x)"
  shows "blk (gen_disk fill n xs) b = bs"
proof -
  have "distinct (map fst (concat (map (cells fill) xs)))" using assms(1) by (simp only: keys_all wf_items_def)
  then have "distinct (map fst (rev (concat (map (cells fill) xs))))" by (simp only: rev_map [symmetric] distinct_rev)
  moreover have m: "(b, bs) \<in> set (concat (map (cells fill) xs))" using assms(2,3) by auto
  then have "(b, bs) \<in> set (rev (concat (map (cells fill) xs)))" by (simp only: set_rev)
  ultimately have "map_of (rev (concat (map (cells fill) xs))) b = Some bs" by (rule map_of_is_SomeI)
  moreover have "b \<in> set (numbers xs)"
    using m keys_all [of fill xs] by (metis fst_conv image_eqI set_map)
  then have "2 \<le> b" using assms(1) by (simp add: wf_items_def list_all_iff)
  ultimately show ?thesis by (simp add: gen_disk_def)
qed

lemma ok_item_inode: "wf_item x \<Longrightarrow> ok_inode (item_inode x)"
  by (simp add: ok_inode_def item_inode_def wf_item_def)

lemma wf_itemD: "wf_items n xs \<Longrightarrow> x \<in> set xs \<Longrightarrow> wf_item x"
  by (simp add: wf_items_def list_all_iff)

lemma inode_at_item:
  assumes "wf_items n xs" and "x \<in> set xs"
  shows "inode_at (gen_disk fill n xs) (i_num x) = item_inode x"
  using blk_cell [OF assms, of "i_num x" "encode_inode (item_inode x)" fill] ok_item_inode [OF wf_itemD [OF assms]]
  by (simp add: inode_at_def cells_def)

lemma blk_item:
  assumes "wf_items n xs" and "x \<in> set xs" and "k < length (i_blocks x)"
  shows "blk (gen_disk fill n xs) (i_blocks x ! k) = item_block fill x k"
  using assms by (intro blk_cell) (auto simp: cells_def set_zip intro!: exI [of _ k])

lemma number_in:
  assumes "wf_items n xs" and "x \<in> set xs"
  shows "b \<in> set (i_num x # i_blocks x) \<Longrightarrow> b \<in> set (numbers xs)"
    and "b \<in> set (i_num x # i_blocks x) \<Longrightarrow> 2 \<le> b \<and> b < n \<and> b < 400"
proof -
  assume "b \<in> set (i_num x # i_blocks x)"
  then show "b \<in> set (numbers xs)" using assms(2) by (auto simp: numbers_def)
  then show "2 \<le> b \<and> b < n \<and> b < 400" using assms(1) by (auto simp: wf_items_def list_all_iff)
qed

lemma ptr_item:
  assumes "wf_items n xs" and "x \<in> set xs" and "k < length (i_blocks x)"
  shows "ptr (item_inode x) k = i_blocks x ! k"
proof -
  have "i_blocks x ! k < 400" using number_in(2) [OF assms(1,2), of "i_blocks x ! k"] assms(3) by simp
  then show ?thesis
    using assms(3) by (simp add: ptr_def item_inode_def nth_append unat_word32 del: of_int_of_nat_eq)
qed

lemma distinct_item:
  assumes "wf_items n xs" and "x \<in> set xs"
  shows "distinct (i_num x # i_blocks x)"
  using assms by (auto simp: wf_items_def numbers_def distinct_concat_iff)

lemma distinct_concat_same:
  "distinct (concat (map f xs)) \<Longrightarrow> x \<in> set xs \<Longrightarrow> y \<in> set xs \<Longrightarrow> b \<in> set (f x) \<Longrightarrow> b \<in> set (f y) \<Longrightarrow> x = y"
  by (induction xs) auto

lemma item_by_number:
  assumes "wf_items n xs" and "x \<in> set xs" and "y \<in> set xs"
    and "b \<in> set (i_num x # i_blocks x)" and "b \<in> set (i_num y # i_blocks y)"
  shows "x = y"
  using assms by (intro distinct_concat_same [of "\<lambda>x. i_num x # i_blocks x" xs]) (simp_all add: wf_items_def numbers_def)

section \<open>The map\<close>

lemma used_marks:
  "list_all (\<lambda>n. n < 8 * length m) ns \<Longrightarrow> used (marks ns m) i \<longleftrightarrow> i \<in> set ns \<or> used m i"
  by (induction ns arbitrary: m) (auto simp: used_bit_set)

lemma length_marks [simp]: "length (marks ns m) = length m"
  by (induction ns arbitrary: m) simp_all

lemma used_gen:
  assumes "wf_items n xs" and "i < 32768"
  shows "used (dmap (gen_disk fill n xs)) i \<longleftrightarrow> i < 2 \<or> i \<in> set (numbers xs)"
proof -
  have "list_all (\<lambda>n. n < 8 * length (replicate 4096 (0 :: byte))) (0 # 1 # numbers xs)"
    using assms(1) by (auto simp: wf_items_def list_all_iff)
  moreover have "\<not> used (replicate 4096 0) i" using assms(2) by (simp add: used_bit)
  ultimately show ?thesis by (simp add: dmap_def gen_disk_def used_marks del: marks.simps) auto
qed

lemma free_gen:
  assumes "wf_items n xs"
  shows "free_set (gen_disk fill n xs) = {3..<32768} - set (numbers xs)"
  using used_gen [OF assms] by (auto simp: free_set_def)

lemma root_item:
  assumes "wf_items n xs"
  obtains x where "x \<in> set xs" and "i_num x = 2" and "i_entries x \<noteq> None"
  using assms by (auto simp: wf_items_def list_ex_iff)

lemma card_free_gen:
  assumes "wf_items n xs"
  shows "card (free_set (gen_disk fill n xs)) = 32766 - length (numbers xs)"
proof -
  have d: "distinct (numbers xs)" and r: "set (numbers xs) \<subseteq> {2..<400}"
    using assms by (auto simp: wf_items_def list_all_iff)
  obtain x where "x \<in> set xs" "i_num x = 2" using root_item [OF assms] .
  then have "2 \<in> set (numbers xs)" using number_in(1) [OF assms, of x 2] by simp
  then have "{3..<32768} - set (numbers xs) = {2..<32768} - set (numbers xs)"
    by (auto simp: le_less_Suc_eq numeral_3_eq_3) (metis Suc_leI le_neq_implies_less numeral_2_eq_2)
  moreover have "set (numbers xs) \<subseteq> {2..<32768}" using r by auto
  then have "card ({2..<32768} - set (numbers xs)) = card {2..<32768 :: nat} - card (set (numbers xs))"
    by (intro card_Diff_subset) simp_all
  ultimately show ?thesis using d by (simp add: free_gen [OF assms] distinct_card)
qed

section \<open>Directories\<close>

lemma cstr_token: "name_ok nm \<Longrightarrow> ok_token (cstr nm) \<and> length (cstr nm) \<le> 27 \<and> 0 \<notin> set (cstr nm)"
proof -
  assume "name_ok nm"
  then have "CHR ''/'' \<notin> set nm" "CHR 0x00 \<notin> set nm" "nm \<noteq> []" "length nm \<le> 27"
    by (auto simp: name_ok_def list_all_iff)
  moreover have "cstr nm = [] \<longleftrightarrow> nm = []" by (simp add: cstr_def)
  ultimately show ?thesis by (simp add: ok_token_def in_cstr_lit)
qed

lemma length_dirents [simp]: "length (dirents buf es) = length es"
  by (induction es arbitrary: buf) (simp_all add: Let_def split: prod.split)

lemma dirents_nth:
  assumes "list_all (\<lambda>e. name_ok (fst (snd e))) es" and "length buf = 28" and "k < length es"
  shows "valid (dirents buf es ! k) = fst (es ! k) \<and> c_string (name (dirents buf es ! k)) = cstr (fst (snd (es ! k)))
    \<and> 0 \<in> set (name (dirents buf es ! k)) \<and> length (name (dirents buf es ! k)) = 28
    \<and> inode (dirents buf es ! k) = word_of_int (int (snd (snd (es ! k))))"
  using assms
proof (induction es arbitrary: buf k)
  case (Cons e es)
  obtain v nm m where e: "e = (v, nm, m)" by (cases e)
  note t = cstr_token [of nm]
  have n: "length (strcpy_into buf (cstr nm)) = 28"
    using Cons.prems t by (simp add: e length_strcpy_into)
  show ?case
  proof (cases k)
    case 0
    then show ?thesis using Cons.prems t n by (simp add: e Let_def) (simp add: strcpy_into_def)
  next
    case (Suc j)
    then show ?thesis using Cons.prems Cons.IH [of "strcpy_into buf (cstr nm)" j] n by (simp add: e Let_def)
  qed
qed simp

lemma dir_block_0:
  assumes "length es \<le> 128" and "list_all (\<lambda>e. name_ok (fst (snd e))) es"
  shows "length (dir_block es 0) = 128"
    and "k < 128 \<Longrightarrow> length (name (dir_block es 0 ! k)) = 28"
    and "k < length es \<Longrightarrow> dir_block es 0 ! k = dirents (replicate 28 0) es ! k"
    and "length es \<le> k \<Longrightarrow> k < 128 \<Longrightarrow> \<not> valid (dir_block es 0 ! k)"
proof -
  show "length (dir_block es 0) = 128" using assms(1) by (simp add: dir_block_def Let_def)
  show first: "k < length es \<Longrightarrow> dir_block es 0 ! k = dirents (replicate 28 0) es ! k"
    using assms(1) by (simp add: dir_block_def Let_def nth_append)
  have rest: "length es \<le> k \<Longrightarrow> k < 128 \<Longrightarrow> dir_block es 0 ! k = decode_dirs zero_block ! k"
    using assms(1) by (simp add: dir_block_def Let_def nth_append)
  show "length es \<le> k \<Longrightarrow> k < 128 \<Longrightarrow> \<not> valid (dir_block es 0 ! k)"
    using rest zero_dirs by simp
  show "k < 128 \<Longrightarrow> length (name (dir_block es 0 ! k)) = 28"
    using first rest dirents_nth [OF assms(2), of "replicate 28 0" k] dir_okD(2) [OF zero_dir_ok, of k]
    by (cases "k < length es") simp_all
qed

lemma child_in_list: "(nm, m) \<in> set (child_list es) \<longleftrightarrow> (\<exists>k<length es. es ! k = (True, nm, m))"
  by (force simp: child_list_def in_set_conv_nth)

lemma child_names_distinct:
  assumes "distinct (map fst (child_list es))" and "j < length es" and "k < length es"
    and "fst (es ! j)" and "fst (es ! k)" and "fst (snd (es ! j)) = fst (snd (es ! k))"
  shows "j = k"
  using assms
proof (induction es arbitrary: j k)
  case (Cons e es)
  have mem: "fst (snd (es ! i)) \<in> set (map fst (child_list es))" if "i < length es" "fst (es ! i)" for i
    using that by (auto simp: child_list_def intro!: image_eqI [of _ _ "es ! i"])
  show ?case
  proof (cases "j = 0 \<or> k = 0")
    case True
    then show ?thesis
      using Cons.prems mem [of "j - 1"] mem [of "k - 1"] by (cases j; cases k) (auto simp: child_list_def)
  next
    case False
    then show ?thesis
      using Cons.prems Cons.IH [of "j - 1" "k - 1"] by (cases j; cases k) (auto simp: child_list_def split: if_splits)
  qed
qed simp

lemma wf_dir:
  assumes "wf_item x" and "i_entries x = Some es"
  shows "length es \<le> 128" and "list_all (\<lambda>e. name_ok (fst (snd e))) es" and "distinct (map fst (child_list es))"
    and "S_ISDIR (i_mode x)" and "i_size x \<noteq> 0" and "i_blocks x \<noteq> []"
  using assms by (simp_all add: wf_item_def)

lemma dir_block_ok:
  assumes "wf_item x" and "i_entries x = Some es"
  shows "dir_ok (dir_block es 0)"
proof (rule dir_okI)
  note w = wf_dir [OF assms] and b = dir_block_0 [OF wf_dir(1,2) [OF assms]]
    and d = dirents_nth [OF wf_dir(2) [OF assms], of "replicate 28 0"]
  show "length (dir_block es 0) = 128" by (rule b(1))
  fix k :: nat assume k: "k < 128"
  then show "length (name (dir_block es 0 ! k)) = 28" by (rule b(2))
  assume v: "valid (dir_block es 0 ! k)"
  then have l: "k < length es" using b(4) [of k] k by (metis not_less)
  then have "name_ok (fst (snd (es ! k)))" using w(2) by (simp add: list_all_length)
  then show "0 \<in> set (name (dir_block es 0 ! k)) \<and> ok_token (c_string (name (dir_block es 0 ! k)))"
    using d [of k] l cstr_token by (simp add: b(3))
  fix j :: nat assume j: "j < 128" "valid (dir_block es 0 ! j)"
    and same: "c_string (name (dir_block es 0 ! j)) = c_string (name (dir_block es 0 ! k))"
  then have m: "j < length es" using b(4) [of j] by (metis not_less)
  then show "j = k"
    using d [of k] d [of j] l v j(2) same by (intro child_names_distinct [OF w(3)]) (simp_all add: b(3))
qed

lemma dir_map_block:
  assumes "wf_item x" and "i_entries x = Some es" and "\<And>nm m. (nm, m) \<in> set (child_list es) \<Longrightarrow> m < 400"
  shows "dir_map (dir_block es 0) t = Some m \<longleftrightarrow> (\<exists>nm. t = cstr nm \<and> (nm, m) \<in> set (child_list es))"
proof -
  note b = dir_block_0 [OF wf_dir(1,2) [OF assms(1,2)]]
    and d = dirents_nth [OF wf_dir(2) [OF assms(1,2)], of "replicate 28 0"]
  have u: "unat (word_of_int (int (snd (snd (es ! k)))) :: 31 word) = snd (snd (es ! k))"
    if "k < length es" "fst (es ! k)" for k
  proof -
    have "es ! k = (True, fst (snd (es ! k)), snd (snd (es ! k)))" using that(2) by (simp add: prod_eq_iff)
    then have "(fst (snd (es ! k)), snd (snd (es ! k))) \<in> set (child_list es)" using that(1) child_in_list by blast
    then have "snd (snd (es ! k)) < 400" by (rule assms(3))
    then show ?thesis by (intro unat_word31) simp
  qed
  have "k < 128 \<and> valid (dir_block es 0 ! k) \<and> c_string (name (dir_block es 0 ! k)) = t
        \<and> unat (inode (dir_block es 0 ! k)) = m \<longleftrightarrow>
      k < length es \<and> fst (es ! k) \<and> cstr (fst (snd (es ! k))) = t \<and> snd (snd (es ! k)) = m" for k
    using b(3) [of k] b(4) [of k] d [of k] u [of k] wf_dir(1) [OF assms(1,2)] by (cases "k < length es") auto
  then have "dir_map (dir_block es 0) t = Some m \<longleftrightarrow>
      (\<exists>k<length es. fst (es ! k) \<and> cstr (fst (snd (es ! k))) = t \<and> snd (snd (es ! k)) = m)"
    unfolding dir_map_iff [OF dir_block_ok [OF assms(1,2)]] b(1) by blast
  then show ?thesis by (auto simp: child_in_list prod_eq_iff)
qed

lemma slots_block:
  assumes "wf_item x" and "i_entries x = Some es"
  shows "map slot_name (dir_block es 0) =
    map (\<lambda>e. if fst e then Some (cstr (fst (snd e))) else None) es @ replicate (128 - length es) None"
proof (rule nth_equalityI)
  note b = dir_block_0 [OF wf_dir(1,2) [OF assms]]
    and d = dirents_nth [OF wf_dir(2) [OF assms], of "replicate 28 0"]
  show "length (map slot_name (dir_block es 0)) = length (map (\<lambda>e. if fst e then Some (cstr (fst (snd e))) else None) es
      @ replicate (128 - length es) None)"
    using b(1) wf_dir(1) [OF assms] by simp
  fix k assume "k < length (map slot_name (dir_block es 0))"
  then show "map slot_name (dir_block es 0) ! k = (map (\<lambda>e. if fst e then Some (cstr (fst (snd e))) else None) es
      @ replicate (128 - length es) None) ! k"
    using b(1) b(3) [of k] b(4) [of k] d [of k] by (cases "k < length es") (simp_all add: slot_name_def nth_append)
qed

section \<open>The image is consistent\<close>

definition live :: "item list \<Rightarrow> nat set" where
  "live xs = i_num ` set xs"

text \<open>The bytes of a file.\<close>

definition item_bytes :: "(string \<Rightarrow> nat \<Rightarrow> byte list) \<Rightarrow> item \<Rightarrow> byte list" where
  "item_bytes fill x = take (nat (sint (i_size x))) (concat (map (fill (i_name x)) [0..<length (i_blocks x)]))"

definition item_attrs :: "item \<Rightarrow> attrs" where
  "item_attrs x = \<lparr>a_uid = i_uid x, a_gid = i_gid x, a_mode = i_mode x, a_ctime = i_ctime x, a_mtime = i_mtime x\<rparr>"

lemma item_fields [simp]:
  "mode (item_inode x) = i_mode x" "size_i (item_inode x) = i_size x" "attrs_of (item_inode x) = item_attrs x"
  "fsize (item_inode x) = nat (sint (i_size x))"
  by (simp_all add: item_inode_def attrs_of_def item_attrs_def fsize_def)

lemma dirs_at_item:
  assumes "wf_items n xs" and "x \<in> set xs" and "i_entries x = Some es"
  shows "dirs_at (gen_disk fill n xs) (item_inode x) = dir_block es 0"
proof -
  note w = wf_itemD [OF assms(1,2)]
  have k: "0 < length (i_blocks x)" using wf_dir(6) [OF w assms(3)] by simp
  have "ok_dirs (dir_block es 0)" using dir_block_ok [OF w assms(3)] by (simp add: dir_ok_def)
  then show ?thesis
    using blk_item [OF assms(1,2) k, of fill] by (simp add: dirs_at_def ptr_item [OF assms(1,2) k] item_block_def assms(3))
qed

lemma wf_file:
  assumes "wf_item x" and "i_entries x = None"
  shows "\<not> S_ISDIR (i_mode x)" and "0 \<le> sint (i_size x)" and "nat (sint (i_size x)) \<le> 4096 * length (i_blocks x)"
    and "length (i_blocks x) \<le> 1019"
  using assms by (simp_all add: wf_item_def)

lemma isdir_item: "wf_item x \<Longrightarrow> S_ISDIR (i_mode x) \<longleftrightarrow> i_entries x \<noteq> None"
  by (auto simp: wf_item_def split: option.splits)

lemma data_blocks_item:
  assumes "wf_items n xs" and "x \<in> set xs"
  obtains m where "data_blocks (item_inode x) = take m (i_blocks x)"
proof -
  note w = wf_itemD [OF assms]
  define m where "m = (if S_ISDIR (i_mode x) then 1 else nblocks (item_inode x))"
  have "m \<le> length (i_blocks x)"
  proof (cases "i_entries x")
    case None
    then show ?thesis using wf_file [OF w None] by (simp add: m_def nblocks_def)
  next
    case (Some es)
    then show ?thesis using wf_dir(4,6) [OF w Some] by (cases "i_blocks x") (simp_all add: m_def)
  qed
  then have "data_blocks (item_inode x) = take m (i_blocks x)"
    using ptr_item [OF assms] by (intro nth_equalityI) (simp_all add: data_blocks_def m_def [symmetric])
  then show thesis by (rule that)
qed

lemma own_item:
  assumes "wf_items n xs" and "x \<in> set xs"
  shows "own (gen_disk fill n xs) (i_num x) \<subseteq> set (i_num x # i_blocks x)"
proof -
  obtain m where "data_blocks (item_inode x) = take m (i_blocks x)" using data_blocks_item [OF assms] .
  then show ?thesis by (auto simp: own_def inode_at_item [OF assms] dest: in_set_takeD)
qed

lemma block_ok_gen:
  assumes "wf_items n xs" and "b \<in> set (numbers xs)"
  shows "block_ok (gen_disk fill n xs) b"
  using assms(2) free_gen [OF assms(1), of fill] assms(1)
  by (auto simp: block_ok_def wf_items_def list_all_iff) (auto simp: gen_disk_def)

lemma node_ok_gen:
  assumes "wf_items n xs" and "x \<in> set xs"
  shows "node_ok (gen_disk fill n xs) (i_num x)"
proof -
  note w = wf_itemD [OF assms] and i = inode_at_item [OF assms]
  obtain m where m: "data_blocks (item_inode x) = take m (i_blocks x)" using data_blocks_item [OF assms] .
  have D: "distinct (i_num x # data_blocks (item_inode x))"
    using distinct_item [OF assms] by (auto simp: m dest: in_set_takeD)
  have B: "\<forall>b\<in>own (gen_disk fill n xs) (i_num x). block_ok (gen_disk fill n xs) b"
    using own_item [OF assms] number_in(1) [OF assms] block_ok_gen [OF assms(1)] by blast
  show ?thesis
  proof (cases "i_entries x")
    case None
    with wf_file [OF w None] show ?thesis
      using D B by (simp add: node_ok_def i)
  next
    case (Some es)
    with wf_dir [OF w Some] dir_block_ok [OF w Some] show ?thesis
      using D B by (simp add: node_ok_def i dirs_at_item [OF assms Some])
  qed
qed

lemma wf_disk_gen:
  assumes "wf_items n xs" and "ok_fill fill"
  shows "mountable (gen_disk fill n xs)"
proof -
  have "length bs = 4096" if "(b, bs) \<in> set (cells fill x)" "x \<in> set xs" for b bs x
  proof -
    note w = wf_itemD [OF assms(1) that(2)]
    have "length (encode_inode (item_inode x)) = 4096" using ok_item_inode [OF w] by simp
    moreover have "length (item_block fill x k) = 4096" for k
    proof (cases "i_entries x")
      case None
      then show ?thesis using assms(2) by (simp add: item_block_def ok_fill_def)
    next
      case (Some es)
      have "list_all (\<lambda>e. name_ok (fst (snd e))) (take 128 (drop (128 * k) es))"
        using wf_dir(2) [OF w Some] by (auto simp: list_all_iff dest: in_set_takeD in_set_dropD)
      with dir_block_0 [of "take 128 (drop (128 * k) es)"]
      have "length (dir_block es k) = 128" "\<And>j. j < 128 \<Longrightarrow> length (name (dir_block es k ! j)) = 28"
        by (simp_all add: dir_block_def)
      then have "ok_dirs (dir_block es k)" by (simp add: ok_dirs_def list_all_length ok_dirent_def)
      then show ?thesis by (simp add: item_block_def Some)
    qed
    ultimately show ?thesis using that(1) by (auto simp: cells_def set_zip)
  qed
  then have "length (blk (gen_disk fill n xs) b) = 4096" for b
    by (auto simp: gen_disk_def ok_super_def split: option.split dest!: map_of_SomeD)
  then have "wf_disk (gen_disk fill n xs)" by (simp add: wf_disk_def)
  moreover obtain x where "x \<in> set xs" "i_num x = 2" using root_item [OF assms(1)] .
  then have "used (dmap (gen_disk fill n xs)) 2"
    using used_gen [OF assms(1), of 2 fill] number_in(1) [OF assms(1), of x 2] by simp
  moreover have "3 \<le> nblks (gen_disk fill n xs)" using assms(1) by (simp add: gen_disk_def wf_items_def)
  ultimately show ?thesis by (simp only: mountable_def simp_thms)
qed

lemma children_gen:
  assumes "wf_items n xs"
  shows "children (absfs (live xs) (gen_disk fill n xs) p) t = Some m \<longleftrightarrow>
    (\<exists>x\<in>set xs. \<exists>nm. i_num x = p \<and> t = cstr nm \<and> (nm, m) \<in> set (item_children x))"
proof (cases "p \<in> live xs")
  case False
  then show ?thesis by (auto simp: live_def)
next
  case True
  then obtain x where x: "x \<in> set xs" "i_num x = p" by (auto simp: live_def)
  have one: "y = x" if "y \<in> set xs" "i_num y = p" for y
    using item_by_number [OF assms that(1) x(1), of p] that x by simp
  note w = wf_itemD [OF assms x(1)]
  have "children (absfs (live xs) (gen_disk fill n xs) p) t = Some m \<longleftrightarrow>
      (\<exists>nm. t = cstr nm \<and> (nm, m) \<in> set (item_children x))"
  proof (cases "i_entries x")
    case None
    then show ?thesis
      using isdir_item [OF w] True inode_at_item [OF assms x(1), of fill] x(2) by (simp add: children_view item_children_def)
  next
    case (Some es)
    have "k < 400" if "(nm, k) \<in> set (child_list es)" for nm k
    proof -
      have "k \<in> set (map snd (concat (map item_children xs)))"
        using that x(1) Some by (auto simp: item_children_def intro!: image_eqI [of _ _ "(nm, k)"] bexI [of _ x])
      then have "k \<in> set (map i_num xs)" using assms unfolding wf_items_def list_all_iff by blast
      then obtain y where "y \<in> set xs" "i_num y = k" by auto
      then show ?thesis using number_in(2) [OF assms, of y k] by simp
    qed
    then show ?thesis
      using isdir_item [OF w] True inode_at_item [OF assms x(1), of fill] x(2) dirs_at_item [OF assms x(1) Some, of fill]
        dir_map_block [OF w Some, of t m]
      by (simp add: children_view item_children_def Some)
  qed
  then show ?thesis using x one by blast
qed

lemma tree_gen:
  assumes "wf_items n xs"
  shows "tree_ok (absfs (live xs) (gen_disk fill n xs))"
proof -
  have d: "distinct (map snd (concat (map item_children xs)))"
    and c: "list_all (\<lambda>m. m \<noteq> 2 \<and> m \<in> set (map i_num xs)) (map snd (concat (map item_children xs)))"
    using assms by (simp_all add: wf_items_def)
  have "m \<noteq> 2 \<and> m \<in> live xs" if "x \<in> set xs" "(nm, m) \<in> set (item_children x)" for x nm m
  proof -
    have "m \<in> set (map snd (concat (map item_children xs)))"
      using that by (auto intro!: image_eqI [of _ _ "(nm, m)"] bexI [of _ x])
    then show ?thesis using c by (auto simp: list_all_iff live_def)
  qed
  moreover have "x = y \<and> nm = nm'"
    if "x \<in> set xs" "(nm, m) \<in> set (item_children x)" "y \<in> set xs" "(nm', m) \<in> set (item_children y)" for x y nm nm' m
  proof -
    have d': "distinct (concat (map (\<lambda>x. map snd (item_children x)) xs))"
      using d by (simp add: map_concat comp_def)
    have "m \<in> set (map snd (item_children x))" "m \<in> set (map snd (item_children y))"
      using that by (auto intro!: image_eqI [of _ _ "(_, m)"])
    then have xy: "x = y" by (rule distinct_concat_same [OF d' that(1,3)])
    have "distinct (map snd (item_children x))" using d' that(1) by (auto simp: distinct_concat_iff)
    then have "inj_on snd (set (item_children x))" by (simp add: distinct_map)
    from inj_onD [OF this, of "(nm, m)" "(nm', m)"] that(2,4) xy show ?thesis by simp
  qed
  moreover obtain r where "r \<in> set xs" "i_num r = 2" "i_entries r \<noteq> None" using root_item [OF assms] .
  then have "is_adir (absfs (live xs) (gen_disk fill n xs) 2)"
    using inode_at_item [OF assms, of r fill] isdir_item [OF wf_itemD [OF assms, of r]]
    by (auto simp: absfs_def is_adir_view live_def intro!: image_eqI [of _ _ r])
  ultimately show ?thesis
    unfolding tree_ok_def children_gen [OF assms] by (auto simp: absfs_def) blast+
qed

lemma gen_disk_consistent:
  assumes "wf_items n xs" and "ok_fill fill"
  shows "consistent (live xs) (gen_disk fill n xs)"
proof -
  have "own (gen_disk fill n xs) (i_num x) \<inter> own (gen_disk fill n xs) (i_num y) = {}"
    if "x \<in> set xs" "y \<in> set xs" "i_num x \<noteq> i_num y" for x y
    using item_by_number [OF assms(1) that(1,2)] own_item [OF assms(1)] that by blast
  then show ?thesis
    using wf_disk_gen [OF assms] node_ok_gen [OF assms(1)] tree_gen [OF assms(1)]
    by (auto simp: consistent_def live_def)
qed

section \<open>The tree it stands for\<close>

definition numbered :: "item list \<Rightarrow> nat \<Rightarrow> item option" where
  "numbered xs n = map_of (map (\<lambda>x. (i_num x, x)) xs) n"

fun lookup_item :: "item list \<Rightarrow> nat \<Rightarrow> string list \<Rightarrow> item option" where
  "lookup_item xs n [] = numbered xs n"
| "lookup_item xs n (s # ss) = (case numbered xs n of None \<Rightarrow> None
     | Some x \<Rightarrow> (case map_of (item_children x) s of None \<Rightarrow> None | Some m \<Rightarrow> lookup_item xs m ss))"

definition item_node :: "(string \<Rightarrow> nat \<Rightarrow> byte list) \<Rightarrow> item \<Rightarrow> node" where
  "item_node fill x = (case i_entries x of
     None \<Rightarrow> File (item_attrs x) (item_bytes fill x)
   | Some es \<Rightarrow> Dir (item_attrs x) (sint (i_size x))
       (map (\<lambda>e. if fst e then Some (cstr (fst (snd e))) else None) es @ replicate (128 - length es) None))"

lemma item_content:
  assumes "wf_items n xs" and "x \<in> set xs" and "i_entries x = None" and "ok_fill fill"
  shows "content (gen_disk fill n xs) (item_inode x) = item_bytes fill x"
proof (rule nth_equalityI)
  let ?d = "gen_disk fill n xs"
  note f = wf_file [OF wf_itemD [OF assms(1,2)] assms(3)]
  have w: "length (fill (i_name x) k) = 4096" for k using assms(4) by (simp add: ok_fill_def)
  have l: "length (concat (map (fill (i_name x)) [0..<m])) = 4096 * m" for m
    using length_concat_map [of "[0..<m]" "fill (i_name x)" 4096] w by simp
  then have "length (item_bytes fill x) = nat (sint (i_size x))" using f(3) by (simp add: item_bytes_def)
  then show "length (content ?d (item_inode x)) = length (item_bytes fill x)" by (simp add: content_def)
  fix i assume "i < length (content ?d (item_inode x))"
  then have i: "i < nat (sint (i_size x))" by (simp add: content_def)
  then have k: "i div 4096 < length (i_blocks x)" using f(3) by (simp add: less_mult_imp_div_less)
  have "slice (concat (map (fill (i_name x)) [0..<length (i_blocks x)])) (4096 * (i div 4096)) 4096 = fill (i_name x) (i div 4096)"
    using slice_concat_map [of "[0..<length (i_blocks x)]" "fill (i_name x)" 4096 "i div 4096"] w k by simp
  moreover have "4096 * (i div 4096) + 4096 \<le> 4096 * length (i_blocks x)" using k by linarith
  ultimately have "fill (i_name x) (i div 4096) ! (i mod 4096) = concat (map (fill (i_name x)) [0..<length (i_blocks x)]) ! i"
    using slice_nth [of "i mod 4096" 4096 "4096 * (i div 4096)" "concat (map (fill (i_name x)) [0..<length (i_blocks x)])"]
      l [of "length (i_blocks x)"] by simp
  then show "content ?d (item_inode x) ! i = item_bytes fill x ! i"
    using i k blk_item [OF assms(1,2) k, of fill]
    by (simp add: content_def fbyte_def item_bytes_def ptr_item [OF assms(1,2) k] item_block_def assms(3))
qed

lemma numbered_iff: "wf_items n xs \<Longrightarrow> numbered xs k = Some x \<longleftrightarrow> x \<in> set xs \<and> i_num x = k"
proof -
  assume w: "wf_items n xs"
  have "distinct (concat (map (\<lambda>x. i_num x # i_blocks x) xs))" using w by (simp add: wf_items_def numbers_def)
  then have "distinct (map i_num xs)" by (induction xs) auto
  then have "distinct (map fst (map (\<lambda>x. (i_num x, x)) xs))" by (simp add: comp_def)
  then show ?thesis by (auto simp: numbered_def dest!: map_of_SomeD)
qed

lemma node_at_item:
  assumes "wf_items n xs" and "x \<in> set xs" and "ok_fill fill"
  shows "node_at (gen_disk fill n xs) (i_num x) = item_node fill x"
proof -
  note w = wf_itemD [OF assms(1,2)] and i = inode_at_item [OF assms(1,2)]
  show ?thesis
  proof (cases "i_entries x")
    case None
    then show ?thesis
      using isdir_item [OF w] item_content [OF assms(1,2) None assms(3)]
      by (simp add: node_at_def view_def i Let_def item_node_def)
  next
    case (Some es)
    then show ?thesis
      using isdir_item [OF w] dirs_at_item [OF assms(1,2) Some, of fill] slots_block [OF w Some]
      by (simp add: node_at_def view_def i Let_def item_node_def slots_def)
  qed
qed

lemma child_of_item:
  assumes "wf_items n xs" and "x \<in> set xs"
  shows "children (absfs (live xs) (gen_disk fill n xs) (i_num x)) (cstr s) = map_of (item_children x) s"
proof -
  note w = wf_itemD [OF assms]
  have one: "y = x" if "y \<in> set xs" "i_num y = i_num x" for y
    using item_by_number [OF assms(1) that(1) assms(2), of "i_num x"] that by simp
  have "distinct (map fst (item_children x))"
    using wf_dir(3) [OF w] by (cases "i_entries x") (simp_all add: item_children_def)
  then have m: "map_of (item_children x) s = Some m \<longleftrightarrow> (s, m) \<in> set (item_children x)" for m
    by (auto dest: map_of_SomeD)
  have "children (absfs (live xs) (gen_disk fill n xs) (i_num x)) (cstr s) = Some m \<longleftrightarrow> map_of (item_children x) s = Some m" for m
    unfolding children_gen [OF assms(1)] m using assms(2) one by auto
  then show ?thesis by (metis not_None_eq)
qed

lemma numbered_None: "numbered xs k = None \<longleftrightarrow> k \<notin> live xs"
  by (simp add: numbered_def map_of_eq_None_iff live_def image_image)

lemma tree_of_gen:
  assumes "wf_items n xs" and "ok_fill fill"
  shows "tree_of (live xs) (gen_disk fill n xs) (map cstr ss) = map_option (item_node fill) (lookup_item xs 2 ss)"
proof -
  let ?A = "absfs (live xs) (gen_disk fill n xs)"
  have "map_option (node_at (gen_disk fill n xs)) (alookup ?A k (map cstr ss)) = map_option (item_node fill) (lookup_item xs k ss)"
    if "k \<in> live xs" for k
    using that
  proof (induction ss arbitrary: k)
    case Nil
    then obtain x where x: "x \<in> set xs" "i_num x = k" by (auto simp: live_def)
    then have "numbered xs k = Some x" using numbered_iff [OF assms(1)] by simp
    then show ?case using node_at_item [OF assms(1) x(1) assms(2)] x(2) by simp
  next
    case (Cons s ss)
    then obtain x where x: "x \<in> set xs" "i_num x = k" by (auto simp: live_def)
    then have n: "numbered xs k = Some x" using numbered_iff [OF assms(1)] by simp
    have c: "children (?A k) (cstr s) = map_of (item_children x) s" using child_of_item [OF assms(1) x(1)] x(2) by simp
    show ?case
    proof (cases "map_of (item_children x) s")
      case None
      then show ?thesis by (simp add: n c)
    next
      case (Some m)
      then have "?A m \<noteq> None" using tree_gen [OF assms(1), of fill] c unfolding tree_ok_def by metis
      then have "m \<in> live xs" by (auto simp: absfs_def split: if_splits)
      then show ?thesis using Cons.IH by (simp add: n c Some)
    qed
  qed
  moreover have "2 \<in> live xs" using root_item [OF assms(1)] by (metis image_eqI live_def)
  ultimately show ?thesis by (simp add: tree_of_def)
qed

lemma fsys_of_gen:
  assumes "wf_items n xs" and "ok_fill fill"
  shows "nodes (fsys_of (live xs) (gen_disk fill n xs)) (map cstr ss) = map_option (item_node fill) (lookup_item xs 2 ss)"
    and "room (fsys_of (live xs) (gen_disk fill n xs)) = 32766 - length (numbers xs)"
    and "super (fsys_of (live xs) (gen_disk fill n xs)) =
      \<lparr>magic = FS_MAGIC, disk_size = word_of_int (int n), pad = replicate 4088 0\<rparr>"
  using tree_of_gen [OF assms] card_free_gen [OF assms(1), of fill]
  by (simp_all add: fsys_of_def) (simp add: gen_disk_def super_codec.dec_enc ok_super_def)

declare lookup_item.simps [simp del]

end
