(* ===== verification/Describe.thy ===== *)
theory Describe
  imports GenDisk
begin

text \<open>
  How \<open>gen-disk.py\<close> reads a description: lines of fields, symbols, and the two kinds of items.
  Where the script raises an exception the result is \<open>None\<close>; so it is for what the script would
  take and no description has: signs before numbers, and a name that is a symbol. The bytes
  of files are letters the random generator draws, seeded by the name; \<open>hash\<close> and the draws are
  parameters.
\<close>

section \<open>Fields and numbers\<close>

definition is_space :: "char \<Rightarrow> bool" where
  "is_space c \<longleftrightarrow> c \<in> {CHR '' '', CHR 0x09, CHR 0x0A, CHR 0x0B, CHR 0x0C, CHR 0x0D}"

text \<open>\<open>line.split()\<close> and \<open>s.split(',')\<close>: \<open>w\<close> is the field read so far.\<close>

fun fields_of :: "string \<Rightarrow> string \<Rightarrow> string list" where
  "fields_of w [] = (if w = [] then [] else [w])"
| "fields_of w (c # cs) = (if is_space c then (if w = [] then fields_of [] cs else w # fields_of [] cs)
     else fields_of (w @ [c]) cs)"

fun split_commas :: "string \<Rightarrow> string \<Rightarrow> string list" where
  "split_commas w [] = [w]"
| "split_commas w (c # cs) = (if c = CHR '','' then w # split_commas [] cs else split_commas (w @ [c]) cs)"

definition digit_value :: "char \<Rightarrow> nat option" where
  "digit_value c = (let n = of_char c in
     if 48 \<le> n \<and> n \<le> 57 then Some (n - 48)
     else if 97 \<le> n \<and> n \<le> 102 then Some (n - 87)
     else if 65 \<le> n \<and> n \<le> 70 then Some (n - 55) else None)"

fun digits_value :: "nat \<Rightarrow> nat \<Rightarrow> string \<Rightarrow> nat option" where
  "digits_value b n [] = Some n"
| "digits_value b n (c # cs) =
     (case digit_value c of None \<Rightarrow> None | Some k \<Rightarrow> if k < b then digits_value b (b * n + k) cs else None)"

definition parse_int :: "nat \<Rightarrow> string \<Rightarrow> nat option" where
  "parse_int b s = (if s = [] then None else digits_value b 0 s)"

text \<open>\<open>int(s, 0)\<close>: the base is in the prefix; in Python 2 a leading zero means octal.\<close>

fun parse_based :: "string \<Rightarrow> nat option" where
  "parse_based (c # d # s) =
     (if c = CHR ''0'' then
        (if d \<in> {CHR ''x'', CHR ''X''} then parse_int 16 s
         else if d \<in> {CHR ''o'', CHR ''O''} then parse_int 8 s
         else if d \<in> {CHR ''b'', CHR ''B''} then parse_int 2 s
         else parse_int 8 (d # s))
      else parse_int 10 (c # d # s))"
| "parse_based s = parse_int 10 s"

section \<open>Items\<close>

text \<open>A field is text, or the value of a symbol.\<close>

datatype field = Word_field string | Int_field nat

definition resolve_field :: "(string \<Rightarrow> nat option) \<Rightarrow> string \<Rightarrow> field option" where
  "resolve_field syms f = (if hd f = CHR ''$'' then map_option Int_field (syms f) else Some (Word_field f))"

fun field_int :: "field \<Rightarrow> nat option" where
  "field_int (Int_field n) = Some n"
| "field_int (Word_field s) = parse_int 10 s"

text \<open>Attributes are put into the inode as they are: text is a type error.\<close>

fun field_value :: "field \<Rightarrow> nat option" where
  "field_value (Int_field n) = Some n"
| "field_value (Word_field s) = None"

fun field_text :: "field \<Rightarrow> string option" where
  "field_text (Word_field s) = Some s"
| "field_text (Int_field n) = None"

fun parse_entry :: "field \<Rightarrow> (bool \<times> string \<times> nat) option" where
  "parse_entry (Word_field s) = (if hd s = CHR ''-'' then Some (False, tl s, 0)
     else (case split_commas [] s of [nm, n] \<Rightarrow> map_option (\<lambda>n. (True, nm, n)) (parse_int 10 n) | _ \<Rightarrow> None))"
| "parse_entry (Int_field n) = None"

fun all_some :: "'a option list \<Rightarrow> 'a list option" where
  "all_some [] = Some []"
| "all_some (x # xs) = (case x of None \<Rightarrow> None | Some y \<Rightarrow> map_option ((#) y) (all_some xs))"

text \<open>The nine fields of a file; a directory has its entries behind them.\<close>

fun parse_item :: "field list \<Rightarrow> (bool \<times> string \<times> nat) list option \<Rightarrow> item option" where
  "parse_item [inum, nm, u, g, m, c, mt, sz, bs] es =
     (case (all_some [field_int inum, field_value u, field_value g, field_value m, field_value c, field_value mt, field_int sz],
        field_text nm, Option.bind (field_text bs) (\<lambda>s. all_some (map (parse_int 10) (split_commas [] s)))) of
       (Some [n, u, g, m, c, mt, sz], Some nm, Some bs) \<Rightarrow>
         Some \<lparr>i_num = n, i_name = nm, i_uid = word_of_nat u, i_gid = word_of_nat g, i_mode = word_of_nat m,
           i_ctime = word_of_nat c, i_mtime = word_of_nat mt, i_size = word_of_nat sz, i_blocks = bs, i_entries = es\<rparr>
     | _ \<Rightarrow> None)"
| "parse_item _ es = None"

definition parse_file :: "field list \<Rightarrow> item option" where
  "parse_file fs = parse_item fs None"

definition parse_dir :: "field list \<Rightarrow> item option" where
  "parse_dir fs = Option.bind (all_some (map parse_entry (drop 9 fs))) (\<lambda>es. parse_item (take 9 fs) (Some es))"

section \<open>Descriptions\<close>

record description =
  syms_of :: "string \<Rightarrow> nat option"
  nblocks_of :: nat
  files_of :: "item list"
  dirs_of :: "item list"

text \<open>One round of the script's loop, on a line without its newline.\<close>

definition read_line :: "string \<Rightarrow> description \<Rightarrow> description option" where
  "read_line line D = (let fields = fields_of [] line in
     if fields = [] \<or> hd line = CHR ''#'' then Some D
     else if hd line = CHR ''$'' then
       (case fields of s # v # _ \<Rightarrow> map_option (\<lambda>n. D\<lparr>syms_of := (syms_of D)(s \<mapsto> n)\<rparr>) (parse_based v) | _ \<Rightarrow> None)
     else if hd fields = ''size'' then
       (case fields of _ # v # _ \<Rightarrow> map_option (\<lambda>n. D\<lparr>nblocks_of := n\<rparr>) (parse_int 10 v) | _ \<Rightarrow> None)
     else (case all_some (map (resolve_field (syms_of D)) fields) of
         None \<Rightarrow> None
       | Some fs \<Rightarrow>
           if hd fs = Word_field ''file'' then map_option (\<lambda>x. D\<lparr>files_of := files_of D @ [x]\<rparr>) (parse_file (tl fs))
           else if hd fs = Word_field ''dir'' then map_option (\<lambda>x. D\<lparr>dirs_of := dirs_of D @ [x]\<rparr>) (parse_dir (tl fs))
           else Some D))"

fun read_lines :: "string list \<Rightarrow> description \<Rightarrow> description option" where
  "read_lines [] D = Some D"
| "read_lines (l # ls) D = (case read_line l D of None \<Rightarrow> None | Some D' \<Rightarrow> read_lines ls D')"

definition describe :: "string list \<Rightarrow> (nat \<times> item list) option" where
  "describe ls = map_option (\<lambda>D. (nblocks_of D, files_of D @ dirs_of D))
     (read_lines ls \<lparr>syms_of = Map.empty, nblocks_of = 0, files_of = [], dirs_of = []\<rparr>)"

text \<open>
  The image of a description, and the bytes of its files. \<open>gen_disk\<close> is what the script writes for
  well-formed items; for others it may stop (a block number from 400 on, more than 1019 blocks).
\<close>

definition generated :: "(string \<Rightarrow> nat \<Rightarrow> byte list) \<Rightarrow> string list \<Rightarrow> disk option" where
  "generated fill ls = map_option (\<lambda>(n, xs). gen_disk fill n xs) (describe ls)"

definition letters :: string where
  "letters = ''abcdefghijklmnopqrstuvwxyzABCDEFGHIJKLMNOPQRSTUVWXYZ''"

definition letter_block :: "(string \<Rightarrow> nat) \<Rightarrow> (nat \<Rightarrow> nat \<Rightarrow> nat) \<Rightarrow> string \<Rightarrow> nat \<Rightarrow> byte list" where
  "letter_block hash draw nm k = map (\<lambda>i. word_of_nat (of_char (letters ! draw (hash nm + k) i))) [0..<4096]"

lemma letter_block_ok: "ok_fill (letter_block hash draw)"
  by (simp add: ok_fill_def letter_block_def)

lemma read_comment [simp]: "read_line (CHR ''#'' # cs) D = Some D"
  by (simp add: read_line_def)

lemma read_empty [simp]: "read_line [] D = Some D"
  by (simp add: read_line_def)

lemmas parse_rules = read_line_def is_space_def parse_int_def digit_value_def resolve_field_def parse_file_def parse_dir_def

end
