(* ===== verification/Disk1.thy ===== *)
theory Disk1
  imports Step Describe
begin

text \<open>
  The image \<open>gen-disk.py\<close> makes of \<open>disk1.in\<close>, which the tests of \<open>test1.c\<close> run on: ten files
  in five directories. The bytes of the files are a parameter.
\<close>

section \<open>The description\<close>

text \<open>The symbols of the file, its two kinds of lines, and the lines.\<close>

abbreviation (input) t1 :: u32 where "t1 \<equiv> 1565283152"
abbreviation (input) t2 :: u32 where "t2 \<equiv> 1565283167"
abbreviation (input) d_rwx :: u32 where "d_rwx \<equiv> 0x41FF"
abbreviation (input) f_rwx :: u32 where "f_rwx \<equiv> 0x81FF"
abbreviation (input) f_rw :: u32 where "f_rw \<equiv> 0x81B6"

definition dir_line :: "nat \<Rightarrow> string \<Rightarrow> u16 \<Rightarrow> u16 \<Rightarrow> u32 \<Rightarrow> u32 \<Rightarrow> u32 \<Rightarrow> u32 \<Rightarrow> nat list \<Rightarrow> (bool \<times> string \<times> nat) list \<Rightarrow> item" where
  "dir_line inum nm u g m c mt sz bs es = \<lparr>i_num = inum, i_name = nm, i_uid = u, i_gid = g, i_mode = m, i_ctime = c,
     i_mtime = mt, i_size = sz, i_blocks = bs, i_entries = Some es\<rparr>"

definition file_line :: "nat \<Rightarrow> string \<Rightarrow> u16 \<Rightarrow> u16 \<Rightarrow> u32 \<Rightarrow> u32 \<Rightarrow> u32 \<Rightarrow> u32 \<Rightarrow> nat list \<Rightarrow> item" where
  "file_line inum nm u g m c mt sz bs = \<lparr>i_num = inum, i_name = nm, i_uid = u, i_gid = g, i_mode = m, i_ctime = c,
     i_mtime = mt, i_size = sz, i_blocks = bs, i_entries = None\<rparr>"

definition item_2 :: item where
  "item_2 = dir_line 2 ''/'' 0 0 d_rwx t1 t2 4096 [399]
     [(False, ''nothing'', 0), (False, ''nothing'', 0), (True, ''file.1k'', 389), (True, ''file.10'', 268),
      (True, ''dir-with-long-name'', 253), (True, ''dir2'', 213), (True, ''dir3'', 238), (True, ''file.8k+'', 59)]"

definition item_389 :: item where
  "item_389 = file_line 389 ''/file.1k'' 500 500 f_rw t1 t1 1000 [365]"

definition item_268 :: item where
  "item_268 = file_line 268 ''/file.10'' 500 500 f_rw t1 t2 10 [122]"

definition item_59 :: item where
  "item_59 = file_line 59 ''/file.8k+'' 500 500 f_rw t1 t2 8195 [65, 363, 326]"

definition item_253 :: item where
  "item_253 = dir_line 253 ''/dir-with-long-name'' 0 0 d_rwx t1 t2 4096 [29]
     [(True, ''file.12k+'', 327), (False, ''nothing'', 0), (False, ''nothing'', 0)]"

definition item_327 :: item where
  "item_327 = file_line 327 ''/dir-with-long-name/file.12k+'' 0 500 f_rw t1 t2 12289 [233, 116, 311, 109]"

definition item_213 :: item where
  "item_213 = dir_line 213 ''/dir2'' 500 500 d_rwx t1 t2 8192 [270, 244]
     [(True, ''twenty-seven-byte-file-name'', 55), (True, ''file.4k+'', 139)]"

definition item_55 :: item where
  "item_55 = file_line 55 ''/dir2/twenty-seven-byte-file-name'' 500 500 f_rw t1 t2 1000 [189]"

definition item_139 :: item where
  "item_139 = file_line 139 ''/dir2/file.4k+'' 500 500 f_rwx t1 t2 4098 [295, 229]"

definition item_238 :: item where
  "item_238 = dir_line 238 ''/dir3'' 0 500 d_rwx t1 t2 4096 [136]
     [(True, ''subdir'', 338), (True, ''file.12k-'', 146)]"

definition item_146 :: item where
  "item_146 = file_line 146 ''/dir3/file.12k-'' 0 500 f_rwx t1 t2 12287 [22, 85, 266, 26]"

definition item_338 :: item where
  "item_338 = dir_line 338 ''/dir3/subdir'' 0 500 d_rwx t1 t2 4096 [339]
     [(True, ''file.4k-'', 188), (True, ''file.8k-'', 21), (True, ''file.12k'', 71)]"

definition item_188 :: item where
  "item_188 = file_line 188 ''/dir3/subdir/file.4k-'' 500 500 f_rw t1 t2 4095 [51]"

definition item_21 :: item where
  "item_21 = file_line 21 ''/dir3/subdir/file.8k-'' 500 500 f_rw t1 t2 8190 [102, 297]"

definition item_71 :: item where
  "item_71 = file_line 71 ''/dir3/subdir/file.12k'' 500 500 f_rw t1 t2 12288 [332, 151, 283]"

definition disk1_items :: "item list" where
  "disk1_items = [item_389, item_268, item_59, item_327, item_55, item_139, item_146, item_188, item_21, item_71,
     item_2, item_253, item_213, item_238, item_338]"

definition disk1_image :: "(string \<Rightarrow> nat \<Rightarrow> byte list) \<Rightarrow> disk" where
  "disk1_image fill = gen_disk fill 400 disk1_items"

lemmas disk1_defs = disk1_items_def dir_line_def file_line_def item_2_def item_389_def item_268_def item_59_def item_253_def item_327_def item_213_def
  item_55_def item_139_def item_238_def item_146_def item_338_def item_188_def item_21_def item_71_def

text \<open>
  The lines of \<open>disk1.in\<close>: the script reads the items from them, files first.
\<close>

definition disk1_in :: "string list" where
  "disk1_in = [
    ''# if line[0] = '$', then variable assignment dict[sym] = int(val,0)'',
    ''#'',
    ''$t1 1565283152'',
    ''$t2 1565283167'',
    ''$root 0'',
    ''$user 500'',
    ''$d_rwx  040777'',
    ''$f_rwx 0100777'',
    ''$f_rw  0100666'',
    ''$f_urw 0100600'',
    '''',
    ''size 400'',
    '''',
    ''# / 4096 '',
    ''# /file.1k 1000'',
    ''# /file.10 10'',
    ''# /dir-with-long-name'',
    ''# /dir2 8192'',
    ''# /dir3/subdir'',
    ''# /dir2/twenty-seven-byte-file-name 1000'',
    ''# /dir3/subdir/file.4k- 4095'',
    ''# /dir2/file.4k+ 4098'',
    ''# /dir3/subdir/file.8k- 8190'',
    ''# /file.8k+ 8195'',
    ''# /dir3/file.12k- 12287'',
    ''# /dir3/subdir/file.12k 12288'',
    ''# /dir-with-long-name/file.12k+ 12289'',
    '''',
    ''# type inode name uid gid mode ctime mtime size blocks [entries]'',
    '''',
    ''dir 2 / $root $root $d_rwx $t1 $t2 4096 399 -nothing -nothing file.1k,389 file.10,268 dir-with-long-name,253 dir2,213 dir3,238 file.8k+,59'',
    '''',
    ''file 389 /file.1k $user $user $f_rw $t1 $t1 1000 365'',
    ''file 268 /file.10 $user $user $f_rw $t1 $t2 10 122'',
    ''file 59 /file.8k+ $user $user $f_rw $t1 $t2 8195 65,363,326'',
    '''',
    ''dir 253 /dir-with-long-name $root $root $d_rwx $t1 $t2 4096 29 file.12k+,327 -nothing -nothing'',
    ''file 327 /dir-with-long-name/file.12k+ $root $user $f_rw $t1 $t2 12289 233,116,311,109'',
    ''dir 213 /dir2 $user $user $d_rwx $t1 $t2 8192 270,244 twenty-seven-byte-file-name,55 file.4k+,139'',
    ''file 55 /dir2/twenty-seven-byte-file-name $user $user $f_rw $t1 $t2 1000 189'',
    ''file 139 /dir2/file.4k+ $user $user $f_rwx $t1 $t2 4098 295,229'',
    ''dir 238 /dir3 $root $user $d_rwx $t1 $t2 4096 136 subdir,338 file.12k-,146'',
    ''file 146 /dir3/file.12k- $root $user $f_rwx $t1 $t2 12287 22,85,266,26'',
    ''dir 338 /dir3/subdir $root $user $d_rwx $t1 $t2 4096 339 file.4k-,188 file.8k-,21 file.12k,71'',
    ''file 188 /dir3/subdir/file.4k- $user $user $f_rw $t1 $t2 4095 51'',
    ''file 21 /dir3/subdir/file.8k- $user $user $f_rw $t1 $t2 8190 102,297'',
    ''file 71 /dir3/subdir/file.12k $user $user $f_rw $t1 $t2 12288 332,151,283'',
    '''',
    ''# CRCs (using zlib.crc32(bytes) & 0xffffffff) and lengths should be:'',
    ''#'',
    ''# 1786485602 1000 /file.1k'',
    ''# 855202508 10 /file.10'',
    ''# 4101348955 12289 /dir-with-long-name/file.12k+'',
    ''# 2575367502 1000 /dir2/twenty-seven-byte-file-name'',
    ''# 799580753 4098 /dir2/file.4k+'',
    ''# 2954788945 12287 /dir3/file.12k-'',
    ''# 2112223143 8195 /file.8k+'']"

lemma disk1_described: "describe disk1_in = Some (400, disk1_items)"
  by (simp add: describe_def disk1_in_def disk1_defs parse_rules)

lemma disk1_generated [simp]: "generated fill disk1_in = Some (disk1_image fill)"
  by (simp add: generated_def disk1_described disk1_image_def)

section \<open>It is well formed\<close>

lemma disk1_wf_items: "list_all wf_item disk1_items"
  by (simp add: disk1_defs wf_item_def child_list_def name_ok_def S_ISDIR_def)

lemma disk1_numbers: "distinct (numbers disk1_items)" "list_all (\<lambda>b. 2 \<le> b \<and> b < 400) (numbers disk1_items)"
  "length (numbers disk1_items) = 43"
  by (simp_all add: disk1_defs numbers_def)

lemma disk1_wf: "wf_items 400 disk1_items"
  using disk1_wf_items disk1_numbers
  by (simp add: wf_items_def) (simp add: disk1_defs item_children_def child_list_def)

text \<open>The attributes of the items.\<close>

lemma disk1_fields [simp]:
  "i_uid item_2 = 0" "i_gid item_2 = 0" "i_mode item_2 = d_rwx" "i_size item_2 = 4096"
  "i_entries item_2 \<noteq> None" "item_2 \<in> set disk1_items"
  "i_uid item_389 = 500" "i_gid item_389 = 500" "i_mode item_389 = f_rw" "i_size item_389 = 1000"
  "i_entries item_389 = None" "item_389 \<in> set disk1_items"
  "i_uid item_268 = 500" "i_gid item_268 = 500" "i_mode item_268 = f_rw" "i_size item_268 = 10"
  "i_entries item_268 = None" "item_268 \<in> set disk1_items"
  "i_uid item_59 = 500" "i_gid item_59 = 500" "i_mode item_59 = f_rw" "i_size item_59 = 8195"
  "i_entries item_59 = None" "item_59 \<in> set disk1_items"
  "i_uid item_253 = 0" "i_gid item_253 = 0" "i_mode item_253 = d_rwx" "i_size item_253 = 4096"
  "i_entries item_253 \<noteq> None" "item_253 \<in> set disk1_items"
  "i_uid item_327 = 0" "i_gid item_327 = 500" "i_mode item_327 = f_rw" "i_size item_327 = 12289"
  "i_entries item_327 = None" "item_327 \<in> set disk1_items"
  "i_uid item_213 = 500" "i_gid item_213 = 500" "i_mode item_213 = d_rwx" "i_size item_213 = 8192"
  "i_entries item_213 \<noteq> None" "item_213 \<in> set disk1_items"
  "i_uid item_55 = 500" "i_gid item_55 = 500" "i_mode item_55 = f_rw" "i_size item_55 = 1000"
  "i_entries item_55 = None" "item_55 \<in> set disk1_items"
  "i_uid item_139 = 500" "i_gid item_139 = 500" "i_mode item_139 = f_rwx" "i_size item_139 = 4098"
  "i_entries item_139 = None" "item_139 \<in> set disk1_items"
  "i_uid item_238 = 0" "i_gid item_238 = 500" "i_mode item_238 = d_rwx" "i_size item_238 = 4096"
  "i_entries item_238 \<noteq> None" "item_238 \<in> set disk1_items"
  "i_uid item_146 = 0" "i_gid item_146 = 500" "i_mode item_146 = f_rwx" "i_size item_146 = 12287"
  "i_entries item_146 = None" "item_146 \<in> set disk1_items"
  "i_uid item_338 = 0" "i_gid item_338 = 500" "i_mode item_338 = d_rwx" "i_size item_338 = 4096"
  "i_entries item_338 \<noteq> None" "item_338 \<in> set disk1_items"
  "i_uid item_188 = 500" "i_gid item_188 = 500" "i_mode item_188 = f_rw" "i_size item_188 = 4095"
  "i_entries item_188 = None" "item_188 \<in> set disk1_items"
  "i_uid item_21 = 500" "i_gid item_21 = 500" "i_mode item_21 = f_rw" "i_size item_21 = 8190"
  "i_entries item_21 = None" "item_21 \<in> set disk1_items"
  "i_uid item_71 = 500" "i_gid item_71 = 500" "i_mode item_71 = f_rw" "i_size item_71 = 12288"
  "i_entries item_71 = None" "item_71 \<in> set disk1_items"
  by (simp_all add: disk1_defs)

end
