(* ===== verification/Test1.thy ===== *)
theory Test1
  imports Test2
begin

text \<open>
  The unit tests of \<open>test1.c\<close>, function by function, as programs over the operations vector.
  They run one after the other on the image \<open>main\<close> opens. \<open>crc32\<close> of zlib is a parameter;
  what \<open>malloc\<close> returns is memory with any contents.
\<close>

section \<open>Tables\<close>

record path_list =
  pl_path :: string
  pl_uid :: int
  pl_gid :: int
  pl_mode :: int
  pl_size :: int
  pl_ctime :: int
  pl_mtime :: int

definition row :: "string \<Rightarrow> int \<Rightarrow> int \<Rightarrow> int \<Rightarrow> int \<Rightarrow> int \<Rightarrow> int \<Rightarrow> path_list" where
  "row p u g m sz ct mt = \<lparr>pl_path = p, pl_uid = u, pl_gid = g, pl_mode = m, pl_size = sz, pl_ctime = ct, pl_mtime = mt\<rparr>"

definition paths :: "path_list list" where
  "paths = [
     row ''/'' 0 0 0x41FF 4096 1565283152 1565283167,
     row ''/file.1k'' 500 500 0x81B6 1000 1565283152 1565283152,
     row ''/file.10'' 500 500 0x81B6 10 1565283152 1565283167,
     row ''/dir-with-long-name'' 0 0 0x41FF 4096 1565283152 1565283167,
     row ''/dir-with-long-name/file.12k+'' 0 500 0x81B6 12289 1565283152 1565283167,
     row ''/dir2'' 500 500 0x41FF 8192 1565283152 1565283167,
     row ''/dir2/twenty-seven-byte-file-name'' 500 500 0x81B6 1000 1565283152 1565283167,
     row ''/dir2/file.4k+'' 500 500 0x81FF 4098 1565283152 1565283167,
     row ''/dir3'' 0 500 0x41FF 4096 1565283152 1565283167,
     row ''/dir3/subdir'' 0 500 0x41FF 4096 1565283152 1565283167,
     row ''/dir3/subdir/file.4k-'' 500 500 0x81B6 4095 1565283152 1565283167,
     row ''/dir3/subdir/file.8k-'' 500 500 0x81B6 8190 1565283152 1565283167,
     row ''/dir3/subdir/file.12k'' 500 500 0x81B6 12288 1565283152 1565283167,
     row ''/dir3/file.12k-'' 0 500 0x81FF 12287 1565283152 1565283167,
     row ''/file.8k+'' 500 500 0x81B6 8195 1565283152 1565283167]"

definition dirs_table :: "(string \<times> string list) list" where
  "dirs_table = [
     (''/'', [''dir2'', ''dir3'', ''dir-with-long-name'', ''file.10'', ''file.1k'', ''file.8k+'']),
     (''/dir-with-long-name'', [''file.12k+'']),
     (''/dir2'', [''file.4k+'', ''twenty-seven-byte-file-name'']),
     (''/dir3'', [''file.12k-'', ''subdir'']),
     (''/dir3/subdir'', [''file.12k'', ''file.4k-'', ''file.8k-''])]"

definition cksums :: "(u32 \<times> nat \<times> string) list" where
  "cksums = [
     (1786485602, 1000, ''/file.1k''),
     (855202508, 10, ''/file.10''),
     (4101348955, 12289, ''/dir-with-long-name/file.12k+''),
     (2575367502, 1000, ''/dir2/twenty-seven-byte-file-name''),
     (799580753, 4098, ''/dir2/file.4k+''),
     (4220582896, 4095, ''/dir3/subdir/file.4k-''),
     (4090922556, 8190, ''/dir3/subdir/file.8k-''),
     (3243963207, 12288, ''/dir3/subdir/file.12k''),
     (2954788945, 12287, ''/dir3/file.12k-''),
     (2112223143, 8195, ''/file.8k+'')]"

definition bad1 :: "(string \<times> int) list" where
  "bad1 = [(''/not-a-file'', ENOENT), (''/dir1/not-a-file'', ENOENT), (''/not-a-dir/file.0'', ENOENT),
     (''/file.8k+/file.0'', ENOTDIR), (''/dir2/file.4k+/testing'', ENOTDIR),
     (''/dir2/thisisaverylongnamelongerthan27chars'', ENOENT)]"

definition bad_6 :: "(string \<times> int) list" where
  "bad_6 = [(''/not-a-file'', ENOENT), (''/dir2'', EISDIR), (''/not-a-dir/file.12k+'', ENOENT),
     (''/file.8k+/file.8k+'', ENOTDIR)]"

definition bad_7 :: "(string \<times> int) list" where
  "bad_7 = [(''/not-a-dir'', ENOENT), (''/file.8k+'', ENOTDIR), (''/not-a-dir/file.0'', ENOENT),
     (''/dir2/file.4k+'', ENOTDIR)]"

definition err1 :: "(string \<times> string \<times> int) list" where
  "err1 = [(''/not-a-file'', ''/oooo'', ENOENT), (''/dir1/file.tmp'', ''/oooo'', ENOENT),
     (''/file.1k'', ''/file.1k'', EEXIST), (''/dir2/file.4k'', ''/dir3/somefile'', EINVAL)]"

definition renames :: "(string \<times> string \<times> int) list" where
  "renames = [(''/file.1k'', ''/file.tmp'', 0), (''/file.tmp'', ''/file.1k'', 0),
     (''/dir2/file.4k+'', ''/dir2/file.tmp'', 0), (''/dir2/file.tmp'', ''/dir2/file.4k+'', 0)]"

abbreviation (input) O666 :: u32 where "O666 \<equiv> 0x1B6"

definition chmods :: "(string \<times> u32 \<times> int) list" where
  "chmods = [(''/file.1k'', O777, ENOENT), (''/file.1k'', O666, ENOENT),
     (''/dir2/file.4k+'', O777, ENOENT), (''/dir2/file.4k+'', O666, ENOENT)]"

definition err2 :: "(string \<times> u32 \<times> int) list" where
  "err2 = [(''/not-a-file'', O777, ENOENT), (''/not-a-dir/not-a-file'', O777, ENOENT)]"

section \<open>The tests\<close>

text \<open>The uninitialised variables of a test, and the memory \<open>malloc(n)\<close> returns.\<close>

record locals1 =
  vars :: locals
  heap :: "nat \<Rightarrow> byte list"

definition init_fs :: "unit prog" where
  "init_fs = Open (cstr ''test.img'') (Call Init (\<lambda>x. Return ()))"

definition getattr :: "locals1 \<Rightarrow> unit prog" where
  "getattr u = each paths (\<lambda>p. stat_ok (vars u) (pl_path p) (\<lambda>sb. steps [
     ck_assert (uint (st_uid sb) = pl_uid p),
     ck_assert (uint (st_gid sb) = pl_gid p),
     ck_assert (uint (st_mode sb) = pl_mode p),
     ck_assert (st_size sb = pl_size p)]))"

text \<open>\<open>contents[10]\<close>; the filler strikes out the name it gets, or aborts the test.\<close>

definition contents_10 :: "string list \<Rightarrow> cstring option list" where
  "contents_10 nms = map (\<lambda>s. Some (cstr s)) nms @ replicate (10 - length nms) None"

definition test_2_filler :: "cstring option list \<Rightarrow> cstring \<Rightarrow> cstring option list option" where
  "test_2_filler xs nm =
     (let i = scan (\<lambda>x. x = Some nm) xs in if i < length xs then Some (xs[i := None]) else None)"

primrec strike_all :: "cstring option list \<Rightarrow> cstring list \<Rightarrow> cstring option list option" where
  "strike_all xs [] = Some xs"
| "strike_all xs (nm # nms) = (case test_2_filler xs nm of None \<Rightarrow> None | Some ys \<Rightarrow> strike_all ys nms)"

definition readdir :: "locals1 \<Rightarrow> unit prog" where
  "readdir u = each dirs_table (\<lambda>(path, nms). Call (Readdir (cstr path)) (\<lambda>x.
     case strike_all (contents_10 nms) (names_of x) of
       None \<Rightarrow> Stuck Check_failed
     | Some d \<Rightarrow> steps [
         ck_assert (code x \<ge> 0),
         each [0..<10] (\<lambda>j. ck_assert (d ! j = None))]))"

text \<open>What a call of \<open>read\<close> leaves in a buffer.\<close>

definition put_bytes :: "byte list \<Rightarrow> nat \<Rightarrow> byte list \<Rightarrow> byte list" where
  "put_bytes buf off bs = take off buf @ bs @ drop (off + length bs) buf"

definition seventeen :: "byte list" where
  "seventeen = replicate 256 17"

definition read_big :: "(byte list \<Rightarrow> u32) \<Rightarrow> locals1 \<Rightarrow> unit prog" where
  "read_big crc32 u = each cksums (\<lambda>(cksum, size, path).
     let buflen = size + 256; buf = take size (heap u buflen) @ seventeen in
     Call (Read (cstr path) buflen 0) (\<lambda>x.
       let len = code x; buf = put_bytes buf 0 (bytes_of x) in steps [
         ck_assert (len \<ge> 0),
         ck_assert (len = int size),
         ck_assert (crc32 (take (nat len) buf) = cksum),
         ck_assert (same_bytes 256 (drop size buf) seventeen)]))"

text \<open>
  The loop of \<open>read_n_at_a_time\<close>, with a bound on its rounds; the pointer into the buffer
  advances with the offset.
\<close>

primrec read_n :: "nat \<Rightarrow> cstring \<Rightarrow> byte list \<Rightarrow> nat \<Rightarrow> nat \<Rightarrow> nat \<Rightarrow> byte list prog" where
  "read_n 0 path buf chunk len offset = Stuck Endless"
| "read_n (Suc fuel) path buf chunk len offset = Call (Read path chunk offset) (\<lambda>x.
     let n = code x in
     if length buf < offset + length (bytes_of x) then Stuck Out_of_bounds
     else if n = 0 then Return (put_bytes buf offset (bytes_of x))
     else bind (ck_assert (if n < int chunk then int offset + n = int len else n = int chunk)) (\<lambda>_.
       read_n fuel path (put_bytes buf offset (bytes_of x)) chunk len (nat (int offset + n))))"

definition read_n_at_a_time :: "cstring \<Rightarrow> byte list \<Rightarrow> nat \<Rightarrow> nat \<Rightarrow> byte list prog" where
  "read_n_at_a_time path buf chunk len = read_n (len + 2) path buf chunk len 0"

definition read_little :: "(byte list \<Rightarrow> u32) \<Rightarrow> locals1 \<Rightarrow> unit prog" where
  "read_little crc32 u = each [17, 128, 511, 1020, 1024, 2050] (\<lambda>chunk. each cksums (\<lambda>(cksum, len, path).
     bind (read_n_at_a_time (cstr path) (take len (heap u (len + 256)) @ seventeen) chunk len) (\<lambda>buf. steps [
       ck_assert (crc32 (take len buf) = cksum),
       ck_assert (same_bytes 256 (drop len buf) seventeen)])))"

definition path_errs :: "locals1 \<Rightarrow> unit prog" where
  "path_errs u = each bad1 (\<lambda>(path, err). rv_eq (Getattr (cstr path) (sb_0 (vars u))) (- err))"

definition read_badpath :: "locals1 \<Rightarrow> unit prog" where
  "read_badpath u = each bad_6 (\<lambda>(path, err). rv_eq (Read (cstr path) 100 0) (- err))"

text \<open>\<open>test_7_filler\<close> aborts the test when it is called.\<close>

definition test_7_filler :: "cstring \<Rightarrow> unit prog" where
  "test_7_filler nm = Stuck Check_failed"

definition readdir_badpath :: "locals1 \<Rightarrow> unit prog" where
  "readdir_badpath u = each bad_7 (\<lambda>(path, err). Call (Readdir (cstr path)) (\<lambda>x.
     bind (each (names_of x) test_7_filler) (\<lambda>_. ck_assert (code x = - err))))"

definition test_statvfs :: "locals1 \<Rightarrow> unit prog" where
  "test_statvfs u = Call (Statfs (cstr ''/'') (sv_0 (vars u))) (\<lambda>x. let sv = statvfs_of (sv_0 (vars u)) x in steps [
     ck_assert (code x = 0),
     ck_assert (sint (f_bsize sv) = 4096),
     ck_assert (sint (f_blocks sv) \<ge> 398),
     ck_assert (sint (f_blocks sv) \<le> 400),
     ck_assert (sint (f_bfree sv) = 355),
     ck_assert (sint (f_namemax sv) = 27)])"

definition test_bad_rename :: "locals1 \<Rightarrow> unit prog" where
  "test_bad_rename u = each err1 (\<lambda>(src, dst, err). rv_eq (Rename (cstr src) (cstr dst)) (- err))"

definition test_rename :: "locals1 \<Rightarrow> unit prog" where
  "test_rename u = each renames (\<lambda>(src, dst, err). steps [
     rv_eq (Rename (cstr src) (cstr dst)) err,
     rv_eq (Getattr (cstr dst) (sb_0 (vars u))) 0,
     rv_lt (Getattr (cstr src) (sb_0 (vars u))) 0])"

abbreviation (input) S_IFMT :: u32 where "S_IFMT \<equiv> 0xF000"

definition test_chmod :: "locals1 \<Rightarrow> unit prog" where
  "test_chmod u = each chmods (\<lambda>(path, md, err). stat_ok (vars u) path (\<lambda>sb. let old_mode = st_mode sb in
     bind (rv_eq (Chmod (cstr path) md) 0) (\<lambda>_. stat_ok (vars u) path (\<lambda>sb. steps [
       ck_assert (st_mode sb AND O777 = md AND O777),
       ck_assert (st_mode sb AND S_IFMT = old_mode AND S_IFMT)]))))"

definition test_bad_chmod :: "locals1 \<Rightarrow> unit prog" where
  "test_bad_chmod u = each err2 (\<lambda>(path, md, err). rv_eq (Chmod (cstr path) md) (- 1 * err))"

section \<open>The suite\<close>

definition test1_suite :: "(byte list \<Rightarrow> u32) \<Rightarrow> (locals1 \<Rightarrow> unit prog) list" where
  "test1_suite crc32 = [test_statvfs, getattr, path_errs, readdir_badpath, readdir, read_badpath, read_little crc32,
     read_big crc32, test_rename, test_bad_rename, test_bad_chmod, test_chmod]"

text \<open>\<open>main\<close>: the library's runner is a parameter, a program that runs the tests and returns the
  number of failed ones.\<close>

definition test1_main :: "((locals1 \<Rightarrow> unit prog) list \<Rightarrow> nat prog) \<Rightarrow> (byte list \<Rightarrow> u32) \<Rightarrow> int prog" where
  "test1_main srunner crc32 = bind init_fs (\<lambda>_. bind (srunner (test1_suite crc32)) (\<lambda>number_failed.
     Return (if number_failed = 0 then 0 else 1)))"

text \<open>The tests one after the other, each with its own uninitialised variables.\<close>

primrec in_turn :: "(locals1 \<Rightarrow> unit prog) list \<Rightarrow> (nat \<Rightarrow> locals1) \<Rightarrow> unit prog" where
  "in_turn [] us = Return ()"
| "in_turn (p # ps) us = bind (p (us (length ps))) (\<lambda>_. in_turn ps us)"

end
