(* ===== verification/RenameBack.thy ===== *)
theory RenameBack
  imports TreeNew
begin

text \<open>
  Laws of the trees disks stand for, and what follows for renaming an object and renaming
  it back: the tree is the one it was.
\<close>

section \<open>Trees of disks\<close>

text \<open>Below a path that names nothing there is nothing, and the names in a directory name something.\<close>

definition wf_tree :: "ptree \<Rightarrow> bool" where
  "wf_tree T \<longleftrightarrow> (\<forall>us vs. T us = None \<longrightarrow> T (us @ vs) = None)
     \<and> (\<forall>us a n xs t. T us = Some (Dir a n xs) \<longrightarrow> Some t \<in> set xs \<longrightarrow> T (us @ [t]) \<noteq> None)"

lemma wf_tree_of:
  assumes C: "consistent N d"
  shows "wf_tree (tree_of N d)"
  unfolding wf_tree_def
proof (intro conjI allI impI)
  fix us vs assume "tree_of N d us = None"
  then show "tree_of N d (us @ vs) = None" by (simp add: tree_of_def alookup_append)
next
  fix us a n xs t assume u: "tree_of N d us = Some (Dir a n xs)" and t: "Some t \<in> set xs"
  then obtain k where k: "alookup (absfs N d) 2 us = Some k" and v: "node_at d k = Dir a n xs"
    by (auto simp: tree_of_def)
  have K: "k \<in> N" using alookup_in [OF C root_in(1) [OF C] k] .
  have D: "S_ISDIR (mode (inode_at d k))" and xs: "xs = slots d k"
    using v by (simp_all add: node_at_def view_def Let_def split: if_splits)
  then obtain j where j: "j < length (dirs_at d (inode_at d k))" "slot_name (dirs_at d (inode_at d k) ! j) = Some t"
    using t by (auto simp: slots_def in_set_conv_nth)
  have "dir_map (dirs_at d (inode_at d k)) t \<noteq> None"
    unfolding dir_map_None using j by (auto simp: slot_name_def split: if_splits)
  then have "children (absfs N d k) t \<noteq> None" using D by (simp add: children_view K)
  then show "tree_of N d (us @ [t]) \<noteq> None" by (auto simp: tree_of_def alookup_append k)
qed

section \<open>There and back\<close>

lemma relabel_back: "Some u \<notin> set xs \<Longrightarrow> relabel u t (relabel t u xs) = xs"
  unfolding relabel_def map_map by (rule map_idI) auto

lemma t_move_back:
  assumes W: "wf_tree T" and ne: "src \<noteq> []" "dst \<noteq> []" and dir: "butlast dst = butlast src"
    and free: "T dst = None" and src: "T src \<noteq> None"
  shows "t_move dst src (t_move src dst T) = T"
proof
  fix us
  have len: "length dst = length src" using dir ne by (metis append_butlast_last_id length_append_singleton)
  have sd: "src \<noteq> dst" using free src by auto
  have P: "\<not> length src \<le> length (butlast src)" using ne(1) by (cases src rule: rev_cases) simp_all
  have below: "T (dst @ vs) = None" for vs using W free by (simp add: wf_tree_def)
  define T1 where "T1 = t_move src dst T"
  have m: "T1 us = (if take (length src) us = dst then T (src @ drop (length src) us)
      else if take (length src) us = src then None
      else if us = butlast src then map_option (with_slots (relabel (last src) (last dst))) (T us) else T us)" for us
    by (simp add: T1_def t_move_def len)
  have b: "t_move dst src T1 us = (if take (length src) us = src then T1 (dst @ drop (length src) us)
      else if take (length src) us = dst then None
      else if us = butlast src then map_option (with_slots (relabel (last dst) (last src))) (T1 us) else T1 us)" for us
    by (simp add: t_move_def len dir)
  have parent: "map_option (with_slots (relabel (last dst) (last src)))
      (map_option (with_slots (relabel (last src) (last dst))) (T (butlast src))) = T (butlast src)"
  proof (cases "T (butlast src)")
    case (Some nd)
    show ?thesis
    proof (cases nd)
      case (Dir a n xs)
      have "butlast src @ [last dst] = dst" using dir ne by (metis append_butlast_last_id)
      then have "Some (last dst) \<notin> set xs" using W free Some Dir unfolding wf_tree_def by metis
      then show ?thesis using Some Dir relabel_back by simp
    qed (simp add: Some)
  qed simp
  consider (s) "take (length src) us = src" | (d) "take (length src) us = dst" | (p) "us = butlast src"
    | (o) "take (length src) us \<noteq> src" "take (length src) us \<noteq> dst" "us \<noteq> butlast src" by blast
  then show "t_move dst src (t_move src dst T) us = T us"
  proof cases
    case s
    then have "us = src @ drop (length src) us" by (metis append_take_drop_id)
    then show ?thesis using s sd len by (simp add: b m T1_def [symmetric])
  next
    case d
    then have "us = dst @ drop (length src) us" by (metis append_take_drop_id)
    then have "T us = None" using below by metis
    then show ?thesis using d sd by (simp add: b T1_def [symmetric])
  next
    case p
    have "take (length src) us \<noteq> src" "take (length src) us \<noteq> dst"
      using P len by (auto simp: p dest: arg_cong [of _ _ length])
    then show ?thesis using parent by (simp add: b m p T1_def [symmetric])
  qed (simp add: b m T1_def [symmetric])
qed

lemma t_rename_back:
  assumes W: "wf_tree (nodes S)" and ne: "src \<noteq> []" "dst \<noteq> []" and "length (last src) \<le> 27"
    and r: "t_rename src dst S = (Inr 0, S1)"
  shows "t_rename dst src S1 = (Inr 0, S)"
proof -
  let ?T = "nodes S"
  have e: "t_rename_error ?T src dst = None" and S1: "S1 = S\<lparr>nodes := t_move src dst ?T\<rparr>"
    using r by (auto simp: t_rename_def t_rename_error_def ret_def halt_def split: if_splits option.splits)
  then have src: "?T src \<noteq> None" and free: "?T dst = None" and dir: "butlast dst = butlast src"
    and len: "length dst = length src"
    by (auto simp: t_rename_error_def split: if_splits)
  have sd: "src \<noteq> dst" using free src by auto
  have "t_move src dst ?T dst = ?T src" and "t_move src dst ?T src = None"
    using sd len by (simp_all add: t_move_def)
  then have "t_rename_error (nodes S1) dst src = None" using src dir len by (simp add: t_rename_error_def S1)
  then show ?thesis
    using assms(4) t_move_back [OF W ne dir free src] by (simp add: t_rename_def S1 ret_def)
qed

text \<open>On disks.\<close>

lemma rename_back:
  assumes C: "consistent N d" and e: "wf_env e" "wf_env e'" and P: "canonical p" "canonical q" "p \<noteq> [slash]" "q \<noteq> [slash]"
    and short: "length (last (comps p)) \<le> 27" and r: "fs_ops e (Rename p q) d = (Inr (RCode 0), d1)"
  obtains d2 N2 where "fs_ops e' (Rename q p) d1 = (Inr (RCode 0), d2)" and "consistent N2 d2" and "fsys_of N2 d2 = fsys_of N d"
proof -
  have ne: "comps p \<noteq> []" "comps q \<noteq> []" using comps_fuse [OF P(1)] comps_fuse [OF P(2)] P(3,4) by (auto simp: fuse_path_def)
  have "refines hide_reply (fs_ops e (Rename p q) d) (tree_ops e (Rename p q) (fsys_of N d))"
    using P by (intro request_refines [OF C e(1)]) simp
  then have "fst (tree_ops e (Rename p q) (fsys_of N d)) = Inr (RCode 0)"
    and "\<exists>N1. consistent N1 d1 \<and> fsys_of N1 d1 = snd (tree_ops e (Rename p q) (fsys_of N d))"
    unfolding r refines_def by simp_all
  then obtain N1 where N1: "consistent N1 d1" "tree_ops e (Rename p q) (fsys_of N d) = (Inr (RCode 0), fsys_of N1 d1)"
    by (auto simp: prod_eq_iff simp del: tree_ops.simps)
  have "t_rename (comps p) (comps q) S = (Inr 0, S1)" if "tree_ops e (Rename p q) S = (Inr (RCode 0), S1)" for S S1
    using that by (cases "t_rename (comps p) (comps q) S") (auto simp: andThen_def ret_def split: sum.splits)
  from this [OF N1(2)] have "t_rename (comps p) (comps q) (fsys_of N d) = (Inr 0, fsys_of N1 d1)" .
  moreover have "wf_tree (nodes (fsys_of N d))" using wf_tree_of [OF C] by (simp add: fsys_of_def)
  ultimately have "t_rename (comps q) (comps p) (fsys_of N1 d1) = (Inr 0, fsys_of N d)"
    using ne short by (rule t_rename_back [rotated 4])
  then have t: "tree_ops e' (Rename q p) (fsys_of N1 d1) = (Inr (RCode 0), fsys_of N d)" by (simp add: andThen_def ret_def)
  have R: "refines hide_reply (fs_ops e' (Rename q p) d1) (Inr (RCode 0), fsys_of N d)"
    using request_refines [OF N1(1) e(2), of "Rename q p"] P unfolding t by simp
  obtain o2 d2 where o2: "fs_ops e' (Rename q p) d1 = (o2, d2)" by (cases "fs_ops e' (Rename q p) d1")
  obtain N2 where "consistent N2 d2" "fsys_of N2 d2 = fsys_of N d" and h: "map_sum id hide_reply o2 = Inr (RCode 0)"
    using R unfolding o2 refines_def by auto
  moreover have "o2 = Inr (RCode 0)" using h by (cases o2) (auto elim: hide_reply.elims)
  ultimately show thesis using that o2 by blast
qed

end
