(* ===== verification/Pass1.thy ===== *)
theory Pass1
  imports Disk1 Test1 RenameBack
begin

text \<open>
  Every test of \<open>test1.c\<close> passes on the image \<open>gen-disk.py\<close> makes of \<open>disk1.in\<close>, in the order of
  the suite.
\<close>

section \<open>The tree of the image\<close>

definition disk1_state :: "(string \<Rightarrow> nat \<Rightarrow> byte list) \<Rightarrow> fsys \<Rightarrow> bool" where
  "disk1_state fill S \<longleftrightarrow> (\<forall>ss. nodes S (map cstr ss) = map_option (item_node fill) (lookup_item disk1_items 2 ss))
     \<and> wf_tree (nodes S) \<and> room S = 32723 \<and> super S = \<lparr>magic = FS_MAGIC, disk_size = 400, pad = replicate 4088 0\<rparr>"

lemma disk1_is_state:
  assumes "ok_fill fill"
  shows "consistent (live disk1_items) (disk1_image fill)" and "disk1_state fill (fsys_of (live disk1_items) (disk1_image fill))"
proof -
  show C: "consistent (live disk1_items) (disk1_image fill)"
    using gen_disk_consistent [OF disk1_wf assms] by (simp add: disk1_image_def)
  show "disk1_state fill (fsys_of (live disk1_items) (disk1_image fill))"
    using fsys_of_gen [OF disk1_wf assms, folded disk1_image_def] disk1_numbers(3) wf_tree_of [OF C]
    by (simp add: disk1_state_def)
qed

lemma disk1_nodes:
  assumes "disk1_state fill S"
  shows "nodes S [] = map_option (item_node fill) (lookup_item disk1_items 2 [])"
    and "nodes S [cstr a] = map_option (item_node fill) (lookup_item disk1_items 2 [a])"
    and "nodes S [cstr a, cstr b] = map_option (item_node fill) (lookup_item disk1_items 2 [a, b])"
    and "nodes S [cstr a, cstr b, cstr c] = map_option (item_node fill) (lookup_item disk1_items 2 [a, b, c])"
proof -
  have n: "nodes S (map cstr ss) = map_option (item_node fill) (lookup_item disk1_items 2 ss)" for ss
    using assms by (simp add: disk1_state_def)
  show "nodes S [] = map_option (item_node fill) (lookup_item disk1_items 2 [])"
    and "nodes S [cstr a] = map_option (item_node fill) (lookup_item disk1_items 2 [a])"
    and "nodes S [cstr a, cstr b] = map_option (item_node fill) (lookup_item disk1_items 2 [a, b])"
    and "nodes S [cstr a, cstr b, cstr c] = map_option (item_node fill) (lookup_item disk1_items 2 [a, b, c])"
    using n [of "[]"] n [of "[a]"] n [of "[a, b]"] n [of "[a, b, c]"] by simp_all
qed

lemma disk1_lookups:
  "lookup_item disk1_items 2 [] = Some item_2"
  "lookup_item disk1_items 2 [''file.1k''] = Some item_389"
  "lookup_item disk1_items 2 [''file.10''] = Some item_268"
  "lookup_item disk1_items 2 [''dir-with-long-name''] = Some item_253"
  "lookup_item disk1_items 2 [''dir-with-long-name'', ''file.12k+''] = Some item_327"
  "lookup_item disk1_items 2 [''dir2''] = Some item_213"
  "lookup_item disk1_items 2 [''dir2'', ''twenty-seven-byte-file-name''] = Some item_55"
  "lookup_item disk1_items 2 [''dir2'', ''file.4k+''] = Some item_139"
  "lookup_item disk1_items 2 [''dir3''] = Some item_238"
  "lookup_item disk1_items 2 [''dir3'', ''subdir''] = Some item_338"
  "lookup_item disk1_items 2 [''dir3'', ''subdir'', ''file.4k-''] = Some item_188"
  "lookup_item disk1_items 2 [''dir3'', ''subdir'', ''file.8k-''] = Some item_21"
  "lookup_item disk1_items 2 [''dir3'', ''subdir'', ''file.12k''] = Some item_71"
  "lookup_item disk1_items 2 [''dir3'', ''file.12k-''] = Some item_146"
  "lookup_item disk1_items 2 [''file.8k+''] = Some item_59"
  "lookup_item disk1_items 2 [''not-a-file''] = None"
  "lookup_item disk1_items 2 [''dir1''] = None"
  "lookup_item disk1_items 2 [''not-a-dir''] = None"
  "lookup_item disk1_items 2 [''file.8k+'', ''file.0''] = None"
  "lookup_item disk1_items 2 [''dir2'', ''file.4k+'', ''testing''] = None"
  "lookup_item disk1_items 2 [''dir2'', ''thisisaverylongnamelongerthan27chars''] = None"
  "lookup_item disk1_items 2 [''file.8k+'', ''file.8k+''] = None"
  "lookup_item disk1_items 2 [''oooo''] = None"
  "lookup_item disk1_items 2 [''file.tmp''] = None"
  "lookup_item disk1_items 2 [''dir2'', ''file.tmp''] = None"
  "lookup_item disk1_items 2 [''dir2'', ''file.4k''] = None"
  "lookup_item disk1_items 2 [''dir3'', ''somefile''] = None"
  "lookup_item disk1_items 2 [''dir1'', ''not-a-file''] = None"
  "lookup_item disk1_items 2 [''not-a-dir'', ''file.0''] = None"
  "lookup_item disk1_items 2 [''not-a-dir'', ''file.12k+''] = None"
  "lookup_item disk1_items 2 [''dir1'', ''file.tmp''] = None"
  "lookup_item disk1_items 2 [''not-a-dir'', ''not-a-file''] = None"
  by (simp_all add: lookup_item.simps disk1_defs numbered_def item_children_def child_list_def)

lemma disk1_rest:
  assumes "disk1_state fill S"
  shows "wf_tree (nodes S)" and "room S = 32723" and "magic (super S) = FS_MAGIC" and "disk_size (super S) = 400"
  using assms by (simp_all add: disk1_state_def)

section \<open>The paths of the tests\<close>

lemma lit_paths_1 [step_simps]:
  "canonical (cstr ''/file.1k'')" "cstr ''/file.1k'' \<noteq> [slash]"
  "comps (cstr ''/file.1k'') = [cstr ''file.1k'']"
  "canonical (cstr ''/file.10'')" "cstr ''/file.10'' \<noteq> [slash]"
  "comps (cstr ''/file.10'') = [cstr ''file.10'']"
  "canonical (cstr ''/dir-with-long-name'')" "cstr ''/dir-with-long-name'' \<noteq> [slash]"
  "comps (cstr ''/dir-with-long-name'') = [cstr ''dir-with-long-name'']"
  "canonical (cstr ''/dir-with-long-name/file.12k+'')" "cstr ''/dir-with-long-name/file.12k+'' \<noteq> [slash]"
  "comps (cstr ''/dir-with-long-name/file.12k+'') = [cstr ''dir-with-long-name'', cstr ''file.12k+'']"
  "canonical (cstr ''/dir2'')" "cstr ''/dir2'' \<noteq> [slash]"
  "comps (cstr ''/dir2'') = [cstr ''dir2'']"
  "canonical (cstr ''/dir2/twenty-seven-byte-file-name'')" "cstr ''/dir2/twenty-seven-byte-file-name'' \<noteq> [slash]"
  "comps (cstr ''/dir2/twenty-seven-byte-file-name'') = [cstr ''dir2'', cstr ''twenty-seven-byte-file-name'']"
  "canonical (cstr ''/dir2/file.4k+'')" "cstr ''/dir2/file.4k+'' \<noteq> [slash]"
  "comps (cstr ''/dir2/file.4k+'') = [cstr ''dir2'', cstr ''file.4k+'']"
  "canonical (cstr ''/dir3'')" "cstr ''/dir3'' \<noteq> [slash]"
  "comps (cstr ''/dir3'') = [cstr ''dir3'']"
  "canonical (cstr ''/dir3/subdir'')" "cstr ''/dir3/subdir'' \<noteq> [slash]"
  "comps (cstr ''/dir3/subdir'') = [cstr ''dir3'', cstr ''subdir'']"
  "canonical (cstr ''/dir3/subdir/file.4k-'')" "cstr ''/dir3/subdir/file.4k-'' \<noteq> [slash]"
  "comps (cstr ''/dir3/subdir/file.4k-'') = [cstr ''dir3'', cstr ''subdir'', cstr ''file.4k-'']"
  "canonical (cstr ''/dir3/subdir/file.8k-'')" "cstr ''/dir3/subdir/file.8k-'' \<noteq> [slash]"
  "comps (cstr ''/dir3/subdir/file.8k-'') = [cstr ''dir3'', cstr ''subdir'', cstr ''file.8k-'']"
  "canonical (cstr ''/dir3/subdir/file.12k'')" "cstr ''/dir3/subdir/file.12k'' \<noteq> [slash]"
  "comps (cstr ''/dir3/subdir/file.12k'') = [cstr ''dir3'', cstr ''subdir'', cstr ''file.12k'']"
  "canonical (cstr ''/dir3/file.12k-'')" "cstr ''/dir3/file.12k-'' \<noteq> [slash]"
  "comps (cstr ''/dir3/file.12k-'') = [cstr ''dir3'', cstr ''file.12k-'']"
  "canonical (cstr ''/file.8k+'')" "cstr ''/file.8k+'' \<noteq> [slash]"
  "comps (cstr ''/file.8k+'') = [cstr ''file.8k+'']"
  "canonical (cstr ''/not-a-file'')" "cstr ''/not-a-file'' \<noteq> [slash]"
  "comps (cstr ''/not-a-file'') = [cstr ''not-a-file'']"
  "canonical (cstr ''/dir1/not-a-file'')" "cstr ''/dir1/not-a-file'' \<noteq> [slash]"
  "comps (cstr ''/dir1/not-a-file'') = [cstr ''dir1'', cstr ''not-a-file'']"
  "canonical (cstr ''/not-a-dir/file.0'')" "cstr ''/not-a-dir/file.0'' \<noteq> [slash]"
  "comps (cstr ''/not-a-dir/file.0'') = [cstr ''not-a-dir'', cstr ''file.0'']"
  "canonical (cstr ''/file.8k+/file.0'')" "cstr ''/file.8k+/file.0'' \<noteq> [slash]"
  "comps (cstr ''/file.8k+/file.0'') = [cstr ''file.8k+'', cstr ''file.0'']"
  "canonical (cstr ''/dir2/file.4k+/testing'')" "cstr ''/dir2/file.4k+/testing'' \<noteq> [slash]"
  "comps (cstr ''/dir2/file.4k+/testing'') = [cstr ''dir2'', cstr ''file.4k+'', cstr ''testing'']"
  "canonical (cstr ''/dir2/thisisaverylongnamelongerthan27chars'')" "cstr ''/dir2/thisisaverylongnamelongerthan27chars'' \<noteq> [slash]"
  "comps (cstr ''/dir2/thisisaverylongnamelongerthan27chars'') = [cstr ''dir2'', cstr ''thisisaverylongnamelongerthan27chars'']"
  "canonical (cstr ''/not-a-dir/file.12k+'')" "cstr ''/not-a-dir/file.12k+'' \<noteq> [slash]"
  "comps (cstr ''/not-a-dir/file.12k+'') = [cstr ''not-a-dir'', cstr ''file.12k+'']"
  "canonical (cstr ''/file.8k+/file.8k+'')" "cstr ''/file.8k+/file.8k+'' \<noteq> [slash]"
  "comps (cstr ''/file.8k+/file.8k+'') = [cstr ''file.8k+'', cstr ''file.8k+'']"
  "canonical (cstr ''/not-a-dir'')" "cstr ''/not-a-dir'' \<noteq> [slash]"
  "comps (cstr ''/not-a-dir'') = [cstr ''not-a-dir'']"
  "canonical (cstr ''/oooo'')" "cstr ''/oooo'' \<noteq> [slash]"
  "comps (cstr ''/oooo'') = [cstr ''oooo'']"
  "canonical (cstr ''/dir1/file.tmp'')" "cstr ''/dir1/file.tmp'' \<noteq> [slash]"
  "comps (cstr ''/dir1/file.tmp'') = [cstr ''dir1'', cstr ''file.tmp'']"
  "canonical (cstr ''/dir2/file.4k'')" "cstr ''/dir2/file.4k'' \<noteq> [slash]"
  "comps (cstr ''/dir2/file.4k'') = [cstr ''dir2'', cstr ''file.4k'']"
  "canonical (cstr ''/dir3/somefile'')" "cstr ''/dir3/somefile'' \<noteq> [slash]"
  "comps (cstr ''/dir3/somefile'') = [cstr ''dir3'', cstr ''somefile'']"
  "canonical (cstr ''/file.tmp'')" "cstr ''/file.tmp'' \<noteq> [slash]"
  "comps (cstr ''/file.tmp'') = [cstr ''file.tmp'']"
  "canonical (cstr ''/dir2/file.tmp'')" "cstr ''/dir2/file.tmp'' \<noteq> [slash]"
  "comps (cstr ''/dir2/file.tmp'') = [cstr ''dir2'', cstr ''file.tmp'']"
  "canonical (cstr ''/not-a-dir/not-a-file'')" "cstr ''/not-a-dir/not-a-file'' \<noteq> [slash]"
  "comps (cstr ''/not-a-dir/not-a-file'') = [cstr ''not-a-dir'', cstr ''not-a-file'']"
  by (subst path_lit; simp add: plain_def)+

section \<open>Reading in pieces\<close>

lemma put_bytes_next:
  assumes "off + length bs \<le> length buf" and "length bs \<le> length c - off" and "off \<le> length c"
    and "bs = take (length bs) (drop off c)"
  shows "take (off + length bs) (put_bytes buf off bs) @ drop (off + length bs) c @ drop (length c) (put_bytes buf off bs)
    = take off buf @ drop off c @ drop (length c) buf"
proof -
  have "bs @ drop (off + length bs) c = drop off c"
    using assms(4) by (metis append_take_drop_id drop_drop add.commute)
  then have "bs @ drop (off + length bs) c @ drop (length c) buf = drop off c @ drop (length c) buf"
    by (metis append_assoc)
  moreover have "length buf \<le> off \<Longrightarrow> bs = []" using assms(1) by (cases bs) simp_all
  ultimately show ?thesis using assms(1-3) by (auto simp: put_bytes_def min_def)
qed

lemma chk_read_n:
  assumes "canonical p" and "0 < chunk" and f: "nodes S (comps p) = Some (File a c)"
  shows "off \<le> length c \<Longrightarrow> length c \<le> length buf \<Longrightarrow> length c - off < fuel \<Longrightarrow>
    (\<And>t'. Q (take off buf @ drop off c @ drop (length c) buf) t' S) \<Longrightarrow>
    chk H (read_n fuel p buf chunk (length c) off) t S Q"
proof (induction fuel arbitrary: off buf t)
  case (Suc fuel)
  define bs where "bs = take chunk (drop off c)"
  have len: "length bs = min chunk (length c - off)" by (simp add: bs_def)
  have seg: "bs = take (length bs) (drop off c)"
    unfolding bs_def by (metis append_eq_conv_conj append_take_drop_id)
  have r: "t_read (comps p) chunk off S = ret (int (length bs), bs) S" by (simp add: t_read_def f bs_def Let_def)
  have room: "\<not> length buf < off + length bs" using Suc.prems(1,2) len by simp
  show ?case
  proof (cases "off = length c")
    case True
    then have "bs = []" by (simp add: bs_def)
    moreover have "put_bytes buf off [] = take off buf @ drop off c @ drop (length c) buf"
      using True Suc.prems(2) by (simp add: put_bytes_def)
    ultimately show ?thesis
      using Suc.prems(4) room by (simp add: chk_read [OF assms(1)] r after_ret del: chk.simps(3))
  next
    case False
    then have pos: "0 < length bs" using len assms(2) Suc.prems(1) by simp
    have "chk H (read_n fuel p (put_bytes buf off bs) chunk (length c) (off + length bs)) (Suc t) S Q"
    proof (rule Suc.IH)
      show "off + length bs \<le> length c" using len Suc.prems(1) by simp
      show "length c \<le> length (put_bytes buf off bs)" using Suc.prems(1,2) room by (simp add: put_bytes_def)
      show "length c - (off + length bs) < fuel" using Suc.prems(1,3) pos False by linarith
      show "Q (take (off + length bs) (put_bytes buf off bs) @ drop (off + length bs) c
          @ drop (length c) (put_bytes buf off bs)) t' S" for t'
        using Suc.prems(1,4) room len by (subst put_bytes_next [OF _ _ _ seg]) simp_all
    qed
    moreover have "length bs < chunk \<Longrightarrow> int off + int (length bs) = int (length c)" using len Suc.prems(1) by simp
    moreover have "length bs \<le> chunk" by (simp add: len)
    ultimately show ?thesis
      using room pos False
      by (simp add: chk_read [OF assms(1)] r after_ret Let_def nat_int_add del: chk.simps(3))
  qed
qed simp

lemma read_n_at_a_time_reads:
  assumes "canonical p" and "0 < chunk" and "nodes S (comps p) = Some (File a c)" and "length c \<le> length buf"
    and "\<And>t'. Q (c @ drop (length c) buf) t' S"
  shows "chk H (read_n_at_a_time p buf chunk (length c)) t S Q"
  unfolding read_n_at_a_time_def using assms by (intro chk_read_n [where a = a]) simp_all

section \<open>The tests that only read\<close>

lemmas run_test_1 = step_simps t_getattr_def t_error_def t_read_def t_rename_def t_rename_error_def t_chmod_def root_lit

lemma item_nodes:
  "node_attrs (item_node fill x) = item_attrs x"
  "a_uid (item_attrs x) = i_uid x" "a_gid (item_attrs x) = i_gid x" "a_mode (item_attrs x) = i_mode x"
  "is_dir (item_node fill x) \<longleftrightarrow> i_entries x \<noteq> None"
  by (simp_all add: item_node_def item_attrs_def node_attrs_def split: option.split)

lemma item_size:
  assumes "ok_fill fill" and "x \<in> set disk1_items"
  shows "node_size (item_node fill x) = sint (i_size x)"
    and "i_entries x = None \<Longrightarrow> length (item_bytes fill x) = nat (sint (i_size x))"
proof -
  have w: "wf_item x" using disk1_wf_items assms(2) by (simp add: list_all_iff)
  have l: "length (concat (map (fill (i_name x)) [0..<m])) = 4096 * m" for m
    using length_concat_map [of "[0..<m]" "fill (i_name x)" 4096] assms(1) by (simp add: ok_fill_def)
  show len: "i_entries x = None \<Longrightarrow> length (item_bytes fill x) = nat (sint (i_size x))"
    using wf_file(3) [OF w] by (simp add: item_bytes_def l)
  show "node_size (item_node fill x) = sint (i_size x)"
    using len wf_file(2) [OF w] by (cases "i_entries x") (simp_all add: item_node_def node_size_def)
qed

lemma test_statvfs_pass:
  assumes "disk1_state fill S" and "\<And>t'. Q () t' S"
  shows "chk H (test_statvfs u) t S Q"
  using assms(2) disk1_rest [OF assms(1)]
  by (simp add: test_statvfs_def chk_statfs t_statfs_def Let_def run_test_1 del: chk.simps(3) bind.simps One_nat_def)

lemma getattr_pass:
  assumes "ok_fill fill" and "disk1_state fill S" and "\<And>t'. Q () t' S"
  shows "chk H (getattr u) t S Q"
proof -
  have i: "x \<in> set disk1_items \<Longrightarrow> node_size (item_node fill x) = sint (i_size x)" for x
    by (rule item_size(1) [OF assms(1)])
  show ?thesis
    unfolding getattr_def paths_def row_def
    using assms(3)
    by (simp add: run_test_1 disk1_nodes [OF assms(2)] disk1_lookups item_nodes i cong: chk_cong after_cong
        del: chk.simps(3) bind.simps One_nat_def)
qed

lemma path_errs_pass:
  assumes "disk1_state fill S" and "\<And>t'. Q () t' S"
  shows "chk H (path_errs u) t S Q"
  unfolding path_errs_def bad1_def using assms(2)
  by (simp add: run_test_1 disk1_nodes [OF assms(1)] disk1_lookups item_nodes cong: chk_cong after_cong
      del: chk.simps(3) bind.simps One_nat_def)

lemma test_bad_chmod_pass:
  assumes "disk1_state fill S" and "\<And>t'. Q () t' S"
  shows "chk H (test_bad_chmod u) t S Q"
  unfolding test_bad_chmod_def err2_def using assms(2)
  by (simp add: run_test_1 disk1_nodes [OF assms(1)] disk1_lookups item_nodes cong: chk_cong after_cong
      del: chk.simps(3) bind.simps One_nat_def)

lemma test_bad_rename_pass:
  assumes "disk1_state fill S" and "\<And>t'. Q () t' S"
  shows "chk H (test_bad_rename u) t S Q"
  unfolding test_bad_rename_def err1_def using assms(2)
  by (simp add: run_test_1 disk1_nodes [OF assms(1)] disk1_lookups item_nodes cong: chk_cong after_cong
      del: chk.simps(3) bind.simps One_nat_def)

lemma item_node_file: "i_entries x = None \<Longrightarrow> item_node fill x = File (item_attrs x) (item_bytes fill x)"
  by (simp add: item_node_def)

lemma read_badpath_pass:
  assumes "disk1_state fill S" and "\<And>t'. Q () t' S"
  shows "chk H (read_badpath u) t S Q"
proof -
  obtain a n es where d: "item_node fill item_213 = Dir a n es" by (auto simp: item_node_def disk1_defs)
  show ?thesis
    unfolding read_badpath_def bad_6_def using assms(2)
    by (simp add: run_test_1 disk1_nodes [OF assms(1)] disk1_lookups item_nodes item_node_file d cong: chk_cong after_cong
        del: chk.simps(3) bind.simps One_nat_def)
qed

lemma readdir_badpath_pass:
  assumes "disk1_state fill S" and "\<And>t'. Q () t' S"
  shows "chk H (readdir_badpath u) t S Q"
proof -
  have r: "chk H (Call (Readdir p) (\<lambda>x. bind (each (names_of x) test_7_filler) (\<lambda>_. ck_assert (code x = n)))) t S R"
    if "canonical p" "nodes S (comps p) = None \<and> n = - ENOENT \<or> (\<exists>a c. nodes S (comps p) = Some (File a c)) \<and> n = - ENOTDIR"
      "R () (Suc t) S" for p n t R
    using that by (subst chk_readdir_names [where K = "\<lambda>c ns. bind (each ns test_7_filler) (\<lambda>_. ck_assert (c = n))"]) auto
  show ?thesis
    unfolding readdir_badpath_def bad_7_def chk_statements prod.case
    by (intro r) (simp_all add: run_test_1 disk1_nodes [OF assms(1)] disk1_lookups item_node_file assms(2))
qed

lemma strike_run:
  "test_2_filler [] nm = None"
  "test_2_filler (x # xs) nm = (if x = Some nm then Some (None # xs) else map_option (\<lambda>ys. x # ys) (test_2_filler xs nm))"
  by (auto simp: test_2_filler_def Let_def)

fun names_in :: "node \<Rightarrow> cstring list" where
  "names_in (Dir a s xs) = entries xs"
| "names_in (File a c) = []"

lemma names_in_item: "i_entries x = Some es \<Longrightarrow> names_in (item_node fill x) = map cstr (map fst (child_list es))"
proof -
  have "entries (map (\<lambda>e. if fst e then Some (cstr (fst (snd e))) else None) es @ replicate k None)
      = map cstr (map fst (child_list es))" for k
    by (induction es) (auto simp: entries_def child_list_def)
  then show "i_entries x = Some es \<Longrightarrow> names_in (item_node fill x) = map cstr (map fst (child_list es))"
    by (simp add: item_node_def)
qed

lemma disk1_names:
  "names_in (item_node fill item_2) = map cstr [''file.1k'', ''file.10'', ''dir-with-long-name'', ''dir2'', ''dir3'', ''file.8k+'']"
  "names_in (item_node fill item_253) = map cstr [''file.12k+'']"
  "names_in (item_node fill item_213) = map cstr [''twenty-seven-byte-file-name'', ''file.4k+'']"
  "names_in (item_node fill item_238) = map cstr [''subdir'', ''file.12k-'']"
  "names_in (item_node fill item_338) = map cstr [''file.4k-'', ''file.8k-'', ''file.12k'']"
  by (subst names_in_item, (simp add: disk1_defs; fail), simp add: child_list_def)+

lemma contents_run: "contents_10 nms = map (\<lambda>s. Some (cstr s)) nms @ replicate (10 - length nms) None"
  by (simp add: contents_10_def)

lemma disk1_strikes:
  "strike_all (contents_10 [''dir2'', ''dir3'', ''dir-with-long-name'', ''file.10'', ''file.1k'', ''file.8k+''])
     (map cstr [''file.1k'', ''file.10'', ''dir-with-long-name'', ''dir2'', ''dir3'', ''file.8k+'']) = Some (replicate 10 None)"
  "strike_all (contents_10 [''file.12k+''])
     (map cstr [''file.12k+'']) = Some (replicate 10 None)"
  "strike_all (contents_10 [''file.4k+'', ''twenty-seven-byte-file-name''])
     (map cstr [''twenty-seven-byte-file-name'', ''file.4k+'']) = Some (replicate 10 None)"
  "strike_all (contents_10 [''file.12k-'', ''subdir''])
     (map cstr [''subdir'', ''file.12k-'']) = Some (replicate 10 None)"
  "strike_all (contents_10 [''file.12k'', ''file.4k-'', ''file.8k-''])
     (map cstr [''file.4k-'', ''file.8k-'', ''file.12k'']) = Some (replicate 10 None)"
  by (simp add: contents_run strike_run, simp add: numeral_eq_Suc)+

lemma readdir_pass:
  assumes "disk1_state fill S" and "\<And>t'. Q () t' S"
  shows "chk H (readdir u) t S Q"
proof -
  have none: "chk H (each ks (\<lambda>j. ck_assert (replicate 10 (None :: cstring option) ! j = None))) t S R"
    if "R () t S" "\<forall>j\<in>set ks. j < 10" for ks t R
    using that by (induction ks) simp_all
  have r: "chk H (Call (Readdir p) (\<lambda>x. case strike_all ns (names_of x) of
       None \<Rightarrow> Stuck Check_failed
     | Some d \<Rightarrow> steps [ck_assert (code x \<ge> 0), each [0..<10] (\<lambda>j. ck_assert (d ! j = None))])) t S R"
    if "canonical p" "nodes S (comps p) \<noteq> None" "is_dir (the (nodes S (comps p)))"
      "strike_all ns (names_in (the (nodes S (comps p)))) = Some (replicate 10 None)" "R () (Suc t) S" for p ns t R
  proof -
    note prems = that
    obtain a n es where nd: "nodes S (comps p) = Some (Dir a n es)"
      using prems(2,3) by (cases "the (nodes S (comps p))") auto
    show ?thesis
      using prems none [of R "Suc t"]
      by (subst chk_readdir_names [where K = "\<lambda>c ns'. case strike_all ns ns' of None \<Rightarrow> Stuck Check_failed
          | Some d \<Rightarrow> steps [ck_assert (c \<ge> 0), each [0..<10] (\<lambda>j. ck_assert (d ! j = None))]"])
        (simp_all add: nd)
  qed
  show ?thesis
    unfolding readdir_def dirs_table_def chk_statements prod.case
    by (intro r) (simp_all add: run_test_1 disk1_nodes [OF assms(1)] disk1_lookups item_nodes disk1_names disk1_strikes assms(2)
        del: list.map)
qed

section \<open>The tests that read files\<close>

text \<open>What is taken of zlib: the checksums in the table are those of the files.\<close>

definition disk1_bytes :: "(string \<Rightarrow> nat \<Rightarrow> byte list) \<Rightarrow> string \<Rightarrow> byte list" where
  "disk1_bytes fill path = item_bytes fill (the (lookup_item disk1_items 2 (snd (pieces path))))"

definition crc_ok :: "(byte list \<Rightarrow> u32) \<Rightarrow> (string \<Rightarrow> nat \<Rightarrow> byte list) \<Rightarrow> bool" where
  "crc_ok crc32 fill \<longleftrightarrow> list_all (\<lambda>(cksum, size, path). crc32 (disk1_bytes fill path) = cksum) cksums"

definition ok_heap :: "locals1 \<Rightarrow> bool" where
  "ok_heap u \<longleftrightarrow> (\<forall>n. length (heap u n) = n)"

lemma seventeen_ok: "same_bytes 256 seventeen seventeen" "length seventeen = 256"
  by (simp_all add: same_bytes_def seventeen_def)

lemma read_big_row:
  assumes "canonical p" and "nodes S (comps p) = Some (File a c)" and "length c = sz" and "crc32 c = cksum" and "ok_heap u"
    and "Q () (Suc t) S"
  shows "chk H (let buflen = sz + 256; buf = take sz (heap u buflen) @ seventeen in
     Call (Read p buflen 0) (\<lambda>x.
       let len = code x; buf = put_bytes buf 0 (bytes_of x) in steps [
         ck_assert (len \<ge> 0),
         ck_assert (len = int sz),
         ck_assert (crc32 (take (nat len) buf) = cksum),
         ck_assert (same_bytes 256 (drop sz buf) seventeen)])) t S Q"
  using assms by (simp add: chk_read after_ret t_read_def put_bytes_def ok_heap_def seventeen_ok Let_def del: chk.simps(3))

lemma read_little_row:
  assumes "canonical p" and "nodes S (comps p) = Some (File a c)" and "length c = len" and "crc32 c = cksum" and "ok_heap u"
    and "0 < chunk" and "\<And>t'. Q () t' S"
  shows "chk H (bind (read_n_at_a_time p (take len (heap u (len + 256)) @ seventeen) chunk len) (\<lambda>buf. steps [
       ck_assert (crc32 (take len buf) = cksum),
       ck_assert (same_bytes 256 (drop len buf) seventeen)])) t S Q"
proof -
  define buf where "buf = take len (heap u (len + 256)) @ seventeen"
  have b: "length buf = len + 256" "drop len buf = seventeen"
    using assms(5) by (simp_all add: buf_def ok_heap_def seventeen_ok)
  have "chk H (read_n_at_a_time p buf chunk (length c)) t S (\<lambda>buf t S. chk H (steps [
       ck_assert (crc32 (take len buf) = cksum),
       ck_assert (same_bytes 256 (drop len buf) seventeen)]) t S Q)"
    using assms b by (intro read_n_at_a_time_reads) (simp_all add: seventeen_ok)
  then show ?thesis by (simp add: assms(3) buf_def)
qed

lemma disk1_file_size:
  assumes "ok_fill fill"
  shows "length (item_bytes fill item_389) = 1000" and "length (item_bytes fill item_268) = 10"
    and "length (item_bytes fill item_327) = 12289" and "length (item_bytes fill item_55) = 1000"
    and "length (item_bytes fill item_139) = 4098" and "length (item_bytes fill item_188) = 4095"
    and "length (item_bytes fill item_21) = 8190" and "length (item_bytes fill item_71) = 12288"
    and "length (item_bytes fill item_146) = 12287" and "length (item_bytes fill item_59) = 8195"
  by (simp_all add: item_size(2) [OF assms])

lemma disk1_cksums:
  assumes "crc_ok crc32 fill"
  shows "crc32 (item_bytes fill item_389) = 1786485602" and "crc32 (item_bytes fill item_268) = 855202508"
    and "crc32 (item_bytes fill item_327) = 4101348955" and "crc32 (item_bytes fill item_55) = 2575367502"
    and "crc32 (item_bytes fill item_139) = 799580753" and "crc32 (item_bytes fill item_188) = 4220582896"
    and "crc32 (item_bytes fill item_21) = 4090922556" and "crc32 (item_bytes fill item_71) = 3243963207"
    and "crc32 (item_bytes fill item_146) = 2954788945" and "crc32 (item_bytes fill item_59) = 2112223143"
  using assms by (simp_all add: crc_ok_def cksums_def disk1_bytes_def disk1_lookups)

lemma read_big_pass:
  assumes "ok_fill fill" and "crc_ok crc32 fill" and "ok_heap u" and "disk1_state fill S" and "\<And>t'. Q () t' S"
  shows "chk H (read_big crc32 u) t S Q"
  unfolding read_big_def cksums_def chk_statements prod.case
  by (intro read_big_row;
      (simp add: run_test_1 disk1_nodes [OF assms(4)] disk1_lookups item_node_file assms(3,5) disk1_file_size [OF assms(1)]
        disk1_cksums [OF assms(2)])?)
    (simp_all add: disk1_file_size [OF assms(1)] disk1_cksums [OF assms(2)])

lemma read_little_pass:
  assumes "ok_fill fill" and "crc_ok crc32 fill" and "ok_heap u" and "disk1_state fill S" and "\<And>t'. Q () t' S"
  shows "chk H (read_little crc32 u) t S Q"
proof -
  have l: "chk H (each cksums (\<lambda>(cksum, len, path).
     bind (read_n_at_a_time (cstr path) (take len (heap u (len + 256)) @ seventeen) chunk len) (\<lambda>buf. steps [
       ck_assert (crc32 (take len buf) = cksum),
       ck_assert (same_bytes 256 (drop len buf) seventeen)]))) t S R"
    if "0 < chunk" "\<And>t'. R () t' S" for chunk t R
    unfolding cksums_def chk_statements prod.case
    by (intro read_little_row;
        (simp add: run_test_1 disk1_nodes [OF assms(4)] disk1_lookups item_node_file assms(3) that disk1_file_size [OF assms(1)]
          disk1_cksums [OF assms(2)])?)
      (simp_all add: disk1_file_size [OF assms(1)] disk1_cksums [OF assms(2)])
  show ?thesis
    unfolding read_little_def chk_statements by (intro l) (simp_all add: assms(5))
qed

section \<open>The tests that change the image\<close>

lemma t_walk_negative:
  "ts \<noteq> [] \<Longrightarrow> T (us @ ts) = None \<Longrightarrow> t_walk T multi us ts < 0"
proof (induction T multi us ts rule: t_walk.induct)
  case (2 T multi us t ts)
  then show ?case by (cases "T (us @ [t])") auto
qed simp

lemma t_error_negative: "toks \<noteq> [] \<Longrightarrow> T toks = None \<Longrightarrow> t_error T toks < 0"
  using t_walk_negative [of toks T "[]"] by (simp add: t_error_def)

lemma rename_steps:
  assumes P: "canonical p" "canonical q" "p \<noteq> [slash]" "q \<noteq> [slash]" "comps p \<noteq> []"
    and r: "t_rename (comps p) (comps q) S = (Inr 0, S1)"
    and n: "nodes S1 (comps q) \<noteq> None" "nodes S1 (comps p) = None" and Q: "\<And>t'. Q () t' S1"
  shows "chk H (steps [rv_eq (Rename p q) 0, rv_eq (Getattr q sb) 0, rv_lt (Getattr p sb) 0]) t S Q"
proof -
  have "t_getattr (comps q) sb S1 = (Inr (0, node_stat (the (nodes S1 (comps q)))), S1)"
    using n(1) by (auto simp: t_getattr_def ret_def)
  moreover have "t_getattr (comps p) sb S1 = (Inr (t_error (nodes S1) (comps p), sb\<lparr>st_ino := 0\<rparr>), S1)"
    using n(2) by (auto simp: t_getattr_def ret_def)
  ultimately show ?thesis
    using P n(2) t_error_negative [of "comps p" "nodes S1"] Q
    by (simp add: chk_statements chk_rv_eq_more chk_getattr_code chk_rv_lt r after_def)
qed

text \<open>A name is changed and changed back.\<close>

lemma rename_pair:
  assumes P: "canonical p" "canonical q" "p \<noteq> [slash]" "q \<noteq> [slash]" "comps p \<noteq> []" "comps q \<noteq> []"
    and W: "wf_tree (nodes S)" and short: "length (last (comps p)) \<le> 27" "length (last (comps q)) \<le> 27"
    and n: "nodes S (comps p) \<noteq> None" "nodes S (comps q) = None" and dir: "butlast (comps p) = butlast (comps q)"
    and Q: "\<And>t'. Q () t' S"
  shows "chk H (steps [rv_eq (Rename p q) 0, rv_eq (Getattr q sb) 0, rv_lt (Getattr p sb) 0]) t S (\<lambda>_ t S.
    chk H (steps [rv_eq (Rename q p) 0, rv_eq (Getattr p sb) 0, rv_lt (Getattr q sb) 0]) t S Q)"
proof -
  let ?S = "S\<lparr>nodes := t_move (comps p) (comps q) (nodes S)\<rparr>"
  have len: "length (comps p) = length (comps q)"
    using dir P(5,6) by (metis append_butlast_last_id length_append_singleton)
  have ne: "comps p \<noteq> comps q" using n by auto
  have there: "t_rename (comps p) (comps q) S = (Inr 0, ?S)"
    using n short dir len by (auto simp: t_rename_def t_rename_error_def ret_def)
  have again: "t_rename (comps q) (comps p) ?S = (Inr 0, S)"
    by (rule t_rename_back [OF W P(5,6) short(1) there])
  have m: "nodes ?S (comps q) = nodes S (comps p)" "nodes ?S (comps p) = None"
    using ne len by (simp_all add: t_move_def)
  show ?thesis
    using P n m by (intro rename_steps [OF _ _ _ _ _ there] rename_steps [OF _ _ _ _ _ again] Q) simp_all
qed

lemma test_rename_pass:
  assumes "disk1_state fill S" and "\<And>t'. Q () t' S"
  shows "chk H (test_rename u) t S Q"
  unfolding test_rename_def renames_def chk_statements(4,5) prod.case
  by (intro rename_pair)
     (simp_all add: lit_paths_1 disk1_nodes [OF assms(1)] disk1_lookups disk1_rest [OF assms(1)] assms(2))

text \<open>
  \<open>test_chmod\<close> does not put the modes back: it leaves \<open>/dir2/file.4k+\<close> with mode 0666.
\<close>

definition worn :: "(string \<Rightarrow> nat \<Rightarrow> byte list) \<Rightarrow> fsys \<Rightarrow> fsys" where
  "worn fill S = S\<lparr>nodes := (nodes S)([cstr ''dir2'', cstr ''file.4k+''] \<mapsto>
     File ((item_attrs item_139)\<lparr>a_mode := f_rw\<rparr>) (item_bytes fill item_139))\<rparr>"

lemma chmod_back:
  "chmod_bits O666 (item_attrs item_389) = item_attrs item_389"
  "chmod_bits O666 (item_attrs item_139) = (item_attrs item_139)\<lparr>a_mode := f_rw\<rparr>"
  "chmod_bits m (chmod_bits m' a) = chmod_bits m a"
proof -
  have w: "(((w AND 0xfffff000) OR (0xfff AND m')) AND 0xfffff000) OR (0xfff AND m) = (w AND 0xfffff000) OR (0xfff AND m)"
    for w :: u32
  proof -
    have "(P AND Q) AND R = (R AND P) AND Q" for P Q R :: u32
      by (simp only: and.assoc and.commute and.left_commute)
    then have "(0xfff AND m') AND 0xfffff000 = (0xfffff000 AND 0xfff) AND m'" by blast
    then have z: "(0xfff AND m') AND 0xfffff000 = 0" by simp
    have "((w AND 0xfffff000) OR (0xfff AND m')) AND 0xfffff000 = w AND (0xfffff000 AND 0xfffff000)"
      unfolding bit.conj_disj_distrib2 z or.right_neutral by (simp only: and.assoc)
    then show ?thesis by simp
  qed
  then show "chmod_bits m (chmod_bits m' a) = chmod_bits m a" by (simp add: chmod_bits_def)
qed (simp_all add: chmod_bits_def item_attrs_def)

lemma chmod_mode: "a_mode (chmod_bits m a) = (a_mode a AND 0xfffff000) OR (0xfff AND m)"
  by (simp add: chmod_bits_def)

lemma same_node: "T us = Some nd \<Longrightarrow> T(us \<mapsto> nd) = T"
  by (simp add: fun_upd_idem)

lemma test_chmod_pass:
  assumes "disk1_state fill S" and "\<And>t'. Q () t' (worn fill S)"
  shows "chk H (test_chmod u) t S Q"
proof -
  note n = disk1_nodes [OF assms(1)] disk1_lookups item_node_file
  have "nodes S [cstr ''file.1k''] = Some (File (item_attrs item_389) (item_bytes fill item_389))" by (simp add: n)
  then show ?thesis
    unfolding test_chmod_def chmods_def using assms(2)
    by (simp add: run_test_1 n chmod_back chmod_mode item_nodes same_node worn_def cong: chk_cong after_cong
        del: chk.simps(3) bind.simps One_nat_def)
qed

end
