(* ===== verification/Pass2.thy ===== *)
theory Pass2
  imports Step
begin

text \<open>
  Every test of \<open>test2.c\<close> passes, on the image \<open>gen-disk.py\<close> makes for it.
\<close>

section \<open>The tests, one by one\<close>

lemma create_0_pass:
  assumes "ready H"
  shows "fst (run H (create_0 u) 0 d) = Done ()"
  unfolding create_0_def steps.simps
  by (rule passI [OF assms(1)])
     (use assms in \<open>simp add: run_test cong: chk_cong after_cong del: chk.simps(3) bind.simps One_nat_def\<close>)

lemma create_time_pass:
  assumes "ready H" and "timed H"
  shows "fst (run H (create_time u) 0 d) = Done ()"
  unfolding create_time_def steps.simps
  by (rule passI [OF assms(1)])
     (use assms in \<open>simp add: run_test cong: chk_cong after_cong del: chk.simps(3) bind.simps One_nat_def\<close>)

lemma mkdir_0_pass:
  assumes "ready H"
  shows "fst (run H (mkdir_0 u) 0 d) = Done ()"
  unfolding mkdir_0_def steps.simps
  by (rule passI [OF assms(1)])
     (use assms in \<open>simp add: run_test cong: chk_cong after_cong del: chk.simps(3) bind.simps One_nat_def\<close>)

lemma mkdir_time_pass:
  assumes "ready H" and "timed H"
  shows "fst (run H (mkdir_time u) 0 d) = Done ()"
  unfolding mkdir_time_def steps.simps
  by (rule passI [OF assms(1)])
     (use assms in \<open>simp add: run_test cong: chk_cong after_cong del: chk.simps(3) bind.simps One_nat_def\<close>)

lemma unlink_0_pass:
  assumes "ready H"
  shows "fst (run H (unlink_0 u) 0 d) = Done ()"
  unfolding unlink_0_def steps.simps
  by (rule passI [OF assms(1)])
     (use assms in \<open>simp add: run_test cong: chk_cong after_cong del: chk.simps(3) bind.simps One_nat_def\<close>)

lemma unlink_time_pass:
  assumes "ready H" and "timed H"
  shows "fst (run H (unlink_time u) 0 d) = Done ()"
  unfolding unlink_time_def steps.simps
  by (rule passI [OF assms(1)])
     (use assms in \<open>simp add: run_test cong: chk_cong after_cong del: chk.simps(3) bind.simps One_nat_def\<close>)

lemma mkdir_rmdir_1_pass:
  assumes "ready H"
  shows "fst (run H (mkdir_rmdir_1 u) 0 d) = Done ()"
  unfolding mkdir_rmdir_1_def steps.simps
  by (rule passI [OF assms(1)])
     (use assms in \<open>simp add: run_test cong: chk_cong after_cong del: chk.simps(3) bind.simps One_nat_def\<close>)

lemma mkdir_rmdir_2_pass:
  assumes "ready H"
  shows "fst (run H (mkdir_rmdir_2 u) 0 d) = Done ()"
  unfolding mkdir_rmdir_2_def steps.simps
  by (rule passI [OF assms(1)])
     (use assms in \<open>simp add: run_test cong: chk_cong after_cong del: chk.simps(3) bind.simps One_nat_def\<close>)

lemma mkdir_rmdir_unlink_fail_pass:
  assumes "ready H"
  shows "fst (run H (mkdir_rmdir_unlink_fail u) 0 d) = Done ()"
  unfolding mkdir_rmdir_unlink_fail_def steps.simps
  by (rule passI [OF assms(1)])
     (use assms in \<open>simp add: run_test cong: chk_cong after_cong del: chk.simps(3) bind.simps One_nat_def\<close>)

lemma create_mkdir_unlink_rmdir_1_pass:
  assumes "ready H"
  shows "fst (run H (create_mkdir_unlink_rmdir_1 u) 0 d) = Done ()"
  unfolding create_mkdir_unlink_rmdir_1_def steps.simps
  by (rule passI [OF assms(1)])
     (use assms in \<open>simp add: run_test cong: chk_cong after_cong del: chk.simps(3) bind.simps One_nat_def\<close>)

lemma create_unlink_2_pass:
  assumes "ready H"
  shows "fst (run H (create_unlink_2 u) 0 d) = Done ()"
  unfolding create_unlink_2_def steps.simps
  by (rule passI [OF assms(1)])
     (use assms in \<open>simp add: run_test cong: chk_cong after_cong del: chk.simps(3) bind.simps One_nat_def\<close>)

lemma create_fail_pass:
  assumes "ready H"
  shows "fst (run H (create_fail u) 0 d) = Done ()"
  unfolding create_fail_def steps.simps
  by (rule passI [OF assms(1)])
     (use assms in \<open>simp add: run_test cong: chk_cong after_cong del: chk.simps(3) bind.simps One_nat_def\<close>)

lemma unlink_fail_pass:
  assumes "ready H"
  shows "fst (run H (unlink_fail u) 0 d) = Done ()"
  unfolding unlink_fail_def steps.simps
  by (rule passI [OF assms(1)])
     (use assms in \<open>simp add: run_test cong: chk_cong after_cong del: chk.simps(3) bind.simps One_nat_def\<close>)

lemma rmdir_fail_pass:
  assumes "ready H"
  shows "fst (run H (rmdir_fail u) 0 d) = Done ()"
  unfolding rmdir_fail_def steps.simps
  by (rule passI [OF assms(1)])
     (use assms in \<open>simp add: run_test cong: chk_cong after_cong del: chk.simps(3) bind.simps One_nat_def\<close>)

lemma create_write_unlink_3_pass:
  assumes "ready H" and "length (buf_0 u) = 3000"
  shows "fst (run H (create_write_unlink_3 u) 0 d) = Done ()"
  unfolding create_write_unlink_3_def steps.simps
  by (rule passI [OF assms(1)])
     (use assms in \<open>simp add: run_test cong: chk_cong after_cong del: chk.simps(3) bind.simps One_nat_def\<close>)

lemma utime_0_pass:
  assumes "ready H" and "timed H"
  shows "fst (run H (utime_0 u) 0 d) = Done ()"
  unfolding utime_0_def steps.simps
  by (rule passI [OF assms(1)])
     (use assms in \<open>simp add: run_test cong: chk_cong after_cong del: chk.simps(3) bind.simps One_nat_def\<close>)


section \<open>The tests that write\<close>

lemma write_time_pass:
  assumes "ready H" and "timed H"
  shows "fst (run H (write_time u) 0 d) = Done ()"
  unfolding write_time_def steps.simps
  by (rule passI [OF assms(1)])
     (use assms in \<open>simp add: run_test cong: chk_cong after_cong del: chk.simps(3) bind.simps One_nat_def\<close>)

text \<open>
  The block tests, for any sizes: from a fresh image the file system serves them, and they
  leave as many free blocks as they found.
\<close>

lemma leaves_pass:
  assumes "ready H"
    and p: "\<And>a sz sp Q. (\<And>T t r. r = 32764 \<Longrightarrow> Q () t \<lparr>nodes = T, room = r, super = sp\<rparr>) \<Longrightarrow>
      chk H p 3 \<lparr>nodes = [[] \<mapsto> Dir a sz (replicate 128 None)], room = 32764, super = sp\<rparr> Q"
  shows "fst (run H (leaves_no_blocks u p) 0 d) = Done ()"
  unfolding leaves_no_blocks_def
proof (rule passI [OF assms(1)])
  fix a sz and sp :: fs_super assume s: "magic sp = FS_MAGIC" "disk_size sp = 400"
  show "chk H (start_blocks u (\<lambda>blks. steps [p, check_blocks u blks])) 2
      \<lparr>nodes = [[] \<mapsto> Dir a sz (replicate 128 None)], room = 32764, super = sp\<rparr> (\<lambda>_ _ _. True)"
    unfolding chk_blocks(1) chk_statements Suc_numeral semiring_norm
    by (rule p) (simp add: run_test s del: chk.simps(3) bind.simps One_nat_def)
qed

lemma few_blocks: "n \<le> 4096 * 1019 \<Longrightarrow> blocks_for n \<le> 1019"
  using blocks_for_mono [of n "4096 * 1019"] by (simp add: blocks_for_run)

lemma do_write_test_pass:
  assumes "ready H" and "0 < n" and "n \<le> 4096 * 1019"
  shows "fst (run H (leaves_no_blocks u (do_write_test u n)) 0 d) = Done ()"
proof (rule leaves_pass [OF assms(1)])
  fix a sz sp Q assume Q: "\<And>T (t :: nat) r. r = 32764 \<Longrightarrow> Q () t \<lparr>nodes = T, room = r, super = sp\<rparr>"
  obtain r where r: "32764 = 6 * (blocks_for n + 1) + r"
    using few_blocks [OF assms(3)] le_iff_add [of "6 * (blocks_for n + 1)" 32764] by auto
  show "chk H (do_write_test u n) 3 \<lparr>nodes = [[] \<mapsto> Dir a sz (replicate 128 None)], room = 32764, super = sp\<rparr> Q"
    unfolding do_write_test_def write_table_def r
    by (use assms(2,3) in \<open>simp add: run_test same_bytes_def S_ISREG_def cong: chk_cong after_cong del: chk.simps(3) bind.simps One_nat_def\<close>)
       (rule Q, simp add: r)
qed

lemma overwritten:
  assumes "off + len \<le> sz" and "sz \<le> length p" and "len \<le> length q"
  shows "take sz (memcpy_at p off q len) = splice off (take len q) (take sz p)"
proof -
  obtain k where k: "sz = off + len + k" using assms(1) le_iff_add by auto
  have "drop (off + len) (take (off + len + k) p) = take k (drop (off + len) p)" by (simp add: drop_take)
  then show ?thesis using assms(2,3) by (simp add: k memcpy_at_def splice_def min_def)
qed

lemma do_overwrite_test_pass:
  assumes "ready H" and "0 < sz" and "sz \<le> 4096 * 1019" and "off + len \<le> sz"
  shows "fst (run H (leaves_no_blocks u (do_overwrite_test u ''/file7'' sz off len)) 0 d) = Done ()"
proof (rule leaves_pass [OF assms(1)])
  fix a s sp Q assume Q: "\<And>T (t :: nat) r. r = 32764 \<Longrightarrow> Q () t \<lparr>nodes = T, room = r, super = sp\<rparr>"
  obtain r where r: "32764 = blocks_for sz + 1 + r"
    using few_blocks [OF assms(3)] le_iff_add [of "blocks_for sz + 1" 32764] by auto
  have "blocks_for (off + len) \<le> blocks_for sz" using assms(4) by (rule blocks_for_mono)
  then show "chk H (do_overwrite_test u ''/file7'' sz off len) 3 \<lparr>nodes = [[] \<mapsto> Dir a s (replicate 128 None)], room = 32764, super = sp\<rparr> Q"
    unfolding do_overwrite_test_def r
    using assms(2-4)
    by (simp add: run_test same_bytes_def S_ISREG_def overwritten length_splice Q r cong: chk_cong after_cong del: chk.simps(3) bind.simps One_nat_def)
qed

lemma cross_eof_pass:
  assumes "ready H"
  shows "fst (run H (cross_eof u) 0 d) = Done ()"
  unfolding cross_eof_def
  by (rule leaves_pass [OF assms(1)])
     (simp add: run_test same_bytes_def S_ISREG_def splice_def length_splice cong: chk_cong after_cong del: chk.simps(3) bind.simps One_nat_def)

lemma truncate_test_pass:
  assumes "ready H"
  shows "fst (run H (truncate_test u) 0 d) = Done ()"
  unfolding truncate_test_def
  by (rule leaves_pass [OF assms(1)])
     (simp add: run_test cong: chk_cong after_cong del: chk.simps(3) bind.simps One_nat_def)

end
