(* ===== verification/Disk2.thy ===== *)
theory Disk2
  imports Step Describe
begin

text \<open>
  The image \<open>gen-disk.py\<close> makes of \<open>disk2.in\<close>: a root directory (inode 2, block 399) whose two
  entries are not valid. It is consistent and stands for a tree with an empty root.
\<close>

definition disk2_root :: item where
  "disk2_root = \<lparr>i_num = 2, i_name = ''/'', i_uid = 0, i_gid = 0, i_mode = 0x41FF, i_ctime = 1565283152,
     i_mtime = 1565283167, i_size = 4096, i_blocks = [399],
     i_entries = Some [(False, ''nothing'', 0), (False, ''nothing'', 0)]\<rparr>"

definition disk2_image :: disk where
  "disk2_image = gen_disk (\<lambda>nm k. zero_block) 400 [disk2_root]"

text \<open>
  The lines of \<open>disk2.in\<close>. There are no files, and so no letters in the image.
\<close>

definition disk2_in :: "string list" where
  "disk2_in = [
    ''# if line[0] = '$', then variable assignment dict[sym] = int(val,0)'',
    ''#'',
    ''$t1 1565283152'',
    ''$t2 1565283167'',
    ''$root 0'',
    ''$user 500'',
    ''$d_rwx  040777'',
    ''$f_rwx 0100777'',
    ''$f_rw  0100666'',
    ''$f_urw 0100600'',
    '''',
    ''size 400'',
    '''',
    ''# / 4096 '',
    '''',
    ''# type inode name uid gid mode ctime mtime size blocks [entries]'',
    '''',
    ''dir 2 / $root $root $d_rwx $t1 $t2 4096 399 -nothing -nothing'']"

lemma disk2_described: "describe disk2_in = Some (400, [disk2_root])"
  by (simp add: describe_def disk2_in_def disk2_root_def parse_rules)

lemma disk2_generated [simp]: "generated fill disk2_in = Some disk2_image"
proof -
  have "item_block fill disk2_root = item_block (\<lambda>nm k. zero_block) disk2_root"
    by (simp add: item_block_def disk2_root_def fun_eq_iff)
  then have "cells fill disk2_root = cells (\<lambda>nm k. zero_block) disk2_root" by (simp add: cells_def)
  then show ?thesis by (simp add: generated_def disk2_described disk2_image_def gen_disk_def cong: if_cong option.case_cong)
qed

lemma disk2_wf: "wf_items 400 [disk2_root]" "ok_fill (\<lambda>nm k. zero_block)"
  by (simp_all add: wf_items_def wf_item_def disk2_root_def numbers_def item_children_def child_list_def name_ok_def
      S_ISDIR_def ok_fill_def zero_block_def)

lemma disk2_live: "live [disk2_root] = {2}"
  by (simp add: live_def disk2_root_def)

lemma disk2_consistent: "consistent {2} disk2_image"
  using gen_disk_consistent [OF disk2_wf] by (simp add: disk2_image_def disk2_live)

lemma disk2_is_state: "disk2_state (fsys_of {2} disk2_image)"
proof -
  note f = fsys_of_gen [OF disk2_wf, folded disk2_image_def, unfolded disk2_live]
  have "nodes (fsys_of {2} disk2_image) us = [[] \<mapsto> Dir (item_attrs disk2_root) 4096 (replicate 128 None)] us" for us
  proof -
    obtain ss where us: "us = map cstr ss" using cstr_onto by metis
    have "lookup_item [disk2_root] 2 ss = (if ss = [] then Some disk2_root else None)"
      by (cases ss) (simp_all add: lookup_item.simps numbered_def disk2_root_def item_children_def child_list_def)
    moreover have "item_node (\<lambda>nm k. zero_block) disk2_root = Dir (item_attrs disk2_root) 4096 (replicate 128 None)"
      by (simp add: item_node_def disk2_root_def numeral_eq_Suc item_attrs_def)
    ultimately show ?thesis using f(1) [of ss] by (simp add: us)
  qed
  then have "nodes (fsys_of {2} disk2_image) = [[] \<mapsto> Dir (item_attrs disk2_root) 4096 (replicate 128 None)]" by blast
  moreover have "length (numbers [disk2_root]) = 2" by (simp add: numbers_def disk2_root_def)
  ultimately show ?thesis using f(2,3) by (auto simp: disk2_state_def)
qed

text \<open>A host on which \<open>gen-disk.py\<close> has just run.\<close>

definition on_disk2 :: "host \<Rightarrow> bool" where
  "on_disk2 H \<longleftrightarrow> wf_host H \<and> images H (cstr ''test2.img'') = generated (\<lambda>nm k. zero_block) disk2_in"

lemma on_disk2_ready: "on_disk2 H \<Longrightarrow> ready H"
proof -
  assume h: "on_disk2 H"
  have "drop 5 (cstr ''test2.img'') = img_suffix" by (simp add: cstr_def img_suffix_def of_char_def)
  then have "block_init (images H) (cstr ''test2.img'') = Inr disk2_image"
    using h by (simp add: block_init_def on_disk2_def numeral_eq_Suc)
  then show ?thesis using h disk2_consistent disk2_is_state by (auto simp: ready_def on_disk2_def)
qed

end
