(* ===== verification/Suite2.thy ===== *)
theory Suite2
  imports Pass2 Disk2
begin

text \<open>
  The suite of \<open>test2.c\<close> as a whole, and the loop of \<open>_do_write\<close>: it ends on any disk when
  the block size is positive, and does not end when it is zero.
\<close>

section \<open>The loop of \<open>_do_write\<close>\<close>

lemma run_rv_eq:
  "run H (bind (rv_eq r n) f) t d = (case fs_ops (env_at H t) r d of
     (Inl s, d') \<Rightarrow> (Ended s, d')
   | (Inr x, d') \<Rightarrow> if code x = n then run H (f ()) (Suc t) d' else (Faulty Check_failed, d'))"
  by (simp add: rv_eq_def ck_assert_def split: prod.split sum.split)

lemma write_steps_ends:
  assumes "0 < b"
  shows "len \<le> fuel \<Longrightarrow> fst (run H (write_steps fuel p buf len b off) t d) \<noteq> Faulty Endless"
proof (induction fuel arbitrary: buf len off t d)
  case 0
  then show ?case by simp
next
  case (Suc fuel)
  define n where "n = (if b < len then b else len)"
  show ?case
  proof (cases "0 < len")
    case True
    then have "0 < n" using assms by (simp add: n_def)
    then have "fst (run H (write_steps fuel p (drop n buf) (len - n) b (off + n)) (Suc t) d') \<noteq> Faulty Endless" for d'
      using Suc.prems by (intro Suc.IH) simp
    then show ?thesis
      using True by (simp add: run_rv_eq Let_def n_def [symmetric] del: fs_ops.simps split: prod.split sum.split)
  qed simp
qed

lemma write_steps_endless:
  assumes "wf_host H" and "canonical p" and "0 < len"
  shows "consistent N d \<Longrightarrow> tree_of N d (comps p) = Some (File a c) \<Longrightarrow>
    fst (run H (write_steps fuel p buf len 0 0) t d) = Faulty Endless"
proof (induction fuel arbitrary: N d a t)
  case 0
  then show ?case using assms(3) by simp
next
  case (Suc fuel)
  let ?S = "(fsys_of N d)\<lparr>nodes := (tree_of N d)(comps p \<mapsto> File (a\<lparr>a_mtime := now (env_at H t)\<rparr>) c)\<rparr>"
  have "tree_ops (env_at H t) (Write p [] 0) (fsys_of N d) = (Inr (RCode 0), ?S)"
    using Suc.prems(2) by (simp add: andThen_def t_write_def ret_def blocks_for_run splice_def)
  then have R: "refines hide_reply (fs_ops (env_at H t) (Write p [] 0) d) (Inr (RCode 0), ?S)"
    using request_refines [OF Suc.prems(1) wf_env_at [OF assms(1)], of "Write p [] 0" t] assms(2) by simp
  then obtain d' N' where f: "fs_ops (env_at H t) (Write p [] 0) d = (Inr (RCode 0), d')"
    and C: "consistent N' d'" and S: "fsys_of N' d' = ?S"
    by (cases "fs_ops (env_at H t) (Write p [] 0) d") (auto simp: refines_def hide_code map_sum_def split: sum.splits)
  have "tree_of N' d' (comps p) = Some (File (a\<lparr>a_mtime := now (env_at H t)\<rparr>) c)"
    using arg_cong [OF S, of nodes] by simp
  from Suc.IH [OF C this] show ?case using assms(3) by (simp add: run_rv_eq f del: fs_ops.simps)
qed

lemma do_write_ends: "0 < b \<Longrightarrow> fst (run H (do_write p buf len b) t d) \<noteq> Faulty Endless"
  unfolding do_write_def by (rule write_steps_ends) simp_all

section \<open>All tests\<close>

definition passes :: "(locals \<Rightarrow> unit prog) \<Rightarrow> bool" where
  "passes p \<longleftrightarrow> (\<forall>H u d. on_disk2 H \<longrightarrow> timed H \<longrightarrow> length (buf_0 u) = 3000 \<longrightarrow> fst (run H (p u) 0 d) = Done ())"

lemma passesI:
  assumes "\<And>H u d. ready H \<Longrightarrow> timed H \<Longrightarrow> length (buf_0 u) = 3000 \<Longrightarrow> fst (run H (p u) 0 d) = Done ()"
  shows "passes p"
  using assms on_disk2_ready by (simp add: passes_def)

lemma writes_pass:
  assumes "ready H"
  shows "fst (run H (write_4091 u) 0 d) = Done ()" and "fst (run H (write_4096 u) 0 d) = Done ()"
    and "fst (run H (write_4200 u) 0 d) = Done ()" and "fst (run H (write_8190 u) 0 d) = Done ()"
    and "fst (run H (write_12300 u) 0 d) = Done ()"
  unfolding write_4091_def write_4096_def write_4200_def write_8190_def write_12300_def
  by (rule do_write_test_pass [OF assms]; simp)+

lemma overwrites_pass:
  assumes "ready H"
  shows "fst (run H (overwrite_1 u) 0 d) = Done ()" and "fst (run H (overwrite_2 u) 0 d) = Done ()"
    and "fst (run H (overwrite_3 u) 0 d) = Done ()"
  unfolding overwrite_1_def overwrite_2_def overwrite_3_def
  by (rule do_overwrite_test_pass [OF assms]; simp)+

lemmas test_passes = create_0_pass create_time_pass mkdir_0_pass mkdir_time_pass unlink_0_pass unlink_time_pass
  mkdir_rmdir_1_pass mkdir_rmdir_2_pass mkdir_rmdir_unlink_fail_pass create_mkdir_unlink_rmdir_1_pass
  create_unlink_2_pass create_fail_pass unlink_fail_pass rmdir_fail_pass writes_pass write_time_pass
  create_write_unlink_3_pass overwrites_pass cross_eof_pass truncate_test_pass utime_0_pass

lemma test2_suite_passes: "p \<in> set test2_suite \<Longrightarrow> passes p"
  unfolding test2_suite_def list.set insert_iff empty_iff
  by (elim disjE; (simp only:)?; (rule passesI)?; (rule test_passes)?; assumption?)

text \<open>A host to run the tests on.\<close>

definition demo_host :: host where
  "demo_host = \<lparr>clock = (\<lambda>t. 1000), frames = (\<lambda>t v. zero_block), entropy = (\<lambda>t. int t),
     images = [cstr ''test2.img'' \<mapsto> disk2_image]\<rparr>"

definition demo_locals :: locals where
  "demo_locals = \<lparr>sb_0 = node_stat (File (item_attrs disk2_root) []),
     sv_0 = \<lparr>f_bsize = 0, f_namemax = 0, f_blocks = 0, f_bfree = 0, f_bavail = 0\<rparr>, buf_0 = replicate 3000 0\<rparr>"

lemma demo_host_ok [simp]: "on_disk2 demo_host" "timed demo_host" "wf_host demo_host" "length (buf_0 demo_locals) = 3000"
  by (simp_all add: on_disk2_def wf_host_def demo_host_def timed_def demo_locals_def zero_block_def)

end
