(* ===== verification/Suite1.thy ===== *)
theory Suite1
  imports Pass1 Suite2
begin

text \<open>
  The suite of \<open>test1.c\<close> as a whole: it passes on a fresh image, and not a second time on the
  same image. The loop of \<open>read_n_at_a_time\<close> on any file, for any positive chunk.
\<close>

section \<open>The suite in order\<close>

text \<open>A host on which \<open>gen-disk.py\<close> has just run on \<open>disk1.in\<close>.\<close>

definition on_disk1 :: "(string \<Rightarrow> nat \<Rightarrow> byte list) \<Rightarrow> host \<Rightarrow> bool" where
  "on_disk1 fill H \<longleftrightarrow> wf_host H \<and> ok_fill fill \<and> images H (cstr ''test.img'') = generated fill disk1_in"

lemma open_disk1:
  assumes "on_disk1 fill H"
  shows "block_init (images H) (cstr ''test.img'') = Inr (disk1_image fill)"
proof -
  have "drop 4 (cstr ''test.img'') = img_suffix" by (simp add: cstr_def img_suffix_def of_char_def)
  then show ?thesis using assms by (simp add: block_init_def on_disk1_def numeral_eq_Suc)
qed

lemma init_fs_runs:
  assumes "on_disk1 fill H" and k: "\<And>t S. disk1_state fill S \<Longrightarrow> chk H (k ()) t S (\<lambda>x t S. x = y)"
  shows "fst (run H (bind init_fs k) 0 d) = Done y"
proof -
  have h: "wf_host H" "ok_fill fill" using assms(1) by (simp_all add: on_disk1_def)
  note b = open_disk1 [OF assms(1)]
  note D = disk1_is_state [OF h(2)]
  let ?S = "fsys_of (live disk1_items) (disk1_image fill)"
  have "chk H (bind (Call Init (\<lambda>x. Return ())) k) 1 ?S (\<lambda>x t S. x = y)"
    using k [OF D(2)] disk1_rest(3) [OF D(2)] by (simp add: chk_init del: chk.simps(3))
  from chk_sound [OF h(1) D(1) this] show ?thesis by (auto simp: init_fs_def b)
qed

lemma suite_chk:
  assumes "ok_fill fill" and "crc_ok crc32 fill" and "\<And>n. ok_heap (us n)" and "disk1_state fill S"
    and "\<And>t'. Q () t' (worn fill S)"
  shows "chk H (in_turn (test1_suite crc32) us) t S Q"
  unfolding test1_suite_def in_turn.simps chk_bind
  by (intro test_statvfs_pass [OF assms(4)] getattr_pass [OF assms(1,4)] path_errs_pass [OF assms(4)]
      readdir_badpath_pass [OF assms(4)] readdir_pass [OF assms(4)] read_badpath_pass [OF assms(4)]
      read_little_pass [OF assms(1-3) assms(4)] read_big_pass [OF assms(1-3) assms(4)] test_rename_pass [OF assms(4)]
      test_bad_rename_pass [OF assms(4)] test_bad_chmod_pass [OF assms(4)] test_chmod_pass [OF assms(4)])
     (simp add: assms(5))

lemma suite1_passes:
  assumes "on_disk1 fill H" and "crc_ok crc32 fill" and "\<And>n. ok_heap (us n)"
  shows "fst (run H (bind init_fs (\<lambda>_. in_turn (test1_suite crc32) us)) 0 d) = Done ()"
proof -
  have "ok_fill fill" using assms(1) by (simp add: on_disk1_def)
  then show ?thesis using assms by (intro init_fs_runs suite_chk) simp_all
qed

section \<open>A second time\<close>

text \<open>The fault a program ends with, as a result.\<close>

primrec attempt :: "'a prog \<Rightarrow> fault option prog" where
  "attempt (Return x) = Return None"
| "attempt (Stuck w) = Return (Some w)"
| "attempt (Call r k) = Call r (\<lambda>x. attempt (k x))"
| "attempt (Open nm p) = Open nm (attempt p)"
| "attempt (Time k) = Time (\<lambda>x. attempt (k x))"
| "attempt (Random k) = Random (\<lambda>x. attempt (k x))"
| "attempt (Sleep n p) = Sleep n (attempt p)"

lemma run_attempt: "fst (run H (attempt p) t d) = Done (Some w) \<Longrightarrow> fst (run H p t d) = Faulty w"
  by (induction p arbitrary: t d) (auto split: prod.splits sum.splits)

lemma attempt_bind:
  "chk H p t S (\<lambda>x t S. chk H (attempt (f x)) t S Q) \<Longrightarrow> chk H (attempt (bind p f)) t S Q"
  by (induction p arbitrary: t S) (fastforce split: prod.splits sum.splits)+

lemma attempt_first:
  "chk H (attempt p) t S (\<lambda>x t S. x = Some w) \<Longrightarrow> chk H (attempt (bind p f)) t S (\<lambda>x t S. x = Some w)"
  by (induction p arbitrary: t S) (fastforce split: prod.splits sum.splits)+

lemma attempt_check: "attempt (bind (ck_assert b) f) = (if b then attempt (f ()) else Return (Some Check_failed))"
  by (simp add: ck_assert_def)

lemma each_append: "each (xs @ ys) f = bind (each xs f) (\<lambda>_. each ys f)"
  by (induction xs) (simp_all add: bind_assoc)

lemma chk_each:
  "(\<And>x t. x \<in> set xs \<Longrightarrow> chk H (f x) t S (\<lambda>_ t' S'. S' = S)) \<Longrightarrow> chk H (each xs f) t S (\<lambda>_ t' S'. S' = S)"
  by (induction xs arbitrary: t) (auto intro: chk_mono)

text \<open>The first seven rows of the table are as before, the eighth is not.\<close>

lemma getattr_worn:
  assumes "ok_fill fill" and "disk1_state fill S"
  shows "chk H (attempt (getattr u)) t (worn fill S) (\<lambda>x t S. x = Some Check_failed)"
proof -
  define f where "f p = stat_ok (vars u) (pl_path p) (\<lambda>sb. steps [
     ck_assert (uint (st_uid sb) = pl_uid p), ck_assert (uint (st_gid sb) = pl_gid p),
     ck_assert (uint (st_mode sb) = pl_mode p), ck_assert (st_size sb = pl_size p)])" for p :: path_list
  define bad where "bad = row ''/dir2/file.4k+'' 500 500 0x81FF 4098 1565283152 1565283167"
  have split: "paths = take 7 paths @ bad # drop 8 paths" by (simp add: paths_def bad_def)
  have "x \<in> set disk1_items \<Longrightarrow> node_size (item_node fill x) = sint (i_size x)" for x
    by (rule item_size(1) [OF assms(1)])
  then have row: "chk H (f p) t (worn fill S) (\<lambda>_ t' S'. S' = worn fill S)" if "p \<in> set (take 7 paths)" for p t
    using that unfolding paths_def
    by (simp, elim disjE; hypsubst; unfold f_def row_def worn_def; simp add: run_test_1 disk1_nodes [OF assms(2)] disk1_lookups item_nodes
      cong: chk_cong after_cong del: chk.simps(3) bind.simps One_nat_def)
  have first: "chk H (each (take 7 paths) f) t (worn fill S) (\<lambda>_ t' S'. S' = worn fill S)"
    by (rule chk_each [OF row])
  have "chk H (attempt (f bad)) t' (worn fill S) (\<lambda>x t S. x = Some Check_failed)" for t'
    by (simp add: f_def stat_ok_def bad_def row_def attempt_check chk_getattr served_lit lit_paths_1 t_getattr_def worn_def
        after_ret node_stat_fields item_nodes del: chk.simps(3))
  then have eighth: "chk H (attempt (bind (f bad) k)) t' (worn fill S) (\<lambda>x t S. x = Some Check_failed)" for t' and k :: "unit \<Rightarrow> unit prog"
    by (rule attempt_first)
  have "getattr u = bind (each (take 7 paths) f) (\<lambda>_. bind (f bad) (\<lambda>_. each (drop 8 paths) f))"
    unfolding getattr_def f_def [symmetric] by (subst split) (simp add: each_append)
  moreover have "chk H (attempt (bind (each (take 7 paths) f) (\<lambda>_. bind (f bad) (\<lambda>_. each (drop 8 paths) f)))) t (worn fill S)
      (\<lambda>x t S. x = Some Check_failed)"
    by (rule attempt_bind, rule chk_mono [OF first]) (simp add: eighth)
  ultimately show ?thesis by simp
qed

lemma suite1_spoils:
  assumes "on_disk1 fill H" and "crc_ok crc32 fill" and "\<And>n. ok_heap (us n)"
  shows "fst (run H (bind init_fs (\<lambda>_. bind (in_turn (test1_suite crc32) us) (\<lambda>_. getattr u))) 0 d) = Faulty Check_failed"
proof -
  have F: "ok_fill fill" using assms(1) by (simp add: on_disk1_def)
  have "fst (run H (bind init_fs (\<lambda>_. attempt (bind (in_turn (test1_suite crc32) us) (\<lambda>_. getattr u)))) 0 d)
      = Done (Some Check_failed)"
  proof (rule init_fs_runs [OF assms(1)])
    fix t S assume S: "disk1_state fill S"
    show "chk H (attempt (bind (in_turn (test1_suite crc32) us) (\<lambda>_. getattr u))) t S (\<lambda>x t S. x = Some Check_failed)"
      by (rule attempt_bind, rule suite_chk [OF F assms(2,3) S], rule getattr_worn [OF F S])
  qed
  then have "fst (run H (attempt (bind init_fs (\<lambda>_. bind (in_turn (test1_suite crc32) us) (\<lambda>_. getattr u)))) 0 d)
      = Done (Some Check_failed)"
    by (simp add: init_fs_def del: run.simps)
  then show ?thesis by (rule run_attempt)
qed

section \<open>Reading in pieces\<close>

lemma reads_in_pieces:
  assumes "wf_host H" and "canonical p" and C: "consistent N d" and "tree_of N d (comps p) = Some (File a c)"
    and "0 < chunk" and "length c \<le> length buf"
  shows "fst (run H (read_n_at_a_time p buf chunk (length c)) t d) = Done (c @ drop (length c) buf)"
proof -
  have "nodes (fsys_of N d) (comps p) = Some (File a c)" using assms(4) by (simp add: fsys_of_def)
  then have "chk H (read_n_at_a_time p buf chunk (length c)) t (fsys_of N d) (\<lambda>x t S. x = c @ drop (length c) buf)"
    using assms by (intro read_n_at_a_time_reads [where a = a]) simp_all
  from chk_sound [OF assms(1) C this] show ?thesis by auto
qed

section \<open>The main program\<close>

text \<open>What is taken of libcheck: when the tests, run one after the other, all pass, none is reported
  as failed.\<close>

definition runs_in_turn :: "host \<Rightarrow> ((locals1 \<Rightarrow> unit prog) list \<Rightarrow> nat prog) \<Rightarrow> bool" where
  "runs_in_turn H srunner \<longleftrightarrow> (\<forall>ps t d. (\<forall>us. (\<forall>n. ok_heap (us n)) \<longrightarrow> fst (run H (in_turn ps us) t d) = Done ())
     \<longrightarrow> fst (run H (srunner ps) t d) = Done 0)"

lemma run_bind_Return: "fst (run H p t d) = Done x \<Longrightarrow> fst (run H (bind p (\<lambda>x. Return (f x))) t d) = Done (f x)"
  by (induction p arbitrary: t d) (auto split: prod.splits sum.splits)

lemma test1_main_returns:
  assumes "on_disk1 fill H" and "crc_ok crc32 fill" and "runs_in_turn H srunner"
  shows "fst (run H (test1_main srunner crc32) 0 d) = Done 0"
proof -
  note b = open_disk1 [OF assms(1)]
  have "fst (run H (bind init_fs (\<lambda>_. Return ())) 0 d) = Done ()" by (rule init_fs_runs [OF assms(1)]) simp
  then obtain x d1 where i: "fs_ops (env_at H (Suc 0)) Init (disk1_image fill) = (Inr x, d1)"
    by (auto simp: init_fs_def b simp del: fs_ops.simps split: prod.splits sum.splits)
  have r: "run H (bind init_fs k) 0 d = run H (k ()) 2 d1" for k :: "unit \<Rightarrow> 'x prog"
    using i by (simp add: init_fs_def b numeral_2_eq_2 del: fs_ops.simps)
  have "fst (run H (in_turn (test1_suite crc32) us) 2 d1) = Done ()" if "\<forall>n. ok_heap (us n)" for us
    using suite1_passes [OF assms(1,2), of us d] that by (simp add: r)
  then have "fst (run H (srunner (test1_suite crc32)) 2 d1) = Done 0"
    using assms(3) by (simp add: runs_in_turn_def)
  from run_bind_Return [OF this, of "\<lambda>n. if n = 0 then 0 else 1"]
  show ?thesis by (simp add: test1_main_def r)
qed

section \<open>A host to run the tests on\<close>

definition demo_fill :: "string \<Rightarrow> nat \<Rightarrow> byte list" where
  "demo_fill nm k = replicate 4096 (word_of_nat (length nm))"

definition demo_crc32 :: "byte list \<Rightarrow> u32" where
  "demo_crc32 bs = (case map_of (map (\<lambda>(ck, n, p). ((n, word_of_nat (length p)), ck)) cksums) (length bs, hd bs) of
     Some ck \<Rightarrow> ck | None \<Rightarrow> 0)"

definition demo_host1 :: host where
  "demo_host1 = demo_host\<lparr>images := [cstr ''test.img'' \<mapsto> disk1_image demo_fill]\<rparr>"

definition demo_locals1 :: locals1 where
  "demo_locals1 = \<lparr>vars = demo_locals, heap = (\<lambda>n. replicate n 0)\<rparr>"

lemma demo1_ok [simp]: "on_disk1 demo_fill demo_host1" "ok_fill demo_fill" "ok_heap demo_locals1" "wf_host demo_host1"
  using demo_host_ok(3)
  by (simp_all add: on_disk1_def demo_host1_def ok_fill_def demo_fill_def ok_heap_def demo_locals1_def wf_host_def)

lemma demo_bytes:
  assumes "0 < nat (sint (i_size x))" and "i_blocks x \<noteq> []"
  shows "hd (item_bytes demo_fill x) = word_of_nat (length (i_name x))"
proof -
  obtain b bs where "i_blocks x = b # bs" using assms(2) by (cases "i_blocks x") simp_all
  then have "concat (map (demo_fill (i_name x)) [0..<length (i_blocks x)]) =
      word_of_nat (length (i_name x)) # replicate 4095 (word_of_nat (length (i_name x)))
        @ concat (map (demo_fill (i_name x)) [1..<Suc (length bs)])"
    by (simp add: upt_conv_Cons demo_fill_def del: upt_Suc replicate.simps flip: replicate_Suc)
  then show ?thesis using assms(1) by (cases "nat (sint (i_size x))") (simp_all add: item_bytes_def)
qed

lemma demo_heads:
  "hd (item_bytes demo_fill item_389) = 8" "hd (item_bytes demo_fill item_268) = 8" "hd (item_bytes demo_fill item_327) = 29"
  "hd (item_bytes demo_fill item_55) = 33" "hd (item_bytes demo_fill item_139) = 14" "hd (item_bytes demo_fill item_188) = 21"
  "hd (item_bytes demo_fill item_21) = 21" "hd (item_bytes demo_fill item_71) = 21" "hd (item_bytes demo_fill item_146) = 15"
  "hd (item_bytes demo_fill item_59) = 9"
  by (subst demo_bytes; simp add: disk1_defs)+

lemma demo_crc_ok [simp]: "crc_ok demo_crc32 demo_fill"
  unfolding crc_ok_def disk1_bytes_def
  by (simp add: cksums_def disk1_lookups)
     (simp add: demo_crc32_def cksums_def disk1_file_size [OF demo1_ok(2)] demo_heads)

lemma demo_runner [simp]: "runs_in_turn H (\<lambda>ps. bind (in_turn ps (\<lambda>n. demo_locals1)) (\<lambda>x. Return 0))"
  unfolding runs_in_turn_def
  by (intro allI impI run_bind_Return [where f = "\<lambda>x. 0", simplified]) simp

end
