(* ===== verification/FurtherPrograms.thy ===== *)
theory FurtherPrograms
  imports Lab4fuse Suite1 Suite2 Sample
begin

text \<open>
  Further theorems on sessions and on the programs around the file system.
\<close>

text \<open>
  A session without init, create, mkdir, write and renames to overlong names serves every
  request: the process does not stop.
\<close>

theorem harmless_sessions_finish:
  assumes "list_all good rs" and "consistent N d" and "\<forall>r\<in>snd ` set rs. harmless r"
  shows "\<exists>xs d' N'. session rs d = (Inr xs, d') \<and> length xs = length rs \<and> consistent N' d'"
  using assms by (rule session_harmless)

theorem harmless_sessions_finish_witness:
  "\<exists>xs d' N'. session [(sample_env, Unlink [47, 97]), (sample_env, Rmdir [47, 101])] sample = (Inr xs, d')
    \<and> length xs = 2 \<and> consistent N' d'"
  using harmless_sessions_finish [of "[(sample_env, Unlink [47, 97]), (sample_env, Rmdir [47, 101])]" sample_live sample]
    sample_consistent by (simp add: good_def eval_nat_numeral)

text \<open>
  The test of overwriting, for any sizes: a file of \<open>sz\<close> random bytes of which \<open>len\<close> are
  overwritten at an offset, within the file, reads back as \<open>memcpy\<close> on the data says, and
  removing it frees its blocks.
\<close>

theorem overwritten_files_read_back:
  assumes "on_disk2 H" and "0 < sz" and "sz \<le> 4096 * 1019" and "off + len \<le> sz"
  shows "fst (run H (leaves_no_blocks u (do_overwrite_test u ''/file7'' sz off len)) 0 d) = Done ()"
  using on_disk2_ready [OF assms(1)] assms(2-4) by (rule do_overwrite_test_pass)

theorem overwritten_files_read_back_witness:
  "fst (run demo_host (leaves_no_blocks demo_locals (do_overwrite_test demo_locals ''/file7'' 9000 4000 5000)) 0 sample) = Done ()"
  by (rule overwritten_files_read_back) simp_all

text \<open>
  \<open>lab4fuse\<close> with a number of arguments other than three, or with options the parser refuses,
  prints the usage text and exits with status 1; with a name that \<open>block_init\<close> refuses it exits
  with status 1. No image is opened, \<open>fuse_main\<close> is not called.
\<close>

theorem lab4fuse_checks_arguments:
  "(length argv \<noteq> 4 \<or> fuse_opt_parse opts data_0 argv = None \<longrightarrow>
      lab4_main fuse_opt_parse host fuse_main argv s = (Inl (Exit 1), snd (usage s)))
   \<and> (length argv = 4 \<longrightarrow> fuse_opt_parse opts data_0 argv = Some (dat, args) \<longrightarrow> image_name dat = Some nm \<longrightarrow>
      length nm < 4 \<or> drop (length nm - 4) nm \<noteq> img_suffix \<or> host nm = None \<longrightarrow>
      lab4_main fuse_opt_parse host fuse_main argv s = (Inl (Exit 1), s))"
  using lab4_main_usage [of argv fuse_opt_parse host fuse_main s]
    lab4_main_no_image [of argv fuse_opt_parse dat args nm host "Exit 1" fuse_main s]
  by (auto simp: block_init_def)

theorem lab4fuse_checks_arguments_witness:
  "lab4_main (\<lambda>_ _ _. None) Map.empty (\<lambda>_ _ d. (Inr 0, d)) [[108]] \<lparr>printed = [], image = None\<rparr> =
     (Inl (Exit 1), snd (usage \<lparr>printed = [], image = None\<rparr>))
   \<and> lab4_main (\<lambda>_ z argv. Some (z\<lparr>image_name := Some (argv ! 2)\<rparr>, argv)) Map.empty (\<lambda>_ _ d. (Inr 0, d))
       [[108], [45], [97, 46, 105, 109, 103], [109]] \<lparr>printed = [], image = None\<rparr> =
     (Inl (Exit 1), \<lparr>printed = [], image = None\<rparr>)"
  using lab4fuse_checks_arguments [of "[[108]]" "\<lambda>_ _ _. None" Map.empty "\<lambda>_ _ d. (Inr 0, d)" "\<lparr>printed = [], image = None\<rparr>"]
    lab4fuse_checks_arguments [of "[[108], [45], [97, 46, 105, 109, 103], [109]]"
      "\<lambda>_ z argv. Some (z\<lparr>image_name := Some (argv ! 2)\<rparr>, argv)" Map.empty "\<lambda>_ _ d. (Inr 0, d)"
      "\<lparr>printed = [], image = None\<rparr>" "data_0\<lparr>image_name := Some [97, 46, 105, 109, 103]\<rparr>"
      "[[108], [45], [97, 46, 105, 109, 103], [109]]" "[97, 46, 105, 109, 103]"]
  by simp

text \<open>
  The two test programs return \<open>EXIT_SUCCESS\<close>, given what libcheck promises: its runner
  reports no failed test when all the tests it runs pass, each on an image of its own
  (\<open>test2.c\<close>), or one after the other on the image \<open>main\<close> has opened (\<open>test1.c\<close>).
\<close>

theorem test_programs_succeed:
  assumes "on_disk1 fill H" and "crc_ok crc32 fill" and "runs_in_turn H srunner"
    and "\<And>ts. (\<And>p. p \<in> set ts \<Longrightarrow> passes p) \<Longrightarrow> srunner2 ts = 0"
  shows "fst (run H (test1_main srunner crc32) 0 d) = Done 0 \<and> test2_main srunner2 = 0"
  using test1_main_returns [OF assms(1-3)] assms(4) [OF test2_suite_passes] by (simp add: test2_main_def)

theorem test_programs_succeed_witness:
  "fst (run demo_host1 (test1_main (\<lambda>ps. bind (in_turn ps (\<lambda>n. demo_locals1)) (\<lambda>x. Return 0)) demo_crc32) 0 sample) = Done 0
    \<and> test2_main (\<lambda>ts. length (filter (\<lambda>p. fst (run demo_host (p demo_locals) 0 sample) \<noteq> Done ()) ts)) = 0"
  by (rule test_programs_succeed [OF demo1_ok(1)]) (simp_all add: passes_def filter_empty_conv)

end
