(* ===== verification/Robust.thy ===== *)
theory Robust
  imports Safety
begin

text \<open>
  Requests on any image made of whole blocks, consistent or not, and with any paths: every
  operation leaves whole blocks, and answers in the form of its request, with a return code
  that is not negative or one of the error numbers the code uses.
\<close>

section \<open>Computations with a typed result\<close>

definition gives :: "('s \<Rightarrow> bool) \<Rightarrow> ('a \<Rightarrow> bool) \<Rightarrow> ('s, 'a) io \<Rightarrow> bool" where
  "gives P Q m \<longleftrightarrow> (\<forall>s. P s \<longrightarrow> P (snd (m s)) \<and> (\<forall>x. fst (m s) = Inr x \<longrightarrow> Q x))"

lemma givesD: "gives P Q m \<Longrightarrow> P s \<Longrightarrow> P (snd (m s))"
  and givesR: "gives P Q m \<Longrightarrow> P s \<Longrightarrow> m s = (Inr x, t) \<Longrightarrow> Q x"
  by (auto simp: gives_def dest: spec [of _ s])

lemma gives_ret: "Q x \<Longrightarrow> gives P Q (ret x)"
  by (simp add: gives_def ret_def)

lemma gives_halt [intro]: "gives P Q (halt e)"
  by (simp add: gives_def halt_def)

lemma gives_andThen:
  assumes "gives P Q m" and "\<And>x. Q x \<Longrightarrow> gives P R (f x)"
  shows "gives P R (andThen m f)"
proof -
  have "P (snd (andThen m f s)) \<and> (\<forall>y. fst (andThen m f s) = Inr y \<longrightarrow> R y)" if P: "P s" for s
  proof -
    obtain r t where m: "m s = (r, t)" by (cases "m s")
    have t: "P t" using givesD [OF assms(1) P] m by simp
    show ?thesis
    proof (cases r)
      case (Inr x)
      then have "Q x" using givesR [OF assms(1) P] m by simp
      from assms(2) [OF this] t show ?thesis by (simp add: gives_def andThen_def m Inr)
    qed (simp add: andThen_def m t)
  qed
  then show ?thesis by (simp add: gives_def)
qed

text \<open>Where only the state matters.\<close>

lemma gives_keeps: "keeps P m \<Longrightarrow> gives P (\<lambda>_. True) m"
  by (simp add: gives_def keeps_def)

lemma gives_if [intro]: "(b \<Longrightarrow> gives P Q m) \<Longrightarrow> (\<not> b \<Longrightarrow> gives P Q n) \<Longrightarrow> gives P Q (if b then m else n)"
  by simp

lemma gives_option [intro]:
  "(r = None \<Longrightarrow> gives P Q m) \<Longrightarrow> (\<And>x. r = Some x \<Longrightarrow> gives P Q (f x)) \<Longrightarrow>
    gives P Q (case r of None \<Rightarrow> m | Some x \<Rightarrow> f x)"
  by (cases r) auto

section \<open>Blocks\<close>

abbreviation whole :: "byte list \<Rightarrow> bool" where
  "whole b \<equiv> length b = FS_BLOCK_SIZE"

lemma gives_load: "whole b \<Longrightarrow> gives wf_disk whole (load b l)"
  using block_read_length by (auto simp: gives_def load_def split: option.split)

lemma gives_fetch: "gives wf_disk (\<lambda>r. \<forall>b. r = Some b \<longrightarrow> whole b) (fetch l)"
  using block_read_length by (auto simp: gives_def fetch_def)

lemma gives_write: "whole b \<Longrightarrow> gives wf_disk (\<lambda>_. True) (block_write b l)"
  by (intro gives_keeps keeps_wf_block_write)

lemma gives_inode: "ok_inode i \<Longrightarrow> gives wf_disk (\<lambda>_. True) (block_write (encode_inode i) l)"
  by (intro gives_write) simp

lemma gives_dirs: "ok_dirs ds \<Longrightarrow> gives wf_disk (\<lambda>_. True) (block_write (encode_dirs ds) l)"
  by (intro gives_write) simp

lemma gives_path: "gives wf_disk (\<lambda>_. True) (path2inum p)"
  by (intro gives_keeps keeps_path2inum)

lemma gives_tokens: "gives wf_disk (\<lambda>_. True) (copy_tokens p)"
  by (intro gives_keeps keeps_copy_tokens)

lemma gives_alloc: "wf_env e \<Longrightarrow> gives wf_disk (\<lambda>_. True) (alloc_blk e)"
  by (intro gives_keeps keeps_wf_alloc)

lemma gives_free: "wf_env e \<Longrightarrow> gives wf_disk (\<lambda>_. True) (free_blk e n)"
  by (intro gives_keeps keeps_wf_free)

lemma stack_whole: "wf_env e \<Longrightarrow> whole (stack e v)"
  by (simp add: wf_env_def)

lemma ok_inode_fields [simp]:
  "ok_inode (i\<lparr>mode := m\<rparr>) = ok_inode i" "ok_inode (i\<lparr>size_i := s\<rparr>) = ok_inode i" "ok_inode (i\<lparr>mtime := t\<rparr>) = ok_inode i"
  "ok_inode (i\<lparr>ptrs := (ptrs i)[k := x]\<rparr>) = ok_inode i"
  by (simp_all add: ok_inode_def)

lemma ok_decode_dirs: "whole b \<Longrightarrow> ok_dirs (decode_dirs b)"
  using dirs_codec.ok_dec by simp

lemma ok_dirs_update: "ok_dirs ds \<Longrightarrow> ok_dirent e \<Longrightarrow> ok_dirs (ds[k := e])"
  by (auto simp: ok_dirs_def list_all_iff dest: set_update_subset_insert [THEN subsetD])

lemma ok_dirs_nth: "ok_dirs ds \<Longrightarrow> k < 128 \<Longrightarrow> length (name (ds ! k)) = 28"
  by (auto simp: ok_dirs_def ok_dirent_def list_all_iff)

lemmas gives_intros = gives_if gives_option gives_halt gives_andThen [OF gives_path] gives_andThen [OF gives_tokens]
  gives_andThen [OF gives_alloc] gives_andThen [OF gives_free] gives_andThen [OF gives_inode] gives_andThen [OF gives_dirs]
  gives_andThen [OF gives_write] gives_andThen [OF gives_load] gives_andThen [OF gives_fetch]

section \<open>Return codes\<close>

definition coded :: "int \<Rightarrow> bool" where
  "coded r \<longleftrightarrow> 0 \<le> r \<or> r \<in> {- ENOENT, - EEXIST, - ENOTDIR, - EISDIR, - EINVAL, - ENOSPC, - ENOTEMPTY, - EOPNOTSUPP}"

lemma coded_simps [simp]:
  "coded 0" "coded (- ENOENT)" "coded (- EEXIST)" "coded (- ENOTDIR)" "coded (- EISDIR)" "coded (- EINVAL)"
  "coded (- ENOSPC)" "coded (- ENOTEMPTY)" "coded (- EOPNOTSUPP)" "coded (int n)"
  by (simp_all add: coded_def)

lemma typed_chmod: "wf_env e \<Longrightarrow> gives wf_disk coded (fs_chmod e p m)"
  unfolding fs_chmod_def Let_def by (intro gives_intros gives_ret stack_whole) simp_all

lemma typed_utime: "gives wf_disk coded (fs_utime e p ut)"
  unfolding fs_utime_def Let_def by (intro gives_intros gives_ret) simp_all

lemma typed_free_ptrs: "wf_env e \<Longrightarrow> gives wf_disk (\<lambda>_. True) (free_ptrs e i k n)"
proof (induction n arbitrary: k)
  case (Suc n)
  then show ?case by (auto intro!: gives_intros)
qed (simp add: gives_ret)

lemma typed_truncate: "wf_env e \<Longrightarrow> gives wf_disk coded (fs_truncate e p len)"
  unfolding fs_truncate_def Let_def free_data_def
  by (intro gives_intros gives_ret gives_andThen [OF typed_free_ptrs]) simp_all

section \<open>Directories\<close>

lemma typed_prepare_new:
  "wf_env e \<Longrightarrow> gives wf_disk (\<lambda>r. case r of Inl c \<Rightarrow> coded c | Inr (n, i, t) \<Rightarrow> ok_inode i \<and> length t \<le> 27)
    (prepare_new e p)"
  unfolding prepare_new_def Let_def by (intro gives_intros gives_ret stack_whole) simp_all

lemma typed_add_dirent:
  assumes "wf_env e" and "ok_inode i" and "length t \<le> 27"
  shows "gives wf_disk coded (add_dirent e n i t m)"
  unfolding add_dirent_def Let_def
proof (intro gives_intros gives_ret stack_whole assms)
  fix db k
  assume db: "whole db" and k: "\<not> 128 \<le> scan (\<lambda>d. \<not> valid d) (decode_dirs db)"
  let ?k = "scan (\<lambda>d. \<not> valid d) (decode_dirs db)"
  have ok: "ok_dirs (decode_dirs db)" using db by (rule ok_decode_dirs)
  then have "length (name (decode_dirs db ! ?k)) = 28" using k by (intro ok_dirs_nth) simp_all
  then have "ok_dirent \<lparr>valid = True, inode = word_of_int m, name = strcpy_into (name (decode_dirs db ! ?k)) t\<rparr>"
    using assms(3) by (simp add: ok_dirent_def length_strcpy_into)
  with ok show "ok_dirs ((decode_dirs db)[?k := \<lparr>valid = True, inode = word_of_int m,
      name = strcpy_into (name (decode_dirs db ! ?k)) t\<rparr>])"
    by (rule ok_dirs_update)
qed simp_all

lemma typed_new:
  assumes "wf_env e" and "\<And>n i t. ok_inode i \<Longrightarrow> length t \<le> 27 \<Longrightarrow> gives wf_disk coded (f n i t)"
  shows "gives wf_disk coded (andThen (prepare_new e p)
    (\<lambda>r. case r of Inl c \<Rightarrow> ret c | Inr (n, i, t) \<Rightarrow> f n i t))"
  by (rule gives_andThen [OF typed_prepare_new [OF assms(1)]])
     (auto split: sum.splits prod.splits intro: gives_ret assms(2))

lemma typed_create: "wf_env e \<Longrightarrow> gives wf_disk coded (fs_create e p m)"
  unfolding fs_create_def by (intro typed_new gives_intros typed_add_dirent new_inode_ok) simp_all

lemma typed_mkdir: "wf_env e \<Longrightarrow> gives wf_disk coded (fs_mkdir e p m)"
  unfolding fs_mkdir_def Let_def
  by (intro typed_new gives_intros typed_add_dirent) (simp_all add: new_inode_ok zero_block_def)

lemma typed_prepare_del:
  "wf_env e \<Longrightarrow> gives wf_disk (\<lambda>r. case r of Inl c \<Rightarrow> coded c | Inr (n, i, k, j) \<Rightarrow> ok_inode i \<and> ok_inode j)
    (prepare_del e p)"
  unfolding prepare_del_def Let_def by (intro gives_intros gives_ret stack_whole) simp_all

lemma typed_remove_dirent:
  assumes "wf_env e" and "ok_inode i" and "whole b"
  shows "gives wf_disk coded (remove_dirent e b n i m)"
  unfolding remove_dirent_def Let_def
proof (intro gives_intros gives_ret assms)
  fix db assume "whole db"
  then have ok: "ok_dirs (decode_dirs db)" by (rule ok_decode_dirs)
  let ?k = "scan (\<lambda>d. valid d \<and> uint (inode d) = m) (decode_dirs db)"
  show "ok_dirs (if ?k < 128 then (decode_dirs db)[?k := (decode_dirs db ! ?k)\<lparr>valid := False\<rparr>] else decode_dirs db)"
    using ok ok_dirs_nth [OF ok, of ?k] by (auto intro!: ok_dirs_update simp: ok_dirent_def)
qed (use assms in simp_all)

lemma typed_del:
  assumes "wf_env e" and "\<And>n i k j. ok_inode i \<Longrightarrow> gives wf_disk coded (f n i k j)"
  shows "gives wf_disk coded (andThen (prepare_del e p)
    (\<lambda>r. case r of Inl c \<Rightarrow> ret c | Inr (n, i, k, j) \<Rightarrow> f n i k j))"
  by (rule gives_andThen [OF typed_prepare_del [OF assms(1)]])
     (auto split: sum.splits prod.splits intro: gives_ret assms(2))

lemma typed_unlink: "wf_env e \<Longrightarrow> gives wf_disk coded (fs_unlink e p)"
  unfolding fs_unlink_def free_data_def
  by (intro typed_del gives_intros gives_ret gives_andThen [OF typed_free_ptrs] typed_remove_dirent stack_whole) simp_all

lemma typed_rmdir: "wf_env e \<Longrightarrow> gives wf_disk coded (fs_rmdir e p)"
  unfolding fs_rmdir_def Let_def
  by (intro typed_del gives_intros gives_ret typed_remove_dirent stack_whole) simp_all

lemma typed_rename: "gives wf_disk coded (fs_rename s t)"
  unfolding fs_rename_def Let_def
proof (intro gives_intros gives_ret; (simp; fail)?)
  fix src dst :: "cstring list" and r pb r' db
  assume db: "\<forall>b. r' = Some b \<longrightarrow> whole b" "r' = Some db"
  let ?k = "scan (\<lambda>d. valid d \<and> c_string (name d) = last src) (decode_dirs db)"
  assume k: "\<not> (?k < 128 \<and> 28 \<le> length (last dst))"
  have ok: "ok_dirs (decode_dirs db)" using db by (intro ok_decode_dirs) simp
  show "ok_dirs (if ?k < 128 then (decode_dirs db)[?k := (decode_dirs db ! ?k)\<lparr>name := strcpy_into (name (decode_dirs db ! ?k)) (last dst)\<rparr>]
      else decode_dirs db)"
    using ok k ok_dirs_nth [OF ok, of ?k]
    by (auto intro!: ok_dirs_update simp: ok_dirent_def length_strcpy_into)
qed

section \<open>File contents\<close>

lemma typed_write_loop:
  assumes e: "wf_env e"
  shows "whole buffer \<Longrightarrow> ok_inode i \<Longrightarrow> nread \<le> len \<Longrightarrow> length buf = len \<Longrightarrow>
    gives wf_disk (\<lambda>w. \<forall>j n. w = Some (j, n) \<longrightarrow> ok_inode j \<and> n \<le> len)
      (write_loop e buf len off new_size i nread bn bo buffer)"
proof (induction "len - nread" arbitrary: i nread bn bo buffer rule: less_induct)
  case less
  have next_block: "gives wf_disk (\<lambda>w. \<forall>j n. w = Some (j, n) \<longrightarrow> ok_inode j \<and> n \<le> len)
      (andThen (load buffer b) (\<lambda>bf. let rl = FS_BLOCK_SIZE - bo;
          rl = (if len < nread + rl then len - nread else rl);
          bf = take bo bf @ slice buf nread rl @ drop (bo + rl) bf
        in andThen (block_write bf c) (\<lambda>_. write_loop e buf len off new_size i' (nread + rl) (bn + 1) 0 bf)))"
    if "nread < len" and bo: "bo < FS_BLOCK_SIZE" and i': "ok_inode i'" for i' b c
  proof (rule gives_andThen [OF gives_load [OF less.prems(1)]])
    fix bf :: "byte list" assume bf: "whole bf"
    define rl where "rl = (if len < nread + (FS_BLOCK_SIZE - bo) then len - nread else FS_BLOCK_SIZE - bo)"
    define bf' where "bf' = take bo bf @ slice buf nread rl @ drop (bo + rl) bf"
    have rl: "0 < rl" "nread + rl \<le> len" "bo + rl \<le> FS_BLOCK_SIZE" using that by (auto simp: rl_def)
    then have w: "whole bf'" using bf less.prems(4) by (simp add: bf'_def slice_def)
    have "gives wf_disk (\<lambda>w. \<forall>j n. w = Some (j, n) \<longrightarrow> ok_inode j \<and> n \<le> len)
        (write_loop e buf len off new_size i' (nread + rl) (bn + 1) 0 bf')"
      using rl that w i' less.prems(4) by (intro less.hyps) auto
    then show "gives wf_disk (\<lambda>w. \<forall>j n. w = Some (j, n) \<longrightarrow> ok_inode j \<and> n \<le> len)
        (let rl = FS_BLOCK_SIZE - bo; rl = (if len < nread + rl then len - nread else rl);
             bf = take bo bf @ slice buf nread rl @ drop (bo + rl) bf
         in andThen (block_write bf c) (\<lambda>_. write_loop e buf len off new_size i' (nread + rl) (bn + 1) 0 bf))"
      unfolding Let_def rl_def [symmetric] bf'_def [symmetric] by (intro gives_andThen [OF gives_write] w)
  qed
  have alloc: "gives wf_disk ok_inode
      (if beyond_mapped i bn then andThen (alloc_blk e) (\<lambda>n. ret (i\<lparr>ptrs := (ptrs i)[bn := word_of_int n]\<rparr>)) else ret i)"
    using less.prems(2) by (intro gives_if gives_andThen [OF gives_alloc [OF e]] gives_ret) simp_all
  show ?case
    by (subst write_loop.simps)
       (intro gives_if gives_halt gives_andThen [OF alloc] next_block gives_ret; use less.prems in auto)
qed

lemma typed_write: "wf_env e \<Longrightarrow> gives wf_disk coded (fs_write e p buf off)"
proof -
  assume e: "wf_env e"
  have last: "gives wf_disk coded (case w of None \<Rightarrow> ret (- ENOSPC) | Some (i, nread) \<Rightarrow>
      andThen (block_write (encode_inode ((if sint (size_i i) < int ns then i\<lparr>size_i := word_of_nat ns\<rparr> else i)\<lparr>mtime := now e\<rparr>)) l)
        (\<lambda>_. ret (wrap32 (int nread))))"
    if "\<forall>j n. w = Some (j, n) \<longrightarrow> ok_inode j \<and> n \<le> length buf" and "length buf \<le> 4096 * 1019" for w ns l
    using that by (auto intro!: gives_intros gives_ret split: option.split)
  show ?thesis
    unfolding fs_write_def Let_def
    by (intro gives_intros gives_ret gives_andThen [OF typed_write_loop [OF e]] last stack_whole e) simp_all
qed

text \<open>What \<open>fs_read\<close> hands out.\<close>

lemma typed_read_loop:
  "whole buffer \<Longrightarrow> nread \<le> len \<Longrightarrow> int (nread + off) \<le> sint (size_i i) \<Longrightarrow> length out = nread \<Longrightarrow>
    gives wf_disk (\<lambda>(n, bs). length bs = n \<and> n \<le> len \<and> int (n + off) \<le> sint (size_i i))
      (read_loop i len off nread bn bo buffer out)"
proof (induction "len - nread" arbitrary: nread bn bo buffer out rule: less_induct)
  case less
  let ?Q = "\<lambda>(n, bs). length bs = n \<and> n \<le> len \<and> int (n + off) \<le> sint (size_i i)"
  have next_block: "gives wf_disk ?Q
      (andThen (load buffer b) (\<lambda>bf. let rl = FS_BLOCK_SIZE - bo;
          rl = (if len < nread + rl then len - nread else rl);
          rl = (if sint (size_i i) < int (nread + off + rl) then nat (sint (size_i i)) - off - nread else rl)
        in read_loop i len off (nread + rl) (bn + 1) 0 bf (out @ slice bf bo rl)))"
    if c: "nread < len" "int (nread + off) < sint (size_i i)" and bo: "bo < FS_BLOCK_SIZE" for b
  proof (rule gives_andThen [OF gives_load [OF less.prems(1)]])
    fix bf :: "byte list" assume bf: "whole bf"
    define r1 where "r1 = (if len < nread + (FS_BLOCK_SIZE - bo) then len - nread else FS_BLOCK_SIZE - bo)"
    define rl where "rl = (if sint (size_i i) < int (nread + off + r1) then nat (sint (size_i i)) - off - nread else r1)"
    have r1: "0 < r1" "nread + r1 \<le> len" "bo + r1 \<le> FS_BLOCK_SIZE" using c bo by (auto simp: r1_def)
    have rl: "0 < rl" "rl \<le> r1" "int (nread + rl + off) \<le> sint (size_i i)" using c r1 by (auto simp: rl_def)
    have "gives wf_disk ?Q (read_loop i len off (nread + rl) (bn + 1) 0 bf (out @ slice bf bo rl))"
      using rl r1 c bf less.prems(4) by (intro less.hyps) (auto simp: slice_def)
    then show "gives wf_disk ?Q (let rl = FS_BLOCK_SIZE - bo; rl = (if len < nread + rl then len - nread else rl);
          rl = (if sint (size_i i) < int (nread + off + rl) then nat (sint (size_i i)) - off - nread else rl)
        in read_loop i len off (nread + rl) (bn + 1) 0 bf (out @ slice bf bo rl))"
      unfolding Let_def r1_def [symmetric] rl_def [symmetric] .
  qed
  show ?case
    by (subst read_loop.simps) (intro gives_if gives_halt next_block gives_ret; use less.prems in auto)
qed

lemma typed_read:
  assumes "wf_env e"
  shows "gives wf_disk (\<lambda>(r, bs). coded r \<and> length bs \<le> len \<and> (bs \<noteq> [] \<longrightarrow> r = int (length bs))) (fs_read e p len off)"
proof -
  have last: "gives wf_disk (\<lambda>(r, bs). coded r \<and> length bs \<le> len \<and> (bs \<noteq> [] \<longrightarrow> r = int (length bs)))
      (case x of (n, bs) \<Rightarrow> ret (wrap32 (int n), bs))"
    if "(\<lambda>(n, bs). length bs = n \<and> n \<le> len \<and> int (n + off) \<le> sint (size_i (i :: fs_inode))) x" for x i
  proof -
    have "sint (size_i i) < 2 ^ 31" using sint_lt [of "size_i i"] by simp
    then show ?thesis using that by (auto intro!: gives_ret split: prod.splits)
  qed
  show ?thesis
    unfolding fs_read_def Let_def
    by (intro gives_intros gives_ret gives_andThen [OF typed_read_loop] last stack_whole assms) auto
qed

section \<open>Queries\<close>

lemma typed_statfs: "gives wf_disk (\<lambda>(r, s). coded r) (fs_statfs p st)"
  unfolding fs_statfs_def Let_def by (intro gives_intros gives_ret) simp_all

lemma typed_getattr: "gives wf_disk (\<lambda>(r, s). coded r) (fs_getattr p sb)"
  unfolding fs_getattr_def by (intro gives_intros gives_ret) simp_all

lemma typed_list_entries: "gives wf_disk (\<lambda>l. length l \<le> length es) (list_entries es)"
proof (induction es)
  case (Cons e es)
  have skip: "gives wf_disk (\<lambda>l. length l \<le> length (e # es)) (list_entries es)"
    using Cons.IH by (auto simp: gives_def le_SucI)
  show ?case
    unfolding list_entries.simps by (intro gives_intros gives_andThen [OF Cons.IH] gives_ret skip) simp
qed (simp add: gives_ret)

lemma typed_readdir: "gives wf_disk (\<lambda>(r, l). coded r \<and> length l \<le> 128 \<and> (l \<noteq> [] \<longrightarrow> r = 0)) (fs_readdir p)"
proof -
  have "length (decode_dirs b) = 128" if "whole b" for b using ok_decode_dirs [OF that] by (simp add: ok_dirs_def)
  then show ?thesis
    unfolding fs_readdir_def by (intro gives_intros gives_andThen [OF typed_list_entries] gives_ret) auto
qed

section \<open>All requests\<close>

fun reply_ok :: "request \<Rightarrow> reply \<Rightarrow> bool" where
  "reply_ok Init RDone = True"
| "reply_ok (Statfs p st) (RStatfs r s) = coded r"
| "reply_ok (Getattr p sb) (RStat r s) = coded r"
| "reply_ok (Readdir p) (RDir r l) = (coded r \<and> length l \<le> 128 \<and> (l \<noteq> [] \<longrightarrow> r = 0))"
| "reply_ok (Read p len off) (RData r bs) = (coded r \<and> length bs \<le> len \<and> (bs \<noteq> [] \<longrightarrow> r = int (length bs)))"
| "reply_ok (Rename s t) (RCode r) = coded r"
| "reply_ok (Chmod p m) (RCode r) = coded r"
| "reply_ok (Create p m) (RCode r) = coded r"
| "reply_ok (Mkdir p m) (RCode r) = coded r"
| "reply_ok (Unlink p) (RCode r) = coded r"
| "reply_ok (Rmdir p) (RCode r) = coded r"
| "reply_ok (Write p buf off) (RCode r) = coded r"
| "reply_ok (Truncate p len) (RCode r) = coded r"
| "reply_ok (Utime p ut) (RCode r) = coded r"
| "reply_ok r x = False"

lemma typed_fs_ops:
  assumes e: "wf_env e"
  shows "gives wf_disk (reply_ok r) (fs_ops e r)"
proof (cases r)
  case Init
  have "gives wf_disk (\<lambda>_. True) fs_init" unfolding fs_init_def by (intro gives_intros gives_ret) simp
  then show ?thesis by (auto simp: Init intro!: gives_andThen gives_ret)
qed (auto intro!: gives_ret
      gives_andThen [OF typed_statfs] gives_andThen [OF typed_getattr] gives_andThen [OF typed_readdir]
      gives_andThen [OF typed_read [OF e]] gives_andThen [OF typed_rename] gives_andThen [OF typed_chmod [OF e]]
      gives_andThen [OF typed_create [OF e]] gives_andThen [OF typed_mkdir [OF e]] gives_andThen [OF typed_unlink [OF e]]
      gives_andThen [OF typed_rmdir [OF e]] gives_andThen [OF typed_write [OF e]] gives_andThen [OF typed_truncate [OF e]]
      gives_andThen [OF typed_utime])

text \<open>Sessions, whatever the paths and the image.\<close>

lemma typed_session:
  "list_all (\<lambda>r. wf_env (fst r)) rs \<Longrightarrow> gives wf_disk (list_all2 (\<lambda>r x. reply_ok (snd r) x) rs) (session rs)"
proof (induction rs)
  case (Cons r rs)
  then have e: "wf_env (fst r)" and IH: "gives wf_disk (list_all2 (\<lambda>r x. reply_ok (snd r) x) rs) (session rs)" by simp_all
  show ?case
    unfolding session.simps
    by (intro gives_andThen [OF typed_fs_ops [OF e]] gives_andThen [OF IH] gives_ret) simp
qed (simp add: gives_ret)

end
