(* ===== verification/Threads.thy ===== *)
theory Threads
  imports Disk
begin

text \<open>
  Block operations of several threads. \<open>block_read\<close> and \<open>block_write\<close> of \<open>misc.c\<close> are two and
  three system calls on one descriptor, \<open>disk_fd\<close>, with one file position; nothing keeps
  the calls of another thread from coming in between, and \<open>fuse_main\<close> serves requests in
  threads unless it gets \<open>-s\<close>, which the argument count \<open>lab4fuse\<close> insists on leaves no room for.
  Here the calls are single steps. A thread that is left alone does what \<open>block_read\<close> and
  \<open>block_write\<close> of theory \<open>Disk\<close> say; two threads can get each other's blocks.
\<close>

section \<open>System calls\<close>

text \<open>The open image file: its position and its contents.\<close>

record device =
  position :: int
  contents :: disk

definition sys_lseek :: "int \<Rightarrow> device \<Rightarrow> int \<times> device" where
  "sys_lseek off D = (if off < 0 then (- 1, D) else (off, D\<lparr>position := off\<rparr>))"

definition sys_read :: "device \<Rightarrow> byte list option \<times> device" where
  "sys_read D = (case get_block (nat (position D) div FS_BLOCK_SIZE) (contents D) of
     None \<Rightarrow> (None, D)
   | Some b \<Rightarrow> (Some b, D\<lparr>position := position D + 4096\<rparr>))"

definition sys_write :: "byte list \<Rightarrow> device \<Rightarrow> device" where
  "sys_write buf D = D\<lparr>position := position D + 4096,
     contents := put_block (nat (position D) div FS_BLOCK_SIZE) buf (contents D)\<rparr>"

section \<open>Threads\<close>

text \<open>Where a thread is in \<open>block_read\<close> or \<open>block_write\<close>: its next system call, or how the
  function has ended.\<close>

datatype thread =
    Read_seek int
  | Read_call
  | Write_assert int "byte list"
  | Write_seek_end int "byte list"
  | Write_seek int "byte list"
  | Write_call "byte list"
  | Returned int "byte list option"
  | Aborted

fun advance :: "thread \<Rightarrow> device \<Rightarrow> (thread \<times> device) option" where
  "advance (Read_seek lba) D = (case sys_lseek (byte_start lba) D of (r, D') \<Rightarrow>
     Some (if r < 0 then Returned (- EIO) None else Read_call, D'))"
| "advance Read_call D = (case sys_read D of
     (None, D') \<Rightarrow> Some (Returned (- EIO) None, D')
   | (Some b, D') \<Rightarrow> Some (Returned 0 (Some b), D'))"
| "advance (Write_assert lba buf) D = Some (if lba > 0 then Write_seek_end lba buf else Aborted, D)"
| "advance (Write_seek_end lba buf) D = (case sys_lseek (wrap32 (byte_start lba + 4096)) D of (r, D') \<Rightarrow>
     Some (if r < 0 then Returned (- EIO) None else Write_seek lba buf, D'))"
| "advance (Write_seek lba buf) D = (case sys_lseek (byte_start lba) D of (r, D') \<Rightarrow>
     Some (if r < 0 then Returned (- EIO) None else Write_call buf, D'))"
| "advance (Write_call buf) D = Some (Returned 0 None, sys_write buf D)"
| "advance (Returned r b) D = None"
| "advance Aborted D = None"

text \<open>Any thread may take the next step.\<close>

inductive sys_step :: "thread list \<times> device \<Rightarrow> thread list \<times> device \<Rightarrow> bool" where
  thread: "i < length ts \<Longrightarrow> advance (ts ! i) D = Some (t, D') \<Longrightarrow> sys_step (ts, D) (ts[i := t], D')"

inductive_cases sys_stepE: "sys_step (ts, D) c"

inductive runs_to :: "thread list \<times> device \<Rightarrow> thread list \<times> device \<Rightarrow> bool" where
  here: "runs_to c c"
| next_step: "sys_step c c' \<Longrightarrow> runs_to c' c'' \<Longrightarrow> runs_to c c''"

text \<open>A schedule, executed: the numbers of the threads that move.\<close>

fun schedule :: "nat list \<Rightarrow> thread list \<times> device \<Rightarrow> (thread list \<times> device) option" where
  "schedule [] c = Some c"
| "schedule (i # is) (ts, D) = (if i < length ts then
     (case advance (ts ! i) D of None \<Rightarrow> None | Some (t, D') \<Rightarrow> schedule is (ts[i := t], D')) else None)"

lemma schedule_runs: "schedule is c = Some c' \<Longrightarrow> runs_to c c'"
  by (induction "is" c rule: schedule.induct)
     (auto split: if_splits option.splits intro: here next_step thread)

section \<open>A thread alone\<close>

text \<open>The ends a lone call can have, as \<open>Disk\<close> models it.\<close>

definition read_ends :: "byte list option \<Rightarrow> thread" where
  "read_ends r = (case r of None \<Rightarrow> Returned (- EIO) None | Some b \<Rightarrow> Returned 0 (Some b))"

fun write_ends :: "stop + int \<Rightarrow> thread" where
  "write_ends (Inl s) = Aborted"
| "write_ends (Inr r) = Returned r None"

definition final :: "thread \<Rightarrow> bool" where
  "final t \<longleftrightarrow> (\<forall>D. advance t D = None)"

lemma final_simps [simp]: "final (Returned r b)" "final Aborted"
  by (simp_all add: final_def)

lemma alone_final: "runs_to ([t], D) c \<Longrightarrow> final t \<Longrightarrow> c = ([t], D)"
  by (induction "([t], D)" c rule: runs_to.induct) (auto elim!: sys_stepE simp: final_def)

lemma alone_step:
  assumes "runs_to ([t], D) ([t'], D')" and "final t'" and "advance t D = Some (u, E)"
  shows "runs_to ([u], E) ([t'], D')"
  using assms(1)
proof (cases rule: runs_to.cases)
  case here
  then show ?thesis using assms(2,3) by (auto simp: final_def)
next
  case (next_step c)
  then have "c = ([u], E)" using assms(3) by (auto elim!: sys_stepE)
  then show ?thesis using next_step by simp
qed

text \<open>However far it runs, a lone call ends as the atomic operation does.\<close>

lemma lone_read:
  assumes "runs_to ([Read_seek lba], D) ([t], D')" and "final t"
  shows "t = read_ends (block_read lba (contents D)) \<and> contents D' = contents D"
proof (cases "byte_start lba < 0")
  case True
  then have "runs_to ([Returned (- EIO) None], D) ([t], D')"
    by (intro alone_step [OF assms]) (simp add: sys_lseek_def)
  then show ?thesis using True alone_final by (fastforce simp: block_read_def read_ends_def)
next
  case False
  let ?E = "D\<lparr>position := byte_start lba\<rparr>"
  have r: "runs_to ([Read_call], ?E) ([t], D')"
    using False by (intro alone_step [OF assms]) (simp add: sys_lseek_def)
  obtain u E where u: "advance Read_call ?E = Some (u, E)" "final u"
    "u = read_ends (block_read lba (contents D))" "contents E = contents D"
    using False
    by (cases "get_block (nat (byte_start lba) div 4096) (contents D)") (simp_all add: sys_read_def block_read_def read_ends_def)
  have "runs_to ([u], E) ([t], D')" by (rule alone_step [OF r assms(2) u(1)])
  then show ?thesis using alone_final [OF _ u(2)] u(3,4) by fastforce
qed

lemma lone_write:
  assumes "runs_to ([Write_assert lba buf], D) ([t], D')" and "final t"
  shows "(t, contents D') = (case block_write buf lba (contents D) of (r, d) \<Rightarrow> (write_ends r, d))"
proof -
  note go = alone_step [OF _ assms(2)]
  show ?thesis
  proof (cases "0 < lba")
    case False
    then have "runs_to ([Aborted], D) ([t], D')" by (intro go [OF assms(1)]) simp
    then show ?thesis using False alone_final by (fastforce simp: block_write_def)
  next
    case True
    then have 1: "runs_to ([Write_seek_end lba buf], D) ([t], D')" by (intro go [OF assms(1)]) simp
    show ?thesis
    proof (cases "wrap32 (byte_start lba + 4096) < 0")
      case end_bad: True
      then have "runs_to ([Returned (- EIO) None], D) ([t], D')" by (intro go [OF 1]) (simp add: sys_lseek_def)
      then show ?thesis using True end_bad alone_final by (fastforce simp: block_write_def)
    next
      case end_ok: False
      let ?E = "D\<lparr>position := wrap32 (byte_start lba + 4096)\<rparr>"
      have 2: "runs_to ([Write_seek lba buf], ?E) ([t], D')" using end_ok by (intro go [OF 1]) (simp add: sys_lseek_def)
      show ?thesis
      proof (cases "byte_start lba < 0")
        case bad: True
        then have "runs_to ([Returned (- EIO) None], ?E) ([t], D')" by (intro go [OF 2]) (simp add: sys_lseek_def)
        then show ?thesis using True end_ok bad alone_final by (fastforce simp: block_write_def)
      next
        case ok: False
        let ?F = "D\<lparr>position := byte_start lba\<rparr>"
        have "runs_to ([Write_call buf], ?F) ([t], D')" using ok by (intro go [OF 2]) (simp add: sys_lseek_def)
        from go [OF this] have "runs_to ([Returned 0 None], sys_write buf ?F) ([t], D')" by simp
        then show ?thesis using True end_ok ok alone_final by (fastforce simp: block_write_def sys_write_def)
      qed
    qed
  qed
qed

section \<open>Two threads\<close>

text \<open>
  Thread 0 has positioned the file for block \<open>a\<close> when thread 1 positions it for block \<open>b\<close>: the
  read returns the wrong block with code 0, the write changes the wrong block.
\<close>

lemma race_read:
  assumes "0 \<le> a" and "a < 2 ^ 19" and "0 \<le> b" and "nat b < nblks d" and "b < 2 ^ 19"
  shows "\<exists>p. schedule [0, 1, 0] ([Read_seek a, Read_seek b], \<lparr>position = 0, contents = d\<rparr>)
    = Some ([Returned 0 (Some (blk d (nat b))), Read_call], \<lparr>position = p, contents = d\<rparr>)"
  using assms by (simp add: sys_lseek_def byte_start_small sys_read_def get_block_def nat_mult_distrib)

lemma race_write:
  assumes "0 < a" and "a < 2 ^ 19 - 1" and "0 \<le> b" and "b < 2 ^ 19"
  shows "\<exists>p. schedule [0, 0, 0, 1, 0] ([Write_assert a buf, Read_seek b], \<lparr>position = 0, contents = d\<rparr>)
    = Some ([Returned 0 None, Read_call], \<lparr>position = p, contents = put_block (nat b) buf d\<rparr>)"
proof -
  have "wrap32 (a * 4096 + 4096) = a * 4096 + 4096" using assms(1,2) by (intro wrap32_id) simp_all
  then show ?thesis
    using assms by (simp add: sys_lseek_def byte_start_small sys_write_def nat_mult_distrib)
qed

lemma races:
  assumes "0 < a" and "a < 2 ^ 19 - 1" and "0 \<le> b" and "b < 2 ^ 19" and "nat b < nblks d"
  shows "(\<exists>p. runs_to ([Read_seek a, Read_seek b], \<lparr>position = 0, contents = d\<rparr>)
        ([Returned 0 (Some (blk d (nat b))), Read_call], \<lparr>position = p, contents = d\<rparr>))
    \<and> (\<exists>p. runs_to ([Write_assert a buf, Read_seek b], \<lparr>position = 0, contents = d\<rparr>)
        ([Returned 0 None, Read_call], \<lparr>position = p, contents = put_block (nat b) buf d\<rparr>))"
proof
  have "\<exists>p. schedule [0, 1, 0] ([Read_seek a, Read_seek b], \<lparr>position = 0, contents = d\<rparr>)
      = Some ([Returned 0 (Some (blk d (nat b))), Read_call], \<lparr>position = p, contents = d\<rparr>)"
    using assms by (intro race_read) simp_all
  then show "\<exists>p. runs_to ([Read_seek a, Read_seek b], \<lparr>position = 0, contents = d\<rparr>)
      ([Returned 0 (Some (blk d (nat b))), Read_call], \<lparr>position = p, contents = d\<rparr>)"
    using schedule_runs by blast
  show "\<exists>p. runs_to ([Write_assert a buf, Read_seek b], \<lparr>position = 0, contents = d\<rparr>)
      ([Returned 0 None, Read_call], \<lparr>position = p, contents = put_block (nat b) buf d\<rparr>)"
    using race_write [OF assms(1-4)] schedule_runs by blast
qed

end
