(* ===== verification/Crash.thy ===== *)
theory Crash
  imports TreeNew
begin

text \<open>
  Killing the process. A request is a sequence of block writes; \<open>crash k\<close> is the image when the
  process is killed after \<open>k\<close> of them, and \<open>through P\<close> says that \<open>P\<close> holds before and after each.
  A request survives unless it frees blocks: unlink, rmdir and truncate clear the bits in the
  map while the entry or the inode still names the blocks. What survives is atomic, a write
  apart, which has written a part of its buffer.
\<close>

section \<open>Writes that lose nothing\<close>

definition holds_tree :: "ptree \<Rightarrow> disk \<Rightarrow> bool" where
  "holds_tree T d \<longleftrightarrow> (\<exists>N. consistent N d \<and> tree_of N d = T)"

lemma holds_tree_self: "consistent N d \<Longrightarrow> holds_tree (tree_of N d) d"
  by (auto simp: holds_tree_def)

lemma spares_tree:
  assumes C: "consistent N d" and s: "spares d d'"
  shows "consistent N d'" and "tree_of N d' = tree_of N d" and "absfs N d' = absfs N d" and "kept N d d'"
proof -
  have s': "mountable d'" "nblks d \<le> nblks d'" "free_set d' \<subseteq> free_set d"
    "\<And>b. b \<noteq> 1 \<Longrightarrow> b < nblks d \<Longrightarrow> b \<notin> free_set d \<Longrightarrow> blk d' b = blk d b"
    using s by (simp_all add: spares_def)
  show "consistent N d'" "absfs N d' = absfs N d" "kept N d d'" using leaked [OF C s'(1,2,4,3)] by blast+
  then show "tree_of N d' = tree_of N d" using tree_of_same [OF C] by blast
qed

lemma tree_history [simp]: "tree_of N (d\<lparr>history := h\<rparr>) = tree_of N d"
proof -
  have "node_at (d\<lparr>history := h\<rparr>) = node_at d" by (intro ext) (simp add: node_at_def split: obj.split)
  then show ?thesis by (intro ext) (simp add: tree_of_def)
qed

section \<open>Requests that write once\<close>

definition writes_once :: "(disk, 'a) io \<Rightarrow> bool" where
  "writes_once m \<longleftrightarrow> (\<forall>d. snd (m d) = d \<or> (\<exists>l b. snd (m d) = put_block l b d))"

lemma once_keeps: "(\<And>P. keeps P m) \<Longrightarrow> writes_once m"
  unfolding writes_once_def using keepsD [of "\<lambda>x. x = _" m] by blast

lemma once_after:
  assumes "\<And>P. keeps P m" and "\<And>x. writes_once (f x)"
  shows "writes_once (andThen m f)"
  unfolding writes_once_def
proof
  fix d
  have "snd (m d) = d" using keepsD [OF assms(1) [of "\<lambda>x. x = d"], of d] by simp
  then show "snd (andThen m f d) = d \<or> (\<exists>l b. snd (andThen m f d) = put_block l b d)"
    using assms(2) by (cases "m d"; cases "fst (m d)") (auto simp: andThen_def writes_once_def)
qed

lemma once_then:
  assumes "writes_once m" and "\<And>x P. keeps P (f x)"
  shows "writes_once (andThen m f)"
  unfolding writes_once_def
proof
  fix d
  have k: "snd (f x s) = s" for x s using keepsD [OF assms(2) [of "\<lambda>y. y = s" x], of s] by simp
  show "snd (andThen m f d) = d \<or> (\<exists>l b. snd (andThen m f d) = put_block l b d)"
    using assms(1) [unfolded writes_once_def, rule_format, of d] k
    by (cases "m d"; cases "fst (m d)") (auto simp: andThen_def)
qed

lemma once_write: "writes_once (block_write b l)"
  by (auto simp: writes_once_def block_write_def Let_def)

lemma once_if: "writes_once m \<Longrightarrow> writes_once n \<Longrightarrow> writes_once (if c then m else n)"
  by simp

lemma once_option:
  "writes_once m \<Longrightarrow> (\<And>x. writes_once (f x)) \<Longrightarrow> writes_once (case r of None \<Rightarrow> m | Some x \<Rightarrow> f x)"
  by (cases r) auto

lemma once_through:
  assumes "writes_once m" and "P d" and "P (snd (m d))"
  shows "through P d (snd (m d))"
  using assms stays [of P d] through_one [of P d] unfolding writes_once_def by metis

lemma once_ret: "writes_once (ret x)" and once_halt: "writes_once (halt s)"
  by (auto intro!: once_keeps)

lemmas once_rules = once_if once_option once_ret once_halt once_write
  once_after [OF keeps_path2inum] once_after [OF keeps_copy_tokens] once_after [OF keeps_fetch] once_after [OF keeps_load]
  once_then [OF once_write]

lemma once_chmod: "writes_once (fs_chmod e p m)"
  by (auto simp: fs_chmod_def Let_def intro!: once_rules)

lemma once_utime: "writes_once (fs_utime e p ut)"
  by (auto simp: fs_utime_def Let_def intro!: once_rules)

lemma once_rename: "writes_once (fs_rename s t)"
  by (auto simp: fs_rename_def Let_def intro!: once_rules keeps_ret)


section \<open>create and mkdir\<close>

text \<open>
  Before the directory block is written only free blocks and the map have changed; after it the
  image is the final one, since the parent's inode goes back as it was.
\<close>

lemma entered_through:
  assumes C: "consistent N d" and p: "p \<in> N" and D: "S_ISDIR (mode (inode_at d p))"
    and d1: "through (spares d) d d1" and slot: "free_slot d p"
    and t: "ok_token t" "length t \<le> 27" "dir_map (dirs_at d (inode_at d p)) t = None" and x: "x < 2 ^ 31"
    and P: "\<And>d'. spares d d' \<Longrightarrow> P d'"
    and F: "\<And>h. P ((snd (add_dirent e (int p) (inode_at d p) t (int x) d1))\<lparr>history := h\<rparr>)"
  shows "through P d (snd (add_dirent e (int p) (inode_at d p) t (int x) d1))"
proof -
  let ?i = "inode_at d p"
  have s: "spares d d1" using d1 by (rule through_ends [THEN conjunct2])
  have same: "blk d1 b = blk d b" if "b \<in> own d p" for b
    using own_block_ok [OF C p that] s by (auto simp: spares_def block_ok_def)
  have le: "nblks d \<le> nblks d1" using s by (simp add: spares_def)
  obtain ds' where run: "add_dirent e (int p) ?i t (int x) d1 =
      (Inr 0, put_block p (encode_inode ?i) (put_block (ptr ?i 0) (encode_dirs ds') d1))"
    by (rule add_dirent_run [OF C p D le same slot t x])
  define d2 where "d2 = put_block (ptr ?i 0) (encode_dirs ds') d1"
  define d3 where "d3 = put_block p (encode_inode ?i) d2"
  have fin: "snd (add_dirent e (int p) ?i t (int x) d1) = d3" by (simp add: run d3_def d2_def)
  have "node_ok d p" using C p by (rule consistentD(2))
  then have pq: "p \<noteq> ptr ?i 0" using D by (simp add: node_ok_def data_blocks_def)
  have pn: "p < nblks d1" using own_inside [OF C p own_self] le by simp
  then have "blk d2 p = encode_inode ?i" and "p < nblks d2"
    using pq same [OF own_self] mountable_length [OF consistentD(1) [OF C], of p]
    by (simp_all add: d2_def blk_put_other inode_at_def inode_codec.enc_dec)
  then have "d3 = d2\<lparr>history := history d2 @ [(p, encode_inode ?i)]\<rparr>"
    using put_block_same [of p d2] by (simp add: d3_def)
  then have "d2 = d3\<lparr>history := history d2\<rparr>" by simp
  then have "P d2" using F [of "history d2"] unfolding fin by simp
  moreover have "P d3" using F [of "history d3"] unfolding fin by simp
  moreover have "through P d d1" using d1 P by (rule through_mono)
  ultimately show ?thesis unfolding fin unfolding d3_def d2_def by (intro through_put)
qed

text \<open>
  Every request of the two: at each moment the image differs from the one before the request
  only in free blocks, or is the one after it.
\<close>

definition before_or_after :: "disk \<Rightarrow> disk \<Rightarrow> disk \<Rightarrow> bool" where
  "before_or_after d d' x \<longleftrightarrow> spares d x \<or> (\<exists>h. x = d'\<lparr>history := h\<rparr>)"

lemma stays_before: "consistent N d \<Longrightarrow> through (before_or_after d d') d d"
  using spares_refl [OF consistentD(1)] by (auto simp: before_or_after_def intro!: stays)

lemma through_before: "through (spares d) d d1 \<Longrightarrow> through (before_or_after d d') d d1"
  by (erule through_mono) (simp add: before_or_after_def)

text \<open>The name of an object made on \<open>d1\<close> is entered, or there is no slot for it.\<close>

lemma object_through:
  assumes C: "consistent N d" and P: "ok_path toks" and E: "new_error (absfs N d) toks = None"
    and L: "alookup (absfs N d) 2 (butlast toks) = Some q"
    and s: "through (spares d) d d1" and x: "x \<in> free_set d" and fs: "free_set d1 = free_set d - F"
    and run: "r = add_dirent e (int q) (inode_at d q) (last toks) (int x) d1"
  shows "through (before_or_after d (snd r)) d (snd r)"
proof -
  note Q = new_parent_is [OF C P E L]
  have x31: "x < 2 ^ 31" using free_set_range [OF x] by auto
  have d1: "mountable d1" "nblks d \<le> nblks d1"
    "\<And>b. b \<noteq> 1 \<Longrightarrow> b < nblks d \<Longrightarrow> b \<notin> free_set d \<Longrightarrow> blk d1 b = blk d b"
    using through_ends [OF s] by (auto simp: spares_def)
  show ?thesis
  proof (cases "free_slot d q")
    case True
    show ?thesis
      unfolding run by (rule entered_through [OF C Q(1,2) s True Q(3-5) x31]) (auto simp: before_or_after_def)
  next
    case False
    then show ?thesis
      unfolding run using object_lost(1) [OF C P E L False d1 fs] through_before [OF s] by simp
  qed
qed

lemma create_through:
  assumes C: "consistent N d" and p: "canonical p"
  shows "through (before_or_after d (snd (fs_create e p m d))) d (snd (fs_create e p m d))"
  using p
proof (cases rule: canonical_cases)
  case 1
  then show ?thesis using root_dir_codes(5) [OF C] stays_before [OF C] by simp
next
  case (2 toks)
  show ?thesis
  proof (cases "new_error (absfs N d) toks")
    case (Some code)
    then show ?thesis using new_codes(1) [OF C 2(1) Some] stays_before [OF C] 2(2) by simp
  next
    case None
    obtain q where L: "alookup (absfs N d) 2 (butlast toks) = Some q" by (rule new_parent [OF C 2(1) None])
    show ?thesis
    proof (cases "free_set d = {}")
      case True
      then show ?thesis using fs_create_full [OF C 2(1) None True] stays_before [OF C] 2(2) by simp
    next
      case False
      obtain d1 x where "x \<in> free_set d" "free_set d1 = free_set d - {x}" "through (spares d) d d1"
        "fs_create e (mkpath toks) m d = add_dirent e (int q) (inode_at d q) (last toks) (int x) d1"
        by (rule create_object [OF C 2(1) None L False, of e m]) blast
      then show ?thesis unfolding 2(2) by (intro object_through [OF C 2(1) None L])
    qed
  qed
qed

lemma mkdir_through:
  assumes C: "consistent N d" and p: "canonical p"
  shows "through (before_or_after d (snd (fs_mkdir e p m d))) d (snd (fs_mkdir e p m d))"
  using p
proof (cases rule: canonical_cases)
  case 1
  then show ?thesis using root_dir_codes(6) [OF C] stays_before [OF C] by simp
next
  case (2 toks)
  show ?thesis
  proof (cases "new_error (absfs N d) toks")
    case (Some code)
    then show ?thesis using new_codes(2) [OF C 2(1) Some] stays_before [OF C] 2(2) by simp
  next
    case None
    obtain q where L: "alookup (absfs N d) 2 (butlast toks) = Some q" by (rule new_parent [OF C 2(1) None])
    show ?thesis
    proof (cases "card (free_set d) < 2")
      case True
      obtain d' where "fs_mkdir e (mkpath toks) m d = (Inl Abort, d')" "through (spares d) d d'"
        using fs_mkdir_full [OF C 2(1) None True, of e m] by blast
      then show ?thesis using through_before 2(2) by simp
    next
      case False
      then have "2 \<le> card (free_set d)" by simp
      then obtain d1 x y where "{x, y} \<subseteq> free_set d" "free_set d1 = free_set d - {x, y}" "through (spares d) d d1"
        "fs_mkdir e (mkpath toks) m d = add_dirent e (int q) (inode_at d q) (last toks) (int x) d1"
        by (rule mkdir_object [OF C 2(1) None L, of e m]) (rule that; assumption)
      then show ?thesis unfolding 2(2) by (intro object_through [OF C 2(1) None L]) auto
    qed
  qed
qed

section \<open>write\<close>

text \<open>
  Somewhere in the loop: bytes up to some \<open>hi\<close> are written, and possibly a further block is taken
  in the map.
\<close>

definition partly :: "disk \<Rightarrow> fs_inode \<Rightarrow> nat \<Rightarrow> nat \<Rightarrow> nat \<Rightarrow> (nat \<Rightarrow> byte) \<Rightarrow> disk \<Rightarrow> bool" where
  "partly d i M lo lim src x \<longleftrightarrow> (\<exists>d' i' M' hi. mapped d' i' M' \<and> wrote d i M d' i' M' lo hi src
     \<and> lo \<le> hi \<and> hi \<le> lim \<and> (x = d' \<or> (\<exists>n. x = put_block 1 (bit_set (dmap d') n) d')))"

lemma partly_start:
  assumes "mapped d i M" and "lo \<le> 4096 * M" and "lo \<le> lim"
  shows "partly d i M lo lim src d" and "partly d i M lo lim src (put_block 1 (bit_set (dmap d) n) d)"
  using assms wrote_nothing [of lo lo M d i src] unfolding partly_def by blast+

lemma partly_trans:
  assumes w: "wrote d i M d1 i1 M1 lo mid src" and "lo \<le> mid" and p: "partly d1 i1 M1 mid lim src x"
  shows "partly d i M lo lim src x"
proof -
  obtain d' i' M' hi where *: "mapped d' i' M'" "wrote d1 i1 M1 d' i' M' mid hi src" "mid \<le> hi" "hi \<le> lim"
    "x = d' \<or> (\<exists>n. x = put_block 1 (bit_set (dmap d') n) d')"
    using p unfolding partly_def by blast
  have "wrote d i M d' i' M' lo hi src" using assms(2) *(3) by (intro wrote_trans [OF w *(2)])
  moreover have "lo \<le> hi" using assms(2) *(3) by simp
  ultimately show ?thesis unfolding partly_def using *(1,4,5) by blast
qed

lemma write_loop_through:
  assumes sz: "0 \<le> sint sz" "nat (sint sz) \<le> 4096 * 1019" and K: "K = (nat (sint sz) + 4095) div 4096"
    and ns: "off + length buf \<le> 4096 * 1019"
  shows "mapped d i M \<Longrightarrow> size_i i = sz \<Longrightarrow> length buffer = 4096 \<Longrightarrow>
     loop_at K off (length buf) M nread bn bo \<Longrightarrow>
     through (partly d i M (nread + off) (off + length buf) (\<lambda>x. buf ! (x - off))) d
       (snd (write_loop e buf (length buf) off (off + length buf) i nread bn bo buffer d))"
proof (induction "length buf - nread" arbitrary: d i M nread bn bo buffer rule: less_induct)
  case less
  note m = less.prems(1) and at = less.prems(4)
  let ?ns = "off + length buf" and ?src = "\<lambda>x. buf ! (x - off)"
  let ?P = "partly d i M (nread + off) ?ns ?src"
  show ?case
  proof (cases "nread < length buf")
    case False
    then have "nread = length buf" and "nread + off \<le> 4096 * M" using at by (auto simp: loop_at_def)
    then show ?thesis
      using partly_start(1) [OF m, of "nread + off"] by (simp add: write_loop_done stays)
  next
    case True
    define r where "r = min (4096 - bo) (length buf - nread)"
    note R = loop_at_round [OF at True ns r_def] and nx = loop_at_next [OF at True ns r_def]
    have fin: "length buf - (nread + r) < length buf - nread" using R(4,6) True by linarith
    have sz': "0 \<le> sint (size_i i)" "nat (sint (size_i i)) \<le> 4096 * 1019"
      "K = (nat (sint (size_i i)) + 4095) div 4096"
      using sz K less.prems(2) by auto
    have lo: "nread + off \<le> 4096 * M"
    proof (cases "bn < K")
      case True
      then have "4096 * (bn + 1) \<le> 4096 * M" using R(8) by simp
      then show ?thesis using R(1,2) by simp
    next
      case False
      then show ?thesis using R(1,9,10) by simp
    qed
    have lim: "nread + off \<le> ?ns" using True by simp
    note start = partly_start [OF m lo lim, of ?src]
    have go: "through ?P d (snd (write_loop e buf (length buf) off ?ns i1 (nread + r) (bn + 1) 0 b d1))"
      if b: "length b = 4096" and m1: "mapped d1 i1 M1" and M1: "M1 = max M (bn + 1)"
        and w: "wrote d i M d1 i1 M1 (nread + off) (nread + off + r) ?src"
        and d1: "\<And>Q. (\<And>x. ?P x \<Longrightarrow> Q x) \<Longrightarrow> Q d1 \<Longrightarrow> through Q d d1" for b d1 i1 M1
    proof -
      have si1: "size_i i1 = sz"
        using wroteD(3) [OF w] less.prems(2) by (metis fs_inode.select_convs(6) fs_inode.surjective fs_inode.update_convs(7))
      have "through (partly d1 i1 M1 (nread + r + off) ?ns ?src) d1
          (snd (write_loop e buf (length buf) off ?ns i1 (nread + r) (bn + 1) 0 b d1))"
        by (rule less.hyps [OF fin m1 si1 b nx [folded M1]])
      then have rest: "through ?P d1 (snd (write_loop e buf (length buf) off ?ns i1 (nread + r) (bn + 1) 0 b d1))"
        by (rule through_mono) (rule partly_trans [OF w], simp_all add: ac_simps)
      have "through ?P d d1" using d1 [of ?P] through_ends [OF rest] by simp
      then show ?thesis using rest by (rule through_trans)
    qed
    show ?thesis
    proof (cases "bn < K")
      case old: True
      obtain b d1 where *: "write_loop e buf (length buf) off ?ns i nread bn bo buffer d =
          write_loop e buf (length buf) off ?ns i (nread + r) (bn + 1) 0 b d1"
        "length b = 4096" "mapped d1 i M" "wrote d i M d1 i M (nread + off) (nread + off + r) ?src"
        "d1 = put_block (ptr i bn) b d"
        by (rule round_old [OF sz' ns m at True old r_def])
      have "M = max M (bn + 1)" using R(8) old by simp
      then show ?thesis
        unfolding *(1) using start(1) by (intro go [OF *(2,3) _ *(4)]) (simp_all add: *(5) through_one)
    next
      case new: False
      then have bM: "bn = M" "bo = 0" using R(9,10) by auto
      show ?thesis
      proof (cases "free_set d = {}")
        case full: True
        have al: "alloc_blk e d = (Inr (- ENOSPC), d)" using m full by (intro alloc_blk_full) (auto simp: mapped_def)
        have "write_loop e buf (length buf) off ?ns i nread bn bo buffer d = (Inl Abort, d)"
          using True m new beyond_size [OF sz', of bn]
          by (intro write_loop_abort [OF _ _ R(3,2) _ _ al]) (auto simp: mapped_def)
        then show ?thesis using start(1) by (simp add: stays)
      next
        case False
        obtain b d2 i1 where *: "write_loop e buf (length buf) off ?ns i nread bn bo buffer d =
            write_loop e buf (length buf) off ?ns i1 (nread + r) (bn + 1) 0 b d2"
          "length b = 4096" "mapped d2 i1 (M + 1)"
          "wrote d i M d2 i1 (M + 1) (nread + off) (nread + off + r) ?src"
          and "\<exists>n. n \<in> free_set d \<and> d2 = put_block n b (put_block 1 (bit_set (dmap d) n) d)"
          by (rule round_new [OF sz' ns m at True new r_def less.prems(3) False])
        then obtain n where "d2 = put_block n b (put_block 1 (bit_set (dmap d) n) d)" by blast
        then show ?thesis
          unfolding *(1) using start bM by (intro go [OF *(2,3) _ *(4)]) (simp_all add: through_put through_one)
      qed
    qed
  qed
qed

definition half_written :: "ptree \<Rightarrow> cstring list \<Rightarrow> byte list \<Rightarrow> nat \<Rightarrow> disk \<Rightarrow> bool" where
  "half_written T toks buf off x \<longleftrightarrow> (\<exists>a c. T toks = Some (File a c) \<and> (\<exists>j\<le>length buf.
     holds_tree (T(toks \<mapsto> File a (take (length c) (splice off (take j buf) c)))) x))"

lemma partly_tree:
  assumes C: "consistent N d" and L: "alookup (absfs N d) 2 toks = Some n" and V: "absfs N d n = Some (AFile a c)"
    and off: "off \<le> length c"
    and x: "partly d (inode_at d n) (nblocks (inode_at d n)) off (off + length buf) (\<lambda>x. buf ! (x - off)) x"
  shows "half_written (tree_of N d) toks buf off x"
proof -
  have n: "n \<in> N" using live_node(1) [OF C L] .
  obtain d' i' M' hi where m: "mapped d' i' M'"
    and w: "wrote d (inode_at d n) (nblocks (inode_at d n)) d' i' M' off hi (\<lambda>x. buf ! (x - off))"
    and hi: "off \<le> hi" "hi \<le> off + length buf" and x: "x = d' \<or> (\<exists>k. x = put_block 1 (bit_set (dmap d') k) d')"
    using x unfolding partly_def by blast
  note part = part_written [OF C n V off m w hi]
  have "mountable d'" using m by (simp add: mapped_def)
  then have "spares d' x" using x spares_take [OF spares_refl] spares_refl by blast
  note sp = spares_tree [OF part(1) this]
  have "tree_of N d' = (tree_of N d)(toks \<mapsto> File a (take (length c) (splice off (take (hi - off) buf) c)))"
    by (rule file_replaced_tree [OF C part(2) L V part(3)])
  moreover have "tree_of N d toks = Some (File a c)"
    using tree_of_Some [OF L] V n by (simp add: node_at_file)
  moreover have "hi - off \<le> length buf" using hi by simp
  ultimately show ?thesis
    using sp(1,2) unfolding half_written_def holds_tree_def by (metis (no_types, lifting))
qed

text \<open>What comes after a loop writes at most once.\<close>

lemma through_andThen_once:
  assumes "through P d (snd (m d))" and "\<And>x. writes_once (f x)" and fin: "P (snd (andThen m f d))"
  shows "through P d (snd (andThen m f d))"
proof (cases "fst (m d)")
  case (Inl s)
  then show ?thesis using assms(1) by (cases "m d") (simp add: andThen_def)
next
  case (Inr x)
  then have r: "andThen m f d = f x (snd (m d))" by (cases "m d") (simp add: andThen_def)
  show ?thesis
    using assms(1) once_through [OF assms(2), of P "snd (m d)" x] through_ends [OF assms(1)] fin through_trans
    unfolding r by blast
qed

lemma write_through:
  fixes buf off
  assumes C: "consistent N d" and p: "canonical p" and e: "wf_env e"
  defines "T \<equiv> tree_of N d" and "d' \<equiv> snd (fs_write e p buf off d)"
  shows "through (\<lambda>x. holds_tree T x \<or> half_written T (comps p) buf off x \<or> x = d') d d'"
proof -
  let ?P = "\<lambda>x. holds_tree T x \<or> half_written T (comps p) buf off x \<or> x = d'"
  have none: ?thesis if "d' = d" unfolding that by (rule stays) simp
  show ?thesis
    using p
  proof (cases rule: canonical_cases)
    case 1
    then show ?thesis using root_dir_codes(2) [OF C] by (intro none) (simp add: d'_def)
  next
    case (2 toks)
    have t: "comps p = toks" using path_tokens [OF 2(1)] 2(2) by (simp add: comps_def)
    show ?thesis
    proof (cases "alookup (absfs N d) 2 toks")
      case None
      then show ?thesis using missing_codes(2) [OF C 2(1) None] 2(2) by (intro none) (simp add: d'_def)
    next
      case L: (Some n)
      show ?thesis
      proof (rule absfs_cases [OF C L])
        fix a s m assume "absfs N d n = Some (ADir a s m)"
        then show ?thesis using dir_codes(2) [OF C 2(1) L] 2(2) by (intro none) (simp add: d'_def)
      next
        fix a c assume V: "absfs N d n = Some (AFile a c)"
        consider "length c < off" | "off \<le> length c" "4096 * 1019 < off + length buf"
          | "off \<le> length c" "off + length buf \<le> 4096 * 1019" by linarith
        then show ?thesis
        proof cases
          case in_range: 3
          note q = path_live [OF C 2(1) L]
          define i where "i = inode_at d n"
          have f: "\<not> S_ISDIR (mode i)" and c: "c = content d i"
            using V q(2) view_file [of d n a c] by (auto simp: i_def)
          have R: "readable d i" unfolding i_def using q(5) f [unfolded i_def] by (rule node_readable)
          have sz: "0 \<le> sint (size_i i)" "sint (size_i i) = int (fsize i)" "fsize i \<le> 4096 * 1019" "fsize i = length c"
            using R by (simp_all add: readable_def fsize_int c content_def)
          have s32: "nat (sint (size_i i)) \<le> 4096 * 1019" using sz by simp
          have mp: "mapped d i (nblocks i)" unfolding i_def by (rule file_mapped [OF C q(2) f [unfolded i_def]])
          have lb: "length (stack e ''buffer'') = 4096" using e by (simp add: wf_env_def)
          have at: "loop_at ((nat (sint (size_i i)) + 4095) div 4096) off (length buf) (nblocks i) 0 (off div 4096) (off mod 4096)"
            using file_loop_start [of off i "length buf"] in_range by (simp add: sz)
          let ?loop = "write_loop e buf (length buf) off (off + length buf) i 0 (off div 4096) (off mod 4096) (stack e ''buffer'')"
          let ?fin = "\<lambda>w. case w of None \<Rightarrow> ret (- ENOSPC)
             | Some (i, nread) \<Rightarrow> andThen (block_write (encode_inode
                 ((if sint (size_i i) < int off + int (length buf) then i\<lparr>size_i := word_of_nat (off + length buf)\<rparr> else i)
                    \<lparr>mtime := now e\<rparr>)) (int n)) (\<lambda>_. ret (wrap32 (int nread)))"
          have "through (partly d i (nblocks i) (0 + off) (off + length buf) (\<lambda>x. buf ! (x - off))) d (snd (?loop d))"
            by (rule write_loop_through [OF sz(1) s32 refl in_range(2) mp refl lb at])
          then have loop: "through ?P d (snd (?loop d))"
            by (rule through_mono) (use partly_tree [OF C L V in_range(1), of buf] in \<open>simp add: i_def T_def t\<close>)
          have once: "writes_once (?fin w)" for w
            by (auto simp: Let_def split: option.split intro!: once_rules keeps_ret)
          have "\<not> sint (size_i i) < int off" using in_range by (simp add: sz)
          then have run: "fs_write e p buf off d = andThen ?loop ?fin d"
            using q f in_range unfolding 2(2) i_def
            by (simp add: fs_write_def andThen_def run_simps Let_def inode_at_def [symmetric])
          show ?thesis
            unfolding d'_def run
            by (rule through_andThen_once [where m = ?loop and f = ?fin, OF _ once])
               (use loop in \<open>simp_all add: d'_def run\<close>)
        qed (use write_range [OF C 2(1) L V] 2(2) none in \<open>simp_all add: d'_def\<close>)
      qed
    qed
  qed
qed

section \<open>Requests that free blocks\<close>

text \<open>A block of a live object is freed, and nothing else has changed: no set of objects makes the
  image consistent.\<close>

lemma still_reached:
  assumes C: "consistent N d" and C': "consistent N' d'" and same: "\<And>b. b \<noteq> 1 \<Longrightarrow> blk d' b = blk d b"
  shows "alookup (absfs N d) m toks = Some n \<Longrightarrow> m \<in> N \<Longrightarrow> m \<in> N' \<Longrightarrow> n \<in> N \<and> n \<in> N'"
proof (induction toks arbitrary: m)
  case Nil
  then show ?case by simp
next
  case (Cons t ts)
  have "b \<noteq> 1" if "b \<in> own d m" for b using own_not_map [OF C Cons.prems(2)] that by auto
  then have "view d' m = view d m" using same by (intro view_frame(4)) auto
  moreover obtain k where k: "children (absfs N d m) t = Some k" and ts: "alookup (absfs N d) k ts = Some n"
    using Cons.prems(1) by (auto split: option.splits)
  ultimately have "children (absfs N' d' m) t = Some k" using Cons.prems(2,3) by simp
  then have "k \<in> N'" using tree_okD(3) [OF consistentD(3) [OF C']] by (metis absfs_out)
  moreover have "k \<in> N" using tree_okD(3) [OF consistentD(3) [OF C] k] by (metis absfs_out)
  ultimately show ?case using Cons.IH [OF ts] by simp
qed

lemma freed_breaks:
  assumes C: "consistent N d" and P: "ok_path toks" and L: "alookup (absfs N d) 2 toks = Some n"
    and b: "b \<in> own d n"
  shows "\<not> consistent N' (put_block 1 (bit_clear (dmap d) b) d)"
proof
  let ?d = "put_block 1 (bit_clear (dmap d) b) d"
  assume C': "consistent N' ?d"
  have mt: "mountable d" using C by (rule consistentD(1))
  have same: "blk ?d x = blk d x" if "x \<noteq> 1" for x
    using that mountable_blocks [OF mt] by (intro blk_put_map) auto
  have n: "n \<in> N" "n \<in> N'"
    using still_reached [OF C C' same L root_in(1) [OF C] root_in(1) [OF C']] by simp_all
  obtain p where "n \<noteq> 2" by (rule old_parent [OF C P L])
  then have b3: "3 \<le> b" "b < 32768" using own_ge3 [OF C n(1) _ b] by auto
  have "x \<noteq> 1" if "x \<in> own d n" for x using own_not_map [OF C n(1)] that by auto
  then have "own ?d n = own d n" using same by (intro view_frame(2)) auto
  then have "block_ok ?d b" using node_block_ok [OF consistentD(2) [OF C' n(2)]] b by simp
  then show False using free_blk_free_set [OF mt b3(2)] b3 by (simp add: block_ok_def)
qed

text \<open>What a function does to the image is a sequence of block writes.\<close>

lemma keeps_writes_block: "keeps (through (\<lambda>_. True) d0) (block_write b l)"
  by (auto simp: keeps_def block_write_def Let_def intro: through_put)

lemma keeps_writes_free: "keeps (through (\<lambda>_. True) d0) (free_blk e i)"
  by (auto simp: free_blk_def intro!: keeps_andThen keeps_if keeps_load keeps_halt keeps_ret keeps_writes_block)

lemma keeps_writes_free_ptrs: "keeps (through (\<lambda>_. True) d0) (free_ptrs e i k n)"
  by (induction n arbitrary: k) (auto intro!: keeps_andThen keeps_halt keeps_ret keeps_writes_free)

lemma keeps_writes_remove: "keeps (through (\<lambda>_. True) d0) (remove_dirent e db p i n)"
  by (auto simp: remove_dirent_def Let_def intro!: keeps_andThen keeps_load keeps_ret keeps_writes_block)

lemmas keeps_writes = keeps_writes_block keeps_writes_free keeps_writes_free_ptrs keeps_writes_remove

text \<open>A request that begins with \<open>free_blk\<close> and is killed after the first write.\<close>

lemma crash_first:
  assumes run: "m d = andThen (free_blk e (int b)) f d" and mt: "mountable d" and b: "b < MAP_BITS"
    and f: "\<And>d0 x. keeps (through (\<lambda>_. True) d0) (f x)"
  shows "crash 1 m d = put_block 1 (bit_clear (dmap d) b) d"
proof -
  let ?d = "put_block 1 (bit_clear (dmap d) b) d"
  have "m d = f () ?d" using mt b by (simp add: run andThen_def free_blk_run)
  then have "through (\<lambda>_. True) ?d (snd (m d))"
    using keepsD [OF f, of ?d ?d "()"] stays [of "\<lambda>_. True" ?d] by simp
  then obtain ws where "snd (m d) = replay ws ?d" using through_replay by blast
  then show ?thesis by (simp add: crash_def)
qed

lemma crash_reply: "crash k (andThen m (\<lambda>x. ret (f x))) d = crash k m d"
proof -
  have "snd (andThen m (\<lambda>x. ret (f x)) d) = snd (m d)"
    by (cases "m d"; cases "fst (m d)") (auto simp: andThen_def ret_def)
  then show ?thesis by (simp add: crash_def)
qed

lemma broken_first:
  assumes C: "consistent N d" and P: "ok_path toks" and L: "alookup (absfs N d) 2 toks = Some n"
    and b: "b \<in> own d n" and run: "m d = andThen (free_blk e (int b)) f d"
    and f: "\<And>d0 x. keeps (through (\<lambda>_. True) d0) (f x)"
  shows "\<not> consistent N' (crash 1 m d)"
proof -
  obtain p where n: "n \<in> N" "n \<noteq> 2" by (rule old_parent [OF C P L])
  have "b < MAP_BITS" using own_ge3 [OF C n b] by simp
  then have "crash 1 m d = put_block 1 (bit_clear (dmap d) b) d"
    using consistentD(1) [OF C] run by (intro crash_first [where m = m and f = f] f)
  then show ?thesis using freed_breaks [OF C P L b] by simp
qed

lemma free_data_first:
  assumes C: "consistent N d" and n: "n \<in> N" and f: "\<not> S_ISDIR (mode (inode_at d n))"
  shows "nblocks (inode_at d n) = 0 \<Longrightarrow> free_data e (inode_at d n) = ret ()"
    and "0 < nblocks (inode_at d n) \<Longrightarrow> ptr (inode_at d n) 0 \<in> own d n \<and>
      free_data e (inode_at d n) = andThen (free_blk e (int (ptr (inode_at d n) 0)))
        (\<lambda>_. free_ptrs e (inode_at d n) 1 (nblocks (inode_at d n) - 1))"
proof -
  let ?i = "inode_at d n"
  have ok: "node_ok d n" using C n by (rule consistentD(2))
  have sz: "0 \<le> sint (size_i ?i)" "fsize ?i \<le> 4096 * 1019" using ok f by (simp_all add: node_ok_def)
  have k: "nat (DIV_ROUND_UP (sint (size_i ?i)) 4096) = nblocks ?i" by (simp add: DIV_ROUND_UP_size [OF sz])
  show "nblocks ?i = 0 \<Longrightarrow> free_data e ?i = ret ()" using k by (simp add: free_data_def)
  assume pos: "0 < nblocks ?i"
  then have own: "ptr ?i 0 \<in> own d n" using f by (simp add: own_def data_blocks_def)
  then have "sint (ptrs ?i ! 0) = int (ptr ?i 0)"
    using node_block_ok [OF ok own] block_ok_sint [of d "ptrs ?i ! 0"] by (simp add: ptr_def)
  then show "ptr ?i 0 \<in> own d n \<and> free_data e ?i = andThen (free_blk e (int (ptr ?i 0)))
        (\<lambda>_. free_ptrs e ?i 1 (nblocks ?i - 1))"
    using own pos k by (cases "nblocks ?i") (simp_all add: free_data_def)
qed

lemma unlink_broken:
  assumes C: "consistent N d" and P: "ok_path toks" and L: "alookup (absfs N d) 2 toks = Some n"
    and V: "absfs N d n = Some (AFile a c)"
  shows "\<not> consistent N' (crash 1 (fs_unlink e (mkpath toks)) d)"
proof -
  obtain p where p: "alookup (absfs N d) 2 (butlast toks) = Some p"
    and ok: "del_error (absfs N d) toks = None" and n: "n \<in> N" by (rule old_parent [OF C P L])
  let ?i = "inode_at d n"
  have f: "\<not> S_ISDIR (mode ?i)" using V n view_file [of d n a c] by auto
  define last where "last = (\<lambda>_ :: unit. remove_dirent e (stack e ''dirs'') (int p) (inode_at d p) (int n))"
  have run: "fs_unlink e (mkpath toks) d = andThen (free_data e ?i) (\<lambda>_. andThen (free_blk e (int n)) last) d"
    using prepare_del_run [OF C P, of e] ok p L f
    by (simp add: fs_unlink_def andThen_def ret_def Let_def last_def)
  have kl: "keeps (through (\<lambda>_. True) d0) (last x)" for d0 x by (simp add: last_def keeps_writes_remove)
  show ?thesis
  proof (cases "nblocks ?i = 0")
    case True
    then show ?thesis
      using broken_first [OF C P L own_self _ kl] run free_data_first(1) [OF C n f True] by simp
  next
    case False
    then have "0 < nblocks ?i" by simp
    note first = free_data_first(2) [OF C n f this, of e]
    let ?rest = "\<lambda>_ :: unit. andThen (free_ptrs e ?i 1 (nblocks ?i - 1)) (\<lambda>_. andThen (free_blk e (int n)) last)"
    have "keeps (through (\<lambda>_. True) d0) (?rest x)" for d0 x
      by (intro keeps_andThen keeps_writes kl)
    with first show ?thesis
      using run by (intro broken_first [where f = ?rest, OF C P L]) (simp_all add: andThen_assoc)
  qed
qed

lemma truncate_is:
  assumes C: "consistent N d" and P: "ok_path toks" and L: "alookup (absfs N d) 2 toks = Some n"
    and f: "\<not> S_ISDIR (mode (inode_at d n))"
  shows "fs_truncate e (mkpath toks) 0 d = andThen (free_data e (inode_at d n))
    (\<lambda>_. andThen (block_write (encode_inode ((inode_at d n)\<lparr>size_i := 0\<rparr>)) (int n)) (\<lambda>_. ret 0)) d"
  using path_live [OF C P L] f
  by (simp add: fs_truncate_def andThen_def run_simps inode_at_def [symmetric] Let_def)

lemma truncate_broken:
  assumes C: "consistent N d" and P: "ok_path toks" and L: "alookup (absfs N d) 2 toks = Some n"
    and V: "absfs N d n = Some (AFile a c)" and ne: "c \<noteq> []"
  shows "\<not> consistent N' (crash 1 (fs_truncate e (mkpath toks) 0) d)"
proof -
  note p = path_live [OF C P L]
  let ?i = "inode_at d n"
  have f: "\<not> S_ISDIR (mode ?i)" and c: "c = content d ?i" using V p(2) view_file [of d n a c] by auto
  have "0 < nblocks ?i" using ne by (simp add: c content_def nblocks_def)
  note first = free_data_first(2) [OF C p(2) f this, of e]
  let ?fin = "\<lambda>_ :: unit. andThen (block_write (encode_inode (?i\<lparr>size_i := 0\<rparr>)) (int n)) (\<lambda>_. ret 0)"
  let ?rest = "\<lambda>_ :: unit. andThen (free_ptrs e ?i 1 (nblocks ?i - 1)) ?fin"
  have "keeps (through (\<lambda>_. True) d0) (?rest x)" for d0 x
    by (intro keeps_andThen keeps_writes keeps_ret)
  with first show ?thesis
    using truncate_is [OF C P L f] by (intro broken_first [where f = ?rest, OF C P L]) (simp_all add: andThen_assoc)
qed

lemma truncate_empty_once:
  assumes C: "consistent N d" and P: "ok_path toks" and L: "alookup (absfs N d) 2 toks = Some n"
    and V: "absfs N d n = Some (AFile a [])"
  shows "\<exists>m :: (disk, int) io. writes_once m \<and> fs_truncate e (mkpath toks) 0 d = m d"
proof -
  note p = path_live [OF C P L]
  let ?i = "inode_at d n"
  have f: "\<not> S_ISDIR (mode ?i)" and c: "content d ?i = []" using V p(2) view_file [of d n a "[]"] by auto
  have "nblocks ?i = 0" using c by (simp add: content_def nblocks_def)
  note first = free_data_first(1) [OF C p(2) f this, of e]
  let ?fin = "andThen (block_write (encode_inode (?i\<lparr>size_i := 0\<rparr>)) (int n)) (\<lambda>_. ret 0)"
  have "fs_truncate e (mkpath toks) 0 d = ?fin d"
    using truncate_is [OF C P L f, of e] first by simp
  moreover have "writes_once ?fin" by (intro once_rules keeps_ret)
  ultimately show ?thesis by blast
qed

lemma rmdir_broken:
  assumes C: "consistent N d" and P: "ok_path toks" and L: "alookup (absfs N d) 2 toks = Some n"
    and V: "absfs N d n = Some (ADir a s Map.empty)"
  shows "\<not> consistent N' (crash 1 (fs_rmdir e (mkpath toks)) d)"
proof -
  obtain p where p: "alookup (absfs N d) 2 (butlast toks) = Some p"
    and ok: "del_error (absfs N d) toks = None" and n: "n \<in> N" by (rule old_parent [OF C P L])
  let ?i = "inode_at d n"
  let ?q = "ptr ?i 0"
  have f: "S_ISDIR (mode ?i)" and e: "dir_map (dirs_at d ?i) = Map.empty"
    using V n by (auto simp: view_def Let_def split: if_splits)
  have nok: "node_ok d n" using C n by (rule consistentD(2))
  have emp: "\<not> scan valid (decode_dirs (blk d ?q)) < 128"
    using empty_dir_iff [OF C n f] e by (simp add: dirs_at_def)
  note q = dir_ptr(2) [OF nok f] dir_read [OF nok f]
  have rq: "block_read (int ?q) d = Some (blk d ?q)" using q by simp
  let ?rest = "\<lambda>_ :: unit. andThen (free_blk e (int n))
    (\<lambda>_. remove_dirent e (blk d ?q) (int p) (inode_at d p) (int n))"
  have "fs_rmdir e (mkpath toks) d = andThen (free_blk e (int ?q)) ?rest d"
    using prepare_del_run [OF C P, of e] ok p L f emp
    by (simp add: fs_rmdir_def andThen_def run_simps q(1) rq Let_def)
  moreover have "keeps (through (\<lambda>_. True) d0) (?rest x)" for d0 x
    by (intro keeps_andThen keeps_writes)
  moreover have "?q \<in> own d n" using f by (rule dir_ptr_own)
  ultimately show ?thesis by (intro broken_first [where f = ?rest, OF C P L])
qed

section \<open>Every request\<close>

fun removal :: "ptree \<Rightarrow> request \<Rightarrow> bool" where
  "removal T (Unlink p) = (\<exists>a c. T (comps p) = Some (File a c))"
| "removal T (Rmdir p) = (\<exists>a s xs. T (comps p) = Some (Dir a s xs) \<and> entries xs = [])"
| "removal T (Truncate p len) = (len = 0 \<and> (\<exists>a c. T (comps p) = Some (File a c) \<and> c \<noteq> []))"
| "removal T r = False"

fun in_write :: "ptree \<Rightarrow> request \<Rightarrow> disk \<Rightarrow> bool" where
  "in_write T (Write p buf off) x = half_written T (comps p) buf off x"
| "in_write T r x = False"

text \<open>A request that removes nothing: each image on the way stands for the tree before or after it,
  or for the tree with a part of the buffer written.\<close>

definition survives :: "env \<Rightarrow> request \<Rightarrow> nat set \<Rightarrow> disk \<Rightarrow> disk \<Rightarrow> bool" where
  "survives e r N d x \<longleftrightarrow> holds_tree (tree_of N d) x
     \<or> holds_tree (nodes (snd (tree_ops e r (fsys_of N d)))) x \<or> in_write (tree_of N d) r x"

lemma survives_ends:
  assumes "consistent N d" and "wf_env e" and "ok_request r"
  shows "survives e r N d d" and "survives e r N d ((snd (fs_ops e r d))\<lparr>history := h\<rparr>)"
proof -
  show "survives e r N d d" using holds_tree_self [OF assms(1)] by (simp add: survives_def)
  obtain N' where "consistent N' (snd (fs_ops e r d))" "fsys_of N' (snd (fs_ops e r d)) = snd (tree_ops e r (fsys_of N d))"
    using request_refines [OF assms] by (auto simp: refines_def)
  then show "survives e r N d ((snd (fs_ops e r d))\<lparr>history := h\<rparr>)"
    unfolding survives_def holds_tree_def by (metis fsys_of_simps(1) same_image(13) tree_history)
qed

lemma snd_reply: "snd (andThen m (\<lambda>x. ret (f x)) d) = snd (m d)"
  by (cases "m d"; cases "fst (m d)") (auto simp: andThen_def ret_def)

lemma once_survives:
  assumes "consistent N d" and "wf_env e" and "ok_request r" and "writes_once m" and "snd (fs_ops e r d) = snd (m d)"
  shows "through (survives e r N d) d (snd (fs_ops e r d))"
proof -
  have "survives e r N d (snd (m d))"
    using survives_ends(2) [OF assms(1-3), of "history (snd (m d))"] by (simp add: assms(5))
  then show ?thesis
    unfolding assms(5) using survives_ends(1) [OF assms(1-3)] by (intro once_through [OF assms(4)])
qed

lemma same_survives:
  assumes "consistent N d" and "wf_env e" and "ok_request r" and "snd (fs_ops e r d) = d"
  shows "through (survives e r N d) d (snd (fs_ops e r d))"
  unfolding assms(4) using survives_ends(1) [OF assms(1-3)] by (rule stays)

lemma new_survives:
  assumes "consistent N d" and "wf_env e" and "ok_request r"
    and "through (before_or_after d (snd (fs_ops e r d))) d (snd (fs_ops e r d))"
  shows "through (survives e r N d) d (snd (fs_ops e r d))"
  using assms(4)
proof (rule through_mono)
  fix x assume "before_or_after d (snd (fs_ops e r d)) x"
  then show "survives e r N d x"
    unfolding before_or_after_def
  proof
    assume "spares d x"
    then show ?thesis using spares_tree(1,2) [OF assms(1)] unfolding survives_def holds_tree_def by blast
  next
    assume "\<exists>h. x = (snd (fs_ops e r d))\<lparr>history := h\<rparr>"
    then show ?thesis using survives_ends(2) [OF assms(1-3)] by blast
  qed
qed

lemma tree_missing: "alookup (absfs N d) 2 toks = None \<Longrightarrow> tree_of N d toks = None"
  by (simp add: tree_of_def)

lemma unlink_either:
  assumes C: "consistent N d" and p: "canonical p" "p \<noteq> [slash]"
  shows "(if removal (tree_of N d) (Unlink p) then \<forall>N'. \<not> consistent N' (crash 1 (fs_unlink e p) d)
    else snd (fs_unlink e p d) = d)"
  using p(1)
proof (cases rule: canonical_cases)
  case 1
  with p(2) show ?thesis by simp
next
  case (2 toks)
  have t: "comps p = toks" using 2(3) by (simp add: comps_def)
  show ?thesis
  proof (cases "alookup (absfs N d) 2 toks")
    case None
    then obtain code where "del_error (absfs N d) toks = Some code" using del_error_missing by blast
    then show ?thesis using del_codes(1) [OF C 2(1)] tree_missing [OF None] 2(2) t by simp
  next
    case L: (Some n)
    from C L show ?thesis
    proof (cases rule: node_view)
      case (1 a s m)
      then show ?thesis using fs_unlink_dir [OF C 2(1) L] tree_of_Some [OF L] 2(2) t by simp
    next
      case (2 a c)
      then show ?thesis
        using unlink_broken [OF C \<open>ok_path toks\<close> L] tree_of_Some [OF L] \<open>p = mkpath toks\<close> t by simp
    qed
  qed
qed

lemma rmdir_either:
  assumes C: "consistent N d" and p: "canonical p" "p \<noteq> [slash]"
  shows "(if removal (tree_of N d) (Rmdir p) then \<forall>N'. \<not> consistent N' (crash 1 (fs_rmdir e p) d)
    else snd (fs_rmdir e p d) = d)"
  using p(1)
proof (cases rule: canonical_cases)
  case 1
  with p(2) show ?thesis by simp
next
  case (2 toks)
  have t: "comps p = toks" using 2(3) by (simp add: comps_def)
  note P = 2(1) and pm = 2(2)
  show ?thesis
  proof (cases "alookup (absfs N d) 2 toks")
    case None
    then obtain code where "del_error (absfs N d) toks = Some code" using del_error_missing by blast
    then show ?thesis using del_codes(2) [OF C P] tree_missing [OF None] pm t by simp
  next
    case L: (Some n)
    from C L show ?thesis
    proof (cases rule: node_view)
      case V: (1 a s m)
      have T: "tree_of N d toks = Some (Dir a s (slots d n))" using tree_of_Some [OF L] V(3) by simp
      have empty: "entries (slots d n) = [] \<longleftrightarrow> m = Map.empty" unfolding V(4) by (rule entries_empty)
      show ?thesis
      proof (cases "m = Map.empty")
        case True
        then show ?thesis using rmdir_broken [OF C P L, of a s] V(1) T empty pm t by simp
      next
        case False
        then show ?thesis using fs_rmdir_full [OF C P L V(1)] T empty pm t by simp
      qed
    next
      case (2 a c)
      then show ?thesis using fs_rmdir_file [OF C P L] tree_of_Some [OF L] pm t by simp
    qed
  qed
qed

lemma truncate_either:
  assumes C: "consistent N d" and p: "canonical p"
  shows "(if removal (tree_of N d) (Truncate p len) then \<forall>N'. \<not> consistent N' (crash 1 (fs_truncate e p len) d)
    else \<exists>m :: (disk, int) io. writes_once m \<and> fs_truncate e p len d = m d)"
proof (cases "len = 0")
  case False
  then show ?thesis using fs_truncate_len [OF False] once_ret by (metis removal.simps(3) ret_def)
next
  case len: True
  have none: ?thesis if "\<not> removal (tree_of N d) (Truncate p len)" "fs_truncate e p 0 d = (Inr r, d)" for r
    using that once_ret [of r] len by (metis ret_def)
  show ?thesis
    using p
  proof (cases rule: canonical_cases)
    case 1
    obtain a s xs where "tree_of N d [] = Some (Dir a s xs)" by (rule root_node [OF C])
    then show ?thesis using root_dir_codes(3) [OF C] 1 by (intro none) (simp_all add: comps_def)
  next
    case (2 toks)
    have t: "comps p = toks" using 2(3) by (simp add: comps_def)
    note P = 2(1) and pm = 2(2)
    show ?thesis
    proof (cases "alookup (absfs N d) 2 toks")
      case None
      then show ?thesis using missing_codes(3) [OF C P None] tree_missing [OF None] pm t by (intro none) simp_all
    next
      case L: (Some n)
      from C L show ?thesis
      proof (cases rule: node_view)
        case (1 a s m)
        then show ?thesis using dir_codes(3) [OF C P L] tree_of_Some [OF L] pm t by (intro none) simp_all
      next
        case V: (2 a c)
        have T: "tree_of N d toks = Some (File a c)" using tree_of_Some [OF L] V(3) by simp
        show ?thesis
        proof (cases "c = []")
          case True
          then show ?thesis using truncate_empty_once [OF C P L, of a e] V(1) T pm t len by simp
        next
          case False
          then show ?thesis using truncate_broken [OF C P L V(1) False, of _ e] T pm t len by simp
        qed
      qed
    qed
  qed
qed

lemma request_survives:
  assumes C: "consistent N d" and e: "wf_env e" and r: "ok_request r" and keep: "\<not> removal (tree_of N d) r"
  shows "through (survives e r N d) d (snd (fs_ops e r d))"
proof -
  note same = same_survives [OF C e r] and once = once_survives [OF C e r] and new = new_survives [OF C e r]
  show ?thesis
  proof (cases "reading r")
    case True
    then show ?thesis by (intro same reading_same)
  next
    case False
    then show ?thesis
    proof (cases r)
      case (Rename s t)
      then show ?thesis by (intro once [OF once_rename, of s t]) (simp add: snd_reply)
    next
      case (Chmod p m)
      then show ?thesis by (intro once [OF once_chmod, of e p m]) (simp add: snd_reply)
    next
      case (Utime p ut)
      then show ?thesis by (intro once [OF once_utime, of e p ut]) (simp add: snd_reply)
    next
      case (Create p m)
      then show ?thesis using create_through [OF C, of p e m] r by (intro new) (simp add: snd_reply)
    next
      case (Mkdir p m)
      then show ?thesis using mkdir_through [OF C, of p e m] r by (intro new) (simp add: snd_reply)
    next
      case (Write p buf off)
      then have "canonical p" using r by simp
      note W = write_through [OF C this e, of buf off]
      have fin: "snd (fs_ops e r d) = snd (fs_write e p buf off d)" by (simp add: Write snd_reply)
      have "survives e r N d (snd (fs_write e p buf off d))"
        using survives_ends(2) [OF C e r, of "history (snd (fs_write e p buf off d))"] by (simp add: fin)
      then show ?thesis
        unfolding fin by (intro through_mono [OF W]) (metis Write in_write.simps(1) survives_def)
    next
      case (Unlink p)
      then show ?thesis using unlink_either [OF C, of p e] r keep by (intro same) (simp add: snd_reply)
    next
      case (Rmdir p)
      then show ?thesis using rmdir_either [OF C, of p e] r keep by (intro same) (simp add: snd_reply)
    next
      case (Truncate p len)
      then obtain m :: "(disk, int) io" where "writes_once m" "fs_truncate e p len d = m d"
        using truncate_either [OF C, of p len e] r keep by (metis ok_request.simps(13))
      then show ?thesis using Truncate by (intro once) (simp_all add: snd_reply)
    qed simp_all
  qed
qed

lemma request_breaks:
  assumes C: "consistent N d" and r: "ok_request r" and rem: "removal (tree_of N d) r"
  shows "\<not> consistent N' (crash 1 (fs_ops e r) d)"
proof (cases r)
  case (Unlink p)
  then show ?thesis using unlink_either [OF C, of p e] r rem by (simp add: crash_reply)
next
  case (Rmdir p)
  then show ?thesis using rmdir_either [OF C, of p e] r rem by (simp add: crash_reply)
next
  case (Truncate p len)
  then show ?thesis using truncate_either [OF C, of p len e] r rem by (simp add: crash_reply)
qed (use rem in simp_all)

section \<open>The image after a kill\<close>

lemma holds_tree_consistent: "holds_tree T d \<Longrightarrow> \<exists>N. consistent N d"
  by (auto simp: holds_tree_def)

lemma survives_consistent: "survives e r N d x \<Longrightarrow> \<exists>N'. consistent N' x"
  by (cases r) (auto simp: survives_def half_written_def dest: holds_tree_consistent)

lemma through_crash_ends:
  assumes "through P d (snd (m d))"
  shows "crash 0 m d = d" and "\<exists>n. \<forall>k\<ge>n. crash k m d = snd (m d)"
proof -
  obtain ws where ws: "snd (m d) = replay ws d" using through_replay [OF assms] by blast
  show "crash 0 m d = d" by (simp add: crash_def)
  have "crash k m d = snd (m d)" if "length ws \<le> k" for k using that by (simp add: crash_def ws)
  then show "\<exists>n. \<forall>k\<ge>n. crash k m d = snd (m d)" by blast
qed

lemma killed_survives:
  assumes "consistent N d" and "wf_env e" and "ok_request r" and "\<not> removal (tree_of N d) r"
  shows "survives e r N d (crash k (fs_ops e r) d)"
  by (rule through_crash [where m = "fs_ops e r"]) (rule request_survives [OF assms])

lemma killed_ends:
  assumes "consistent N d" and "wf_env e" and "ok_request r" and "\<not> removal (tree_of N d) r"
  shows "crash 0 (fs_ops e r) d = d" and "\<exists>n. \<forall>k\<ge>n. crash k (fs_ops e r) d = snd (fs_ops e r d)"
  using through_crash_ends [where m = "fs_ops e r", OF request_survives [OF assms]] by blast+

lemma killed_iff:
  assumes "consistent N d" and "wf_env e" and "ok_request r"
  shows "(\<forall>k. \<exists>N'. consistent N' (crash k (fs_ops e r) d)) \<longleftrightarrow> \<not> removal (tree_of N d) r"
  using request_breaks [OF assms(1,3), of _ e] killed_survives [OF assms] survives_consistent by blast

text \<open>Only a rename to an overlong name writes outside a C object.\<close>

lemma not_undef:
  assumes "consistent N d" and "wf_env e" and "ok_request r" and "\<And>p q. r \<noteq> Rename p q"
  shows "fst (fs_ops e r d) \<noteq> Inl Undef"
proof
  assume "fst (fs_ops e r d) = Inl Undef"
  then have "may_stop d r Undef" using fs_ops_safe [OF assms(1-3)] by (simp add: safe_def)
  then show False using assms(4) by (cases r) auto
qed

text \<open>
  Requests, kills and new mounts, in any order. A kill in a request that may free blocks is left out,
  and so is a request that writes outside a C object: after that nothing is known of the image.
\<close>

fun may_free :: "request \<Rightarrow> bool" where
  "may_free (Unlink p) = True"
| "may_free (Rmdir p) = True"
| "may_free (Truncate p len) = True"
| "may_free r = False"

inductive life :: "disk \<Rightarrow> disk \<Rightarrow> bool" for d0 where
  fresh: "life d0 d0"
| ran: "life d0 d \<Longrightarrow> wf_env e \<Longrightarrow> ok_request r \<Longrightarrow> fst (fs_ops e r d) \<noteq> Inl Undef \<Longrightarrow> life d0 (snd (fs_ops e r d))"
| killed: "life d0 d \<Longrightarrow> wf_env e \<Longrightarrow> ok_request r \<Longrightarrow> \<not> may_free r \<Longrightarrow>
    fst (fs_ops e r d) \<noteq> Inl Undef \<Longrightarrow> life d0 (crash k (fs_ops e r) d)"

lemma may_free_removal: "removal T r \<Longrightarrow> may_free r"
  by (cases r) auto

lemma life_consistent:
  assumes "life d0 d" and "consistent N d0"
  shows "\<exists>N'. consistent N' d"
  using assms(1)
proof induction
  case fresh
  then show ?case using assms(2) by blast
next
  case (ran d e r)
  then show ?case using fs_ops_safe by (metis safe_def)
next
  case (killed d e r k)
  then show ?case using killed_iff may_free_removal by metis
qed

end
