(* ===== verification/AllocThreads.thy ===== *)
theory AllocThreads
  imports Bitmap
begin

text \<open>
  \<open>alloc_blk\<close> reads the map, looks for a clear bit and writes the map back. Even when each block
  operation is one step, the thread of another request can come in between: \<open>fs5600.c\<close> has no lock.
\<close>

section \<open>The calls as steps\<close>

datatype allocator =
    Alloc_read
  | Alloc_write nat "byte list"
  | Alloc_returned int
  | Alloc_stopped stop

fun alloc_advance :: "env \<Rightarrow> allocator \<Rightarrow> disk \<Rightarrow> (allocator \<times> disk) option" where
  "alloc_advance e Alloc_read d = (case load (stack e ''map'') 1 d of
     (Inl s, d') \<Rightarrow> Some (Alloc_stopped s, d')
   | (Inr m, d') \<Rightarrow> Some (case first_clear m 3 of
       Some i \<Rightarrow> Alloc_write i (bit_set m i) | None \<Rightarrow> Alloc_returned (- ENOSPC), d'))"
| "alloc_advance e (Alloc_write i m) d = (case block_write m 1 d of
     (Inl s, d') \<Rightarrow> Some (Alloc_stopped s, d')
   | (Inr _, d') \<Rightarrow> Some (Alloc_returned (int i), d'))"
| "alloc_advance e (Alloc_returned r) d = None"
| "alloc_advance e (Alloc_stopped s) d = None"

fun alloc_schedule :: "env \<Rightarrow> nat list \<Rightarrow> allocator list \<times> disk \<Rightarrow> (allocator list \<times> disk) option" where
  "alloc_schedule e [] c = Some c"
| "alloc_schedule e (i # is) (ts, d) = (if i < length ts then
     (case alloc_advance e (ts ! i) d of None \<Rightarrow> None | Some (t, d') \<Rightarrow> alloc_schedule e is (ts[i := t], d')) else None)"

text \<open>One after the other, the calls are those of \<open>alloc_blk\<close>.\<close>

definition alloc_ends :: "stop + int \<Rightarrow> allocator" where
  "alloc_ends r = (case r of Inl s \<Rightarrow> Alloc_stopped s | Inr i \<Rightarrow> Alloc_returned i)"

lemma alloc_alone:
  assumes "i < length ts" and "ts ! i = Alloc_read"
  shows "\<exists>is. set is \<subseteq> {i} \<and> alloc_schedule e is (ts, d) =
    (case alloc_blk e d of (r, d') \<Rightarrow> Some (ts[i := alloc_ends r], d'))"
proof -
  obtain m where ld: "load (stack e ''map'') 1 d = (Inr m, d)" by (simp add: load_def)
  show ?thesis
  proof (cases "first_clear m 3")
    case None
    then have "alloc_schedule e [i] (ts, d) = (case alloc_blk e d of (r, d') \<Rightarrow> Some (ts[i := alloc_ends r], d'))"
      using assms ld by (simp add: alloc_blk_def andThen_def ret_def alloc_ends_def)
    then show ?thesis by (intro exI [of _ "[i]"]) simp
  next
    case (Some k)
    then have "alloc_schedule e [i, i] (ts, d) = (case alloc_blk e d of (r, d') \<Rightarrow> Some (ts[i := alloc_ends r], d'))"
      using assms ld by (simp add: alloc_blk_def andThen_def ret_def alloc_ends_def)
    then show ?thesis by (intro exI [of _ "[i, i]"]) simp
  qed
qed

text \<open>Two successful calls in turn, and two of which the second reads the map before the first has
  written it.\<close>

lemma alloc_reads:
  fixes e :: env
  assumes m: "mountable d" and ne: "free_set d \<noteq> {}"
  shows "load (stack e ''map'') 1 d = (Inr (dmap d), d)" and "first_clear (dmap d) 3 = Some (Min (free_set d))"
    and "free_set (put_block 1 (bit_set (dmap d) (Min (free_set d))) d) = free_set d - {Min (free_set d)}"
proof -
  obtain i where i: "i = Min (free_set d)" "alloc_blk e d = (Inr (int i), put_block 1 (bit_set (dmap d) i) d)"
    and fs: "free_set (put_block 1 (bit_set (dmap d) i) d) = free_set d - {i}"
    by (rule alloc_blk_Some [OF m ne])
  show "load (stack e ''map'') 1 d = (Inr (dmap d), d)" using m by (simp add: load_def)
  show "first_clear (dmap d) 3 = Some (Min (free_set d))"
    using i m by (cases "first_clear (dmap d) 3") (auto simp: alloc_blk_run)
  show "free_set (put_block 1 (bit_set (dmap d) (Min (free_set d))) d) = free_set d - {Min (free_set d)}"
    using fs by (simp add: i(1))
qed

lemma alloc_in_turn:
  assumes m: "mountable d" and ne: "2 \<le> card (free_set d)"
  shows "\<exists>d' x y. alloc_schedule e [0, 0, 1, 1] ([Alloc_read, Alloc_read], d) =
      Some ([Alloc_returned (int x), Alloc_returned (int y)], d') \<and> x \<noteq> y \<and> free_set d' = free_set d - {x, y}"
proof -
  define x where "x = Min (free_set d)"
  define d1 where "d1 = put_block 1 (bit_set (dmap d) x) d"
  define y where "y = Min (free_set d1)"
  have ne0: "free_set d \<noteq> {}" using ne by auto
  note r = alloc_reads [OF m ne0, folded x_def, folded d1_def]
  have "x \<in> free_set d" using ne0 by (simp add: x_def)
  then have "card (free_set d1) \<noteq> 0" using ne by (simp add: r(3) card_Diff_singleton)
  then have ne1: "free_set d1 \<noteq> {}" by auto
  have "mountable d1" using m by (simp add: d1_def)
  note q = alloc_reads [OF this ne1, folded y_def]
  have "y \<in> free_set d1" using ne1 by (simp add: y_def)
  then have "x \<noteq> y" using r(3) by auto
  moreover have "free_set (put_block 1 (bit_set (dmap d1) y) d1) = free_set d - {x, y}" using q(3) r(3) by auto
  moreover have "alloc_schedule e [0, 0, 1, 1] ([Alloc_read, Alloc_read], d) =
      Some ([Alloc_returned (int x), Alloc_returned (int y)], put_block 1 (bit_set (dmap d1) y) d1)"
    using r(1,2) q(1,2) by (simp add: d1_def [symmetric, simplified])
  ultimately show ?thesis by blast
qed

lemma alloc_race:
  assumes m: "mountable d" and ne: "free_set d \<noteq> {}"
  shows "\<exists>d'. alloc_schedule e [0, 1, 0, 1] ([Alloc_read, Alloc_read], d) =
      Some ([Alloc_returned (int (Min (free_set d))), Alloc_returned (int (Min (free_set d)))], d')
    \<and> free_set d' = free_set d - {Min (free_set d)}"
proof -
  let ?m = "bit_set (dmap d) (Min (free_set d))"
  note r = alloc_reads [OF m ne]
  have "alloc_schedule e [0, 1, 0, 1] ([Alloc_read, Alloc_read], d) =
      Some ([Alloc_returned (int (Min (free_set d))), Alloc_returned (int (Min (free_set d)))], put_block 1 ?m (put_block 1 ?m d))"
    using r(1,2) by simp
  moreover have "dmap (put_block 1 ?m (put_block 1 ?m d)) = dmap (put_block 1 ?m d)" by (simp add: dmap_def)
  then have "free_set (put_block 1 ?m (put_block 1 ?m d)) = free_set d - {Min (free_set d)}"
    using r(3) by (simp only: free_set_def)
  ultimately show ?thesis by blast
qed

end
