(* ===== verification/Offsets.thy ===== *)
theory Offsets
  imports Layout
begin

text \<open>
  Where the members of the structures of \<open>fs5600.h\<close> are in a block: the decodings of \<open>Layout\<close> give
  the little-endian numbers at the offsets the compiler assigns.
\<close>

section \<open>Numbers in bytes\<close>

definition field_at :: "nat \<Rightarrow> nat \<Rightarrow> byte list \<Rightarrow> nat" where
  "field_at off w b = (\<Sum>i<w. unat (b ! (off + i)) * 256 ^ i)"

lemma field_at_Suc: "field_at off (Suc w) b = unat (b ! off) + 256 * field_at (Suc off) w b"
  unfolding field_at_def by (subst sum.lessThan_Suc_shift) (simp add: sum_distrib_left mult_ac)

lemma field_at_less: "field_at off w b < 256 ^ w"
proof (induction w arbitrary: off)
  case 0
  then show ?case by (simp add: field_at_def)
next
  case (Suc w)
  have "unat (b ! off) < 256" using unsigned_less [of "b ! off", where ?'a = nat] by simp
  then show ?case using Suc.IH [of "Suc off"] by (simp add: field_at_Suc)
qed

lemma field_at_2: "field_at off 2 b = unat (b ! off) + 256 * unat (b ! (off + 1))"
  by (simp add: field_at_def numeral_2_eq_2)

lemma field_at_4: "field_at off 4 b =
    unat (b ! off) + 256 * unat (b ! (off + 1)) + 65536 * unat (b ! (off + 2)) + 16777216 * unat (b ! (off + 3))"
  by (simp add: field_at_def lessThan_nat_numeral lessThan_Suc)

lemma unat_byte_before:
  assumes "unat w < 2 ^ n" and "8 + n \<le> LENGTH('a)"
  shows "unat (ucast (b :: byte) OR push_bit 8 w :: 'a::len word) = unat b + 256 * unat w"
proof -
  have b: "unat b < 256" using unsigned_less [of b, where ?'a = nat] by simp
  have m: "(2::nat) ^ (8 + n) \<le> 2 ^ LENGTH('a)" using assms(2) by (intro power_increasing) simp_all
  have bound: "unat b + 256 * unat w < 2 ^ LENGTH('a)"
  proof -
    have "unat b + 256 * unat w < 256 * (unat w + 1)" using b by simp
    also have "\<dots> \<le> 256 * 2 ^ n" using assms(1) by (intro mult_le_mono2) simp
    also have "\<dots> = 2 ^ (8 + n)" by (simp add: power_add)
    finally show ?thesis using m by (rule less_le_trans)
  qed
  have "(ucast b OR push_bit 8 w :: 'a word) = ucast b + push_bit 8 w"
    by (rule disjunctive_add [symmetric]) (auto simp: bit_simps dest: bit_imp_le_length)
  also have "\<dots> = word_of_nat (unat b + 256 * unat w)"
    by (simp add: push_bit_eq_mult mult.commute)
  finally show ?thesis using bound by (simp only: unsigned_of_nat take_bit_nat_eq_self of_nat_id)
qed

lemma unat_le_word: "8 * length bs \<le> LENGTH('a) \<Longrightarrow> unat (le_word bs :: 'a::len word) = field_at 0 (length bs) bs"
proof (induction bs)
  case Nil
  then show ?case by (simp add: field_at_def)
next
  case (Cons c bs)
  have IH: "unat (le_word bs :: 'a word) = field_at 0 (length bs) bs" using Cons by simp
  have "unat (le_word bs :: 'a word) < 2 ^ (8 * length bs)"
    unfolding IH using field_at_less [of 0 "length bs" bs] by (simp add: power_mult)
  moreover have "field_at (Suc 0) (length bs) (c # bs) = field_at 0 (length bs) bs" by (simp add: field_at_def)
  ultimately show ?case using unat_byte_before [of "le_word bs :: 'a word" "8 * length bs" c] Cons.prems
    by (simp add: field_at_Suc IH)
qed

lemma unat_slice:
  assumes "8 * w \<le> LENGTH('a)" and "off + w \<le> length b"
  shows "unat (le_word (slice b off w) :: 'a::len word) = field_at off w b"
proof -
  have "field_at 0 w (slice b off w) = field_at off w b"
    unfolding field_at_def using assms(2) by (intro sum.cong) (simp_all add: slice_nth)
  then show ?thesis using assms by (simp add: unat_le_word)
qed


section \<open>The structures\<close>

lemma inode_offsets:
  assumes "length b = FS_BLOCK_SIZE"
  shows "unat (uid (decode_inode b)) = field_at 0 2 b" and "unat (gid (decode_inode b)) = field_at 2 2 b"
    and "unat (mode (decode_inode b)) = field_at 4 4 b" and "unat (ctime (decode_inode b)) = field_at 8 4 b"
    and "unat (mtime (decode_inode b)) = field_at 12 4 b" and "unat (size_i (decode_inode b)) = field_at 16 4 b"
  using assms by (simp_all add: decode_inode_def unat_slice)

text \<open>\<open>size\<close> is signed.\<close>

lemma size_signed:
  assumes "length b = FS_BLOCK_SIZE"
  shows "sint (size_i (decode_inode b)) = (if field_at 16 4 b < 2 ^ 31 then int (field_at 16 4 b) else int (field_at 16 4 b) - 2 ^ 32)"
proof -
  let ?n = "field_at 16 4 b"
  have n: "?n < 2 ^ 32" using field_at_less [of 16 4 b] by simp
  have "sint (size_i (decode_inode b)) = signed_take_bit 31 (uint (size_i (decode_inode b)))" by (simp add: sint_uint)
  also have "uint (size_i (decode_inode b)) = int ?n" by (simp flip: inode_offsets(6) [OF assms])
  also have "signed_take_bit 31 (int ?n) = (int ?n + 2 ^ 31) mod 2 ^ 32 - 2 ^ 31"
    using signed_take_bit_eq_take_bit_shift [of 31 "int ?n"] by (simp add: take_bit_eq_mod)
  also have "(int ?n + 2 ^ 31) mod 2 ^ 32 = (if ?n < 2 ^ 31 then int ?n + 2 ^ 31 else int ?n - 2 ^ 31)"
  proof (cases "?n < 2 ^ 31")
    case True
    then show ?thesis by (simp add: mod_pos_pos_trivial)
  next
    case False
    have "(int ?n + 2 ^ 31) mod 2 ^ 32 = (int ?n - 2 ^ 31 + 2 ^ 32) mod 2 ^ 32" by (simp add: add.commute)
    also have "\<dots> = (int ?n - 2 ^ 31) mod 2 ^ 32" by (rule mod_add_self2)
    also have "\<dots> = int ?n - 2 ^ 31" using n False by (intro mod_pos_pos_trivial) simp_all
    finally show ?thesis using False by simp
  qed
  finally show ?thesis by (simp split: if_splits)
qed

lemma ptr_offset:
  assumes "length b = FS_BLOCK_SIZE" and "k < NUM_PTRS_INODE"
  shows "unat (ptrs (decode_inode b) ! k) = field_at (20 + 4 * k) 4 b"
  using assms by (simp add: decode_inode_def slice_slice unat_slice)

lemma super_offsets:
  assumes "length b = FS_BLOCK_SIZE"
  shows "unat (magic (decode_super b)) = field_at 0 4 b" and "unat (disk_size (decode_super b)) = field_at 4 4 b"
    and "pad (decode_super b) = drop 8 b"
  using assms by (simp_all add: decode_super_def unat_slice) (simp add: slice_def)

lemma dirent_offsets:
  assumes "length b = FS_BLOCK_SIZE" and "j < NUM_DIRENT_BLOCK"
  shows "valid (decode_dirs b ! j) \<longleftrightarrow> odd (field_at (32 * j) 4 b)"
    and "unat (inode (decode_dirs b ! j)) = field_at (32 * j) 4 b div 2"
    and "name (decode_dirs b ! j) = take 28 (drop (32 * j + 4) b)"
proof -
  let ?u = "le_word (slice b (32 * j) 4) :: u32"
  have u: "unat ?u = field_at (32 * j) 4 b" using assms by (intro unat_slice) simp_all
  have e: "decode_dirs b ! j = \<lparr>valid = bit ?u 0, inode = ucast (drop_bit 1 ?u), name = slice b (32 * j + 4) 28\<rparr>"
    using assms(2) by (simp add: decode_dirs_def decode_dirent_def slice_slice Let_def del: One_nat_def)
  have "odd (unat ?u) \<longleftrightarrow> bit (unat ?u) 0" by (simp only: bit_0)
  also have "\<dots> \<longleftrightarrow> bit ?u 0" by (simp only: bit_unsigned_iff possible_bit_def) simp
  finally show "valid (decode_dirs b ! j) \<longleftrightarrow> odd (field_at (32 * j) 4 b)" by (simp only: e u fs_dirent.simps)
  have "unat ?u div 2 < 2 ^ 31" using unsigned_less [of ?u, where ?'a = nat] by simp
  moreover have "take_bit 32 (unat ?u) = unat ?u" using unsigned_less [of ?u, where ?'a = nat] by (simp add: take_bit_nat_eq_self of_nat_id)
  then have "unat (ucast (drop_bit 1 ?u) :: 31 word) = take_bit 31 (unat ?u div 2)"
    by (simp only: unsigned_ucast_eq unsigned_drop_bit_eq) (simp add: drop_bit_eq_div)
  ultimately show "unat (inode (decode_dirs b ! j)) = field_at (32 * j) 4 b div 2"
    unfolding e by (simp add: take_bit_nat_eq_self u)
  show "name (decode_dirs b ! j) = take 28 (drop (32 * j + 4) b)" unfolding e by (simp add: slice_def)
qed

end
