(* ===== verification/Spec2Isabelle.thy ===== *)
theory Spec2Isabelle
  imports Further FurtherPrograms Robust Lab4fuse Suite1 Suite2 Threads Crash AllocThreads Offsets
begin

text \<open>
  A model of \<open>fs5600.c\<close>, a small Unix-like file system behind FUSE, with its block layer
  \<open>misc.c\<close> and its on-disk structures \<open>fs5600.h\<close>, and the theorems that make it correct.

  Parts of the program and where they are modelled. The image file is an array of 4096-byte
  blocks, read and written by \<open>block_read\<close> and \<open>block_write\<close>; block 0 is the superblock,
  block 1 the map of used blocks, block 2 the root inode; an inode fills a block, a
  directory has one block of 128 entries, a file up to 1019 data blocks. All state of the
  program is on the disk: every operation resolves its path from the root, reads the inode
  it needs, and writes back what it changes. Correspondingly the only state of the model is
  the record \<open>disk\<close>, and an operation is a function of it.

  \<^item> \<open>Prelude\<close>: computations \<open>io\<close> (state in, result or stop and state out), the scan loop,
    32-bit wrap-around, error numbers.
  \<^item> \<open>Encoding\<close>, \<open>Layout\<close>: little-endian fields; \<open>fs_super\<close>, \<open>fs_inode\<close>, \<open>fs_dirent\<close>
    of \<open>fs5600.h\<close> as records with their bytes. The locale \<open>codec\<close> is the contract of an
    encoding, interpreted for every structure. \<open>Offsets\<close> says at which bytes the members are.
  \<^item> \<open>Disk\<close>: \<open>block_read\<close>, \<open>block_write\<close>, \<open>block_init\<close> of \<open>misc.c\<close>; the locales
    \<open>block_store\<close> and \<open>stored\<close> say what a read returns after a write.
  \<^item> \<open>Bitmap\<close>: \<open>bit_set\<close>, \<open>bit_clear\<close>, \<open>bit_test\<close>, \<open>alloc_blk\<close>, \<open>free_blk\<close>; the locales
    \<open>bitset\<close> and \<open>bitset_search\<close> are the contract of the map and of the search for a
    free block.
  \<^item> \<open>Path\<close>: \<open>tokenise\<close>, the copies into fixed buffers, \<open>path2inum\<close>, the parent path.
  \<^item> \<open>Attr\<close>: \<open>inode2stat\<close>, \<open>fs_init\<close>, \<open>fs_statfs\<close>, \<open>fs_getattr\<close>, \<open>fs_readdir\<close>,
    \<open>fs_chmod\<close>, \<open>fs_utime\<close>. \<open>FileIO\<close>: \<open>fs_read\<close>, \<open>fs_write\<close>, \<open>fs_truncate\<close>.
    \<open>DirOps\<close>: \<open>fs_create\<close>, \<open>fs_mkdir\<close>, \<open>fs_unlink\<close>, \<open>fs_rmdir\<close>, \<open>fs_rename\<close>, the vector
    \<open>fs_ops\<close> as a function on requests, and sessions of requests.

  What the lemmas show. \<open>Fsys\<close> gives the meaning of a disk: \<open>absfs N d\<close> maps the inode
  numbers in \<open>N\<close> to files (bytes) and directories (maps from names to numbers), and
  \<open>consistent N d\<close> is the invariant: the blocks of live objects are in range, marked in the
  map, and owned once; entries have terminated names and form a tree below inode 2. \<open>N\<close> is
  a ghost: the program has no table of inodes. \<open>Resolve\<close> refines \<open>path2inum\<close> to a lookup in
  that tree; \<open>Tree\<close> has the abstract operations and the frame of the proofs; \<open>FileSpec\<close>,
  \<open>WriteSpec\<close>, \<open>DirSpec\<close>, \<open>DelSpec\<close>, \<open>RenameSpec\<close>, \<open>AttrSpec\<close> refine the operations;
  \<open>ErrSpec\<close> has the early returns, \<open>FullSpec\<close> what happens when blocks or slots run out;
  \<open>Safety\<close> puts every request and every session together; \<open>Robust\<close> is about any image,
  consistent or not; \<open>Scenario\<close> composes operations; \<open>Sample\<close> has concrete consistent disks, on
  which the theorems below are applied; \<open>Further\<close> and \<open>FurtherPrograms\<close> have theorems that
  the list below does not repeat.

  The view of a user. \<open>PathTree\<close> is a second, coarser specification: states \<open>fsys\<close> are trees of
  paths with the number of free blocks, \<open>fsys_of N d\<close> is the one a disk stands for, and
  \<open>tree_ops\<close> is the operations vector on them, all outcomes included. \<open>PathLaws\<close> relates changes
  of the inode map to changes of the tree; \<open>TreeSim\<close>, \<open>TreeRef\<close> and \<open>TreeNew\<close> prove that every
  request, and every session, on a disk refines the one on trees (\<open>refines\<close>).

  The programs around the file system. \<open>Lab4fuse\<close> is \<open>lab4fuse.c\<close>: the checks of the arguments,
  the image, and FUSE's loop as a parameter. \<open>Harness\<close> has programs that call the operations
  vector as trees of interactions, their runs on a disk (\<open>run\<close>), and a condition for a good end
  computed on trees of paths (\<open>chk\<close>), sound by the refinement. \<open>Test2\<close> and \<open>Test1\<close> are \<open>test2.c\<close>
  and \<open>test1.c\<close>, function by function; \<open>Names\<close> has string literals and literal paths, \<open>Step\<close> one
  equation of \<open>chk\<close> for each kind of statement, \<open>Pass2\<close> and \<open>Pass1\<close> the tests checked with them.
  \<open>GenDisk\<close> is what \<open>gen-disk.py\<close> makes of the files and directories described to it, with the proof
  that the image is consistent and stands for the tree described; \<open>Describe\<close> is how it reads a
  description; \<open>Disk2\<close> and \<open>Disk1\<close> have the lines of \<open>disk2.in\<close> and \<open>disk1.in\<close> and the images they give. \<open>Suite2\<close> and \<open>Suite1\<close> put the suites together: the tests of \<open>test2.c\<close> each
  on a fresh image, those of \<open>test1.c\<close> one after the other on one image, which they do not leave as
  they found it; also the loops of \<open>_do_write\<close> and \<open>read_n_at_a_time\<close> for any sizes.
  \<open>RenameBack\<close> has laws of the trees disks stand for, and renaming there and back.

  Threads. Everything above takes a request as one step. \<open>Threads\<close> has the system calls of
  \<open>block_read\<close> and \<open>block_write\<close> as single steps of threads that share \<open>disk_fd\<close>: a thread alone does
  what \<open>Disk\<close> says, two threads need not. \<open>AllocThreads\<close> has the block operations of \<open>alloc_blk\<close> as
  steps, with the race that hands one block out twice. The theorem on \<open>lab4fuse\<close> is therefore about
  runs in which the loop of \<open>fuse_main\<close> makes one call at a time (\<open>one_at_a_time\<close>), whichever calls
  its callers choose after the replies they have had.

  Kills. The record \<open>disk\<close> also has the history of block writes, which no operation reads.
  \<open>crash k m d\<close> is the image when the process is killed after \<open>k\<close> of the writes of \<open>m\<close> (a block
  write is one \<open>write\<close> call, and a killed process loses none it has made; the order in which the host
  brings them to a medium is not modelled). \<open>Crash\<close> shows which requests survive that, and as what;
  its theorems leave out requests that end with \<open>Undef\<close>.

  Modelling decisions.
  \<^item> Outcomes: \<open>Inr\<close> is a return; \<open>Inl Abort\<close> a failed \<open>assert\<close>; \<open>Inl (Exit k)\<close> a call of
    \<open>exit\<close>; \<open>Inl Undef\<close> an access outside a C object (the disk with it is the
    one before that access; the program may go on and write, as \<open>fs_rename\<close> does, and nothing is
    claimed of that). Numbers of blocks and inodes, return codes
    and \<open>lba * FS_BLOCK_SIZE\<close> are \<open>int\<close> values, the product wrapped to 32 bits; the fields of
    inodes and entries are words, \<open>size\<close> read as signed.
  \<^item> Local buffers a C function does not initialise are an argument, \<open>stack e v\<close> for the
    variable named \<open>v\<close>: where a read fails and its code is ignored, the model goes on with those
    bytes. Time and the user of the request are in the same record \<open>env\<close>.
  \<^item> A write past the end of the image extends it with zero blocks, as \<open>lseek\<close> and \<open>write\<close>
    do on a regular file; errors of the host's disk are not modelled. All calls move one block.
  \<^item> Lengths and offsets of requests are natural numbers, and sums of them do not reach \<open>2 ^ 63\<close>;
    the result of the filler of \<open>fs_readdir\<close> is ignored, as the code does.
  \<^item> Theorems about operations take the paths FUSE hands out (\<open>mkpath\<close>, \<open>fuse_path\<close>), with at most
    eleven components and 300 bytes, the sizes of the code's arrays: longer paths are \<open>Undef\<close> in
    the model.

  \<^item> Libraries: \<open>fuse_opt_parse\<close>, \<open>fuse_main\<close>, the runner of libcheck and \<open>crc32\<close> of zlib are
    parameters, with what is relied on as hypotheses (\<open>one_at_a_time\<close>; \<open>runs_in_turn\<close>, a runner that
    reports no failed test when all tests pass; \<open>crc_ok\<close>, the table of checksums). A test of
    \<open>test2.c\<close> opens the image \<open>gen-disk.py\<close> has just written; time, \<open>random()\<close>, uninitialised
    variables and fresh memory are arbitrary values (\<open>host\<close>, \<open>locals\<close>, \<open>locals1\<close>).

  Loops of the file system are structural recursion or recursive functions with a
  termination proof (a measure), so no fuel is needed. Two loops of the tests may not end.
  \<open>_do_write\<close> has a bound on the rounds, the number of bytes, which is enough when the block size
  is positive (and never enough when it is zero, \<open>write_steps_endless\<close>); \<open>read_n_at_a_time\<close> has
  the bound \<open>len + 2\<close>, enough for a file of \<open>len\<close> bytes and a positive chunk.

  Not modelled: interleavings of whole requests; Python's \<open>hash\<close> and random generator, which choose
  the letters \<open>gen-disk.py\<close> fills files with (parameters; the theorems hold for any bytes), and the
  images it makes of descriptions that are not well formed; \<open>read-img.py\<close>, which prints images;
  what the tests and scripts print, the messages of \<open>block_init\<close> and a debugging line of \<open>fs_rename\<close>.
\<close>

section \<open>The file system as a whole\<close>

text \<open>
  C1. Refinement: on a consistent disk every request with canonical paths does what
  \<open>tree_ops\<close> does on the tree of paths the disk stands for. It returns the same reply (inode
  numbers apart), stops in the same cases, and the disk it leaves, also where the process
  stops, is consistent and stands for the tree \<open>tree_ops\<close> leaves.
\<close>

theorem requests_refine_tree:
  assumes "consistent N d" and "wf_env e" and "ok_request r"
  shows "map_sum id hide_reply (fst (fs_ops e r d)) = fst (tree_ops e r (fsys_of N d))
    \<and> (\<exists>N'. consistent N' (snd (fs_ops e r d)) \<and> fsys_of N' (snd (fs_ops e r d)) = snd (tree_ops e r (fsys_of N d)))"
  using request_refines [OF assms] by (simp add: refines_def)

theorem requests_refine_tree_witness:
  "map_sum id hide_reply (fst (fs_ops sample_env (Read [47, 97] 2 1) sample)) = Inr (RData 2 [105, 10])"
proof -
  have "comps [47, 97] = [[97]]" using path_tokens [of "[[97]]"] by (simp add: comps_def sample_mkpath)
  moreover have "tree_of sample_live sample [[97]] = Some (File (sample_attrs file_mode) [104, 105, 10])"
    by (simp add: tree_of_def node_at_def)
  ultimately have "fst (tree_ops sample_env (Read [47, 97] 2 1) (fsys_of sample_live sample)) = Inr (RData 2 [105, 10])"
    by (simp add: andThen_def t_read_def ret_def)
  then show ?thesis
    using requests_refine_tree [OF sample_consistent sample_env_ok, of "Read [47, 97] 2 1"] by (simp del: fs_ops.simps tree_ops.simps)
qed

text \<open>
  C2. On a consistent disk every request with canonical paths leaves a consistent disk, whatever
  way it ends; and the process stops only where \<open>may_stop\<close> says: at \<open>fs_init\<close> with a
  wrong magic number, at create, mkdir or write with too few free blocks, at a rename to a
  name of 28 bytes or more. In this last case, \<open>Undef\<close>, the disk is the one the access outside
  the entry finds; what the program does after it is outside the model.
\<close>

theorem requests_keep_consistency:
  assumes "consistent N d" and "wf_env e" and "ok_request r"
  shows "(\<exists>N'. consistent N' (snd (fs_ops e r d))) \<and> (\<forall>s. fst (fs_ops e r d) = Inl s \<longrightarrow> may_stop d r s)"
  using fs_ops_safe [OF assms] by (simp add: safe_def)

theorem requests_keep_consistency_witness:
  "(\<exists>N'. consistent N' (snd (fs_ops sample_env (Unlink [47, 97]) sample)))
   \<and> fst (fs_ops sample_env (Unlink [47, 97]) sample) \<noteq> Inl Undef"
  using requests_keep_consistency [OF sample_consistent sample_env_ok, of "Unlink [47, 97]"]
  by (simp del: fs_ops.simps)

text \<open>
  C3. Sessions refine sessions on trees: from a consistent disk the list of replies (inode
  numbers apart), or the way the process stops, is that of \<open>tree_session\<close>, and so is the
  tree the disk stands for at the end.
\<close>

theorem sessions_refine_tree:
  assumes "list_all good rs" and "consistent N d"
  shows "map_sum id (map hide_reply) (fst (session rs d)) = fst (tree_session rs (fsys_of N d))
    \<and> (\<exists>N'. consistent N' (snd (session rs d)) \<and> fsys_of N' (snd (session rs d)) = snd (tree_session rs (fsys_of N d)))"
  using session_refines [OF assms] by (simp add: refines_def)

theorem sessions_refine_tree_witness:
  "map_sum id (map hide_reply) (fst (session demo sample)) = fst (tree_session demo (fsys_of sample_live sample))
    \<and> (\<exists>N'. consistent N' (snd (session demo sample))
        \<and> fsys_of N' (snd (session demo sample)) = snd (tree_session demo (fsys_of sample_live sample)))"
  using sessions_refine_tree [OF demo_good sample_consistent] .

text \<open>
  C4. A session of such requests from a consistent disk either serves all of them and leaves a
  reachable consistent disk, or stops at one of them, on a reachable disk on which that
  request may stop, and even then the disk it leaves is consistent (with \<open>Undef\<close>: the disk
  before the access outside a C object).
\<close>

theorem sessions_keep_consistency:
  assumes "list_all good rs" and "\<exists>N. consistent N d"
  shows "(\<exists>xs d'. session rs d = (Inr xs, d') \<and> length xs = length rs \<and> reach d d' \<and> (\<exists>N. consistent N d'))
    \<or> (\<exists>s d' d1 r. session rs d = (Inl s, d') \<and> (\<exists>N. consistent N d') \<and> r \<in> snd ` set rs
         \<and> reach d d1 \<and> may_stop d1 r s)"
  using assms by (rule session_cases)

theorem sessions_keep_consistency_witness:
  "(\<exists>xs d'. session demo sample = (Inr xs, d') \<and> length xs = length demo \<and> reach sample d' \<and> (\<exists>N. consistent N d'))
    \<or> (\<exists>s d' d1 r. session demo sample = (Inl s, d') \<and> (\<exists>N. consistent N d') \<and> r \<in> snd ` set demo
         \<and> reach sample d1 \<and> may_stop d1 r s)"
  using sessions_keep_consistency [OF demo_good, of sample] sample_consistent by blast

section \<open>File contents\<close>

text \<open>
  C5. \<open>fs_write\<close> of a file at an offset not past its end, with enough free blocks and within
  the 1019 pointers, returns the length, splices the buffer into the contents (extending
  the file where it ends), sets the modification time, and changes nothing else.
\<close>

theorem write_splices:
  assumes "consistent N d" and "ok_path toks" and "wf_env e"
    and "alookup (absfs N d) 2 toks = Some n" and "absfs N d n = Some (AFile a c)"
    and "off \<le> length c" and "off + length buf \<le> 4096 * 1019"
    and "room_for d (length c) (off + length buf)"
  shows "\<exists>d'. fs_write e (mkpath toks) buf off d = (Inr (int (length buf)), d') \<and> consistent N d'
    \<and> absfs N d' = (absfs N d)(n \<mapsto> AFile (a\<lparr>a_mtime := now e\<rparr>) (splice off buf c))"
  using assms by (rule fs_write_file)

theorem write_splices_witness:
  "\<exists>d'. fs_write sample_env (mkpath [[97]]) [120, 121, 122] 2 sample = (Inr 3, d') \<and> consistent sample_live d'
    \<and> absfs sample_live d' = (absfs sample_live sample)
        (4 \<mapsto> AFile ((sample_attrs file_mode)\<lparr>a_mtime := 100\<rparr>) [104, 105, 120, 121, 122])"
  using write_splices [OF sample_consistent, of "[[97]]" sample_env 4 "sample_attrs file_mode" "[104, 105, 10]" 2 "[120, 121, 122]"]
  by (simp add: splice_def)

text \<open>
  C6. \<open>fs_read\<close> of a file returns the bytes from the offset on, as many as there are up to the
  length asked for, and does not change the disk.
\<close>

theorem read_returns_contents:
  assumes "consistent N d" and "ok_path toks"
    and "alookup (absfs N d) 2 toks = Some n" and "absfs N d n = Some (AFile a c)"
  shows "fs_read e (mkpath toks) len off d =
    (Inr (int (length (take len (drop off c))), take len (drop off c)), d)"
  using assms by (rule fs_read_file)

theorem read_returns_contents_witness:
  "fs_read sample_env (mkpath [[97]]) 2 1 sample = (Inr (2, [105, 10]), sample)"
  using read_returns_contents [OF sample_consistent, of "[[97]]" 4 "sample_attrs file_mode" "[104, 105, 10]" sample_env 2 1]
  by simp

text \<open>
  C7. A read after a write of the same file sees the spliced contents: the buffer where it was
  written, the old bytes elsewhere.
\<close>

theorem read_after_write:
  assumes "consistent N d" and "ok_path toks" and "wf_env e"
    and "alookup (absfs N d) 2 toks = Some n" and "absfs N d n = Some (AFile a c)"
    and "off \<le> length c" and "off + length buf \<le> 4096 * 1019"
    and "room_for d (length c) (off + length buf)"
  shows "\<exists>d'. fs_write e (mkpath toks) buf off d = (Inr (int (length buf)), d')
    \<and> fs_read e' (mkpath toks) len at d' =
        (Inr (int (length (take len (drop at (splice off buf c)))), take len (drop at (splice off buf c))), d')"
  using assms by (rule write_read)

theorem read_after_write_witness:
  "\<exists>d'. fs_write sample_env (mkpath [[97]]) [120, 121, 122] 2 sample = (Inr 3, d')
    \<and> fs_read sample_env (mkpath [[97]]) 10 1 d' = (Inr (4, [105, 120, 121, 122]), d')"
  using read_after_write [OF sample_consistent, of "[[97]]" sample_env 4 "sample_attrs file_mode" "[104, 105, 10]" 2 "[120, 121, 122]"
      sample_env 10 1]
  by (simp add: splice_def)

text \<open>
  C8. \<open>fs_truncate\<close> to 0 empties the file and returns its data blocks to the free set; its
  attributes, the modification time included, stay.
\<close>

theorem truncate_empties:
  assumes "consistent N d" and "ok_path toks"
    and "alookup (absfs N d) 2 toks = Some n" and "absfs N d n = Some (AFile a c)"
  shows "\<exists>d'. fs_truncate e (mkpath toks) 0 d = (Inr 0, d') \<and> consistent N d'
    \<and> absfs N d' = (absfs N d)(n \<mapsto> AFile a [])
    \<and> free_set d' = free_set d \<union> (own d n - {n})"
  using assms by (rule fs_truncate_file)

theorem truncate_empties_witness:
  "\<exists>d'. fs_truncate sample_env (mkpath [[97]]) 0 sample = (Inr 0, d') \<and> consistent sample_live d'
    \<and> absfs sample_live d' = (absfs sample_live sample)(4 \<mapsto> AFile (sample_attrs file_mode) [])
    \<and> free_set d' = free_set sample \<union> (own sample 4 - {4})"
  using truncate_empties [OF sample_consistent, of "[[97]]" 4 "sample_attrs file_mode" "[104, 105, 10]" sample_env]
  by simp

section \<open>Directories\<close>

text \<open>
  C9. \<open>fs_create\<close> with a free block and a free slot in the parent: it takes the least free
  block as the number of an empty file with the given permissions and the caller's ids,
  enters the name in the parent, and changes nothing else.
\<close>

theorem create_adds_file:
  assumes "consistent N d" and "ok_path toks"
    and "new_error (absfs N d) toks = None" and "alookup (absfs N d) 2 (butlast toks) = Some p"
    and "free_set d \<noteq> {}" and "free_slot d p"
  shows "\<exists>d' x. x = Min (free_set d) \<and> fs_create e (mkpath toks) m d = (Inr 0, d')
    \<and> consistent (insert x N) d' \<and> free_set d' = free_set d - {x}
    \<and> absfs (insert x N) d' = (a_link p (last toks) x (absfs N d))
         (x \<mapsto> AFile (new_attrs e m (push_bit 15 1)) [])"
  using assms by (rule fs_create_ok)

theorem create_adds_file_witness:
  "\<exists>d' x. x = Min (free_set sample) \<and> fs_create sample_env (mkpath [[100], [99]]) 0x1A4 sample = (Inr 0, d')
    \<and> consistent (insert x sample_live) d' \<and> free_set d' = free_set sample - {x}
    \<and> absfs (insert x sample_live) d' = (a_link 6 [99] x (absfs sample_live sample))
         (x \<mapsto> AFile (new_attrs sample_env 0x1A4 (push_bit 15 1)) [])"
  using create_adds_file [OF sample_consistent, of "[[100], [99]]" 6 sample_env "0x1A4"]
  by (simp add: new_error_def sample_free sample_slots del: sample_absfs)
     (simp add: sample_free)

text \<open>
  C10. \<open>fs_mkdir\<close> with two free blocks and a free slot: the least free block becomes the
  inode, the next one a directory block without entries, and the name is entered.
\<close>

theorem mkdir_adds_directory:
  assumes "consistent N d" and "ok_path toks"
    and "new_error (absfs N d) toks = None" and "alookup (absfs N d) 2 (butlast toks) = Some p"
    and "2 \<le> card (free_set d)" and "free_slot d p"
  shows "\<exists>d' x y. x = Min (free_set d) \<and> y = Min (free_set d - {x})
    \<and> fs_mkdir e (mkpath toks) m d = (Inr 0, d')
    \<and> consistent (insert x N) d' \<and> free_set d' = free_set d - {x, y}
    \<and> absfs (insert x N) d' = (a_link p (last toks) x (absfs N d))
         (x \<mapsto> ADir (new_attrs e m (push_bit 14 1)) 4096 Map.empty)"
  using assms by (rule fs_mkdir_ok)

theorem mkdir_adds_directory_witness:
  "\<exists>d' x y. x = Min (free_set sample) \<and> y = Min (free_set sample - {x})
    \<and> fs_mkdir sample_env (mkpath [[99]]) 0x1ED sample = (Inr 0, d')
    \<and> consistent (insert x sample_live) d' \<and> free_set d' = free_set sample - {x, y}
    \<and> absfs (insert x sample_live) d' = (a_link 2 [99] x (absfs sample_live sample))
         (x \<mapsto> ADir (new_attrs sample_env 0x1ED (push_bit 14 1)) 4096 Map.empty)"
  using mkdir_adds_directory [OF sample_consistent, of "[[99]]" 2 sample_env "0x1ED"]
  by (simp add: new_error_def sample_free sample_slots)

text \<open>
  C11. \<open>fs_unlink\<close> of a file removes the file and its name, sets the parent's modification
  time, and returns the inode's block and all data blocks to the free set.
\<close>

theorem unlink_removes_file:
  assumes "consistent N d" and "ok_path toks"
    and "alookup (absfs N d) 2 toks = Some n" and "absfs N d n = Some (AFile a c)"
  shows "\<exists>d' p. alookup (absfs N d) 2 (butlast toks) = Some p
    \<and> fs_unlink e (mkpath toks) d = (Inr 0, d') \<and> consistent (N - {n}) d'
    \<and> absfs (N - {n}) d' = a_remove p (last toks) n (now e) (absfs N d)
    \<and> free_set d' = free_set d \<union> own d n"
  using assms by (rule fs_unlink_ok)

theorem unlink_removes_file_witness:
  "\<exists>d' p. alookup (absfs sample_live sample) 2 [] = Some p
    \<and> fs_unlink sample_env (mkpath [[97]]) sample = (Inr 0, d') \<and> consistent (sample_live - {4}) d'
    \<and> absfs (sample_live - {4}) d' = a_remove p [97] 4 100 (absfs sample_live sample)
    \<and> free_set d' = free_set sample \<union> own sample 4"
  using unlink_removes_file [OF sample_consistent, of "[[97]]" 4 "sample_attrs file_mode" "[104, 105, 10]" sample_env]
  by simp

text \<open>
  C12. \<open>fs_rmdir\<close> of an empty directory removes it and its name, sets the parent's
  modification time, and frees its two blocks.
\<close>

theorem rmdir_removes_empty:
  assumes "consistent N d" and "ok_path toks"
    and "alookup (absfs N d) 2 toks = Some n" and "absfs N d n = Some (ADir a s Map.empty)"
  shows "\<exists>d' p. alookup (absfs N d) 2 (butlast toks) = Some p
    \<and> fs_rmdir e (mkpath toks) d = (Inr 0, d') \<and> consistent (N - {n}) d'
    \<and> absfs (N - {n}) d' = a_remove p (last toks) n (now e) (absfs N d)
    \<and> free_set d' = free_set d \<union> own d n"
  using assms by (rule fs_rmdir_ok)

theorem rmdir_removes_empty_witness:
  "\<exists>d' p. alookup (absfs sample_live sample) 2 [] = Some p
    \<and> fs_rmdir sample_env (mkpath [[101]]) sample = (Inr 0, d') \<and> consistent (sample_live - {9}) d'
    \<and> absfs (sample_live - {9}) d' = a_remove p [101] 9 100 (absfs sample_live sample)
    \<and> free_set d' = free_set sample \<union> own sample 9"
  using rmdir_removes_empty [OF sample_consistent, of "[[101]]" 9 "sample_attrs dir_mode" 4096 sample_env]
  by simp

text \<open>
  C13. \<open>fs_rename\<close> inside one directory to a name of at most 27 bytes that is not taken: the
  entry gets the new name, the object and all attributes stay.
\<close>

theorem rename_moves_name:
  assumes "consistent N d" and "ok_path src" and "ok_path dst"
    and "rename_error (absfs N d) src dst = None" and "length (last dst) \<le> 27"
  shows "\<exists>d' p. alookup (absfs N d) 2 (butlast src) = Some p
    \<and> fs_rename (mkpath src) (mkpath dst) d = (Inr 0, d') \<and> consistent N d'
    \<and> absfs N d' = a_rename p (last src) (last dst) (absfs N d) \<and> free_set d' = free_set d"
  using assms by (rule fs_rename_ok)

theorem rename_moves_name_witness:
  "\<exists>d' p. alookup (absfs sample_live sample) 2 [] = Some p
    \<and> fs_rename (mkpath [[97]]) (mkpath [[99]]) sample = (Inr 0, d') \<and> consistent sample_live d'
    \<and> absfs sample_live d' = a_rename p [97] [99] (absfs sample_live sample) \<and> free_set d' = free_set sample"
  using rename_moves_name [OF sample_consistent, of "[[97]]" "[[99]]"]
  by (simp add: rename_error_def)

text \<open>
  C14. Renaming an object and renaming it back restores the file system: the second rename
  succeeds whenever the first has, and the tree of paths, with everything below it and the
  order of the entries, is the one it was.
\<close>

theorem rename_there_and_back:
  assumes "consistent N d" and "wf_env e" and "wf_env e'" and "canonical p" and "canonical q" and "p \<noteq> [slash]" and "q \<noteq> [slash]"
    and "length (last (comps p)) \<le> 27" and "fs_ops e (Rename p q) d = (Inr (RCode 0), d1)"
  shows "\<exists>d2 N2. fs_ops e' (Rename q p) d1 = (Inr (RCode 0), d2) \<and> consistent N2 d2 \<and> fsys_of N2 d2 = fsys_of N d"
  using assms by (rule rename_back) blast

theorem rename_there_and_back_witness:
  "\<exists>d1 d2 N2. fs_ops sample_env (Rename [47, 97] [47, 98]) sample = (Inr (RCode 0), d1)
    \<and> fs_ops sample_env (Rename [47, 98] [47, 97]) d1 = (Inr (RCode 0), d2)
    \<and> consistent N2 d2 \<and> fsys_of N2 d2 = fsys_of sample_live sample"
proof -
  have c: "comps [47, 97] = [[97]]" "comps [47, 98] = [[98]]"
    using path_tokens [of "[[97]]"] path_tokens [of "[[98]]"] by (simp_all add: comps_def sample_mkpath)
  have "tree_of sample_live sample [[97]] \<noteq> None" "tree_of sample_live sample [[98]] = None"
    by (simp_all add: tree_of_def)
  then have "fst (tree_ops sample_env (Rename [47, 97] [47, 98]) (fsys_of sample_live sample)) = Inr (RCode 0)"
    by (auto simp: c andThen_def t_rename_def t_rename_error_def ret_def)
  moreover have "refines hide_reply (fs_ops sample_env (Rename [47, 97] [47, 98]) sample)
      (tree_ops sample_env (Rename [47, 97] [47, 98]) (fsys_of sample_live sample))"
    by (rule request_refines [OF sample_consistent sample_env_ok]) simp
  ultimately have "map_sum id hide_reply (fst (fs_ops sample_env (Rename [47, 97] [47, 98]) sample)) = Inr (RCode 0)"
    by (simp add: refines_def del: fs_ops.simps tree_ops.simps)
  then have "fst (fs_ops sample_env (Rename [47, 97] [47, 98]) sample) = Inr (RCode 0)"
    by (cases "fst (fs_ops sample_env (Rename [47, 97] [47, 98]) sample)") (auto simp: hide_code simp del: fs_ops.simps)
  then obtain d1 where d1: "fs_ops sample_env (Rename [47, 97] [47, 98]) sample = (Inr (RCode 0), d1)"
    by (auto simp: prod_eq_iff simp del: fs_ops.simps)
  show ?thesis
    using rename_there_and_back [OF sample_consistent sample_env_ok sample_env_ok _ _ _ _ _ d1] d1 c
    by (simp del: fs_ops.simps)
qed

section \<open>The image after a kill\<close>

text \<open>
  C15. When is a request safe against a kill of the process between any two of its block writes?
  From a consistent disk, and for any request with canonical paths that does not write outside
  a C object (as a rename to a name of more than 27 bytes does): exactly when it removes
  nothing. Unlink of a file, rmdir of an empty directory and truncate of a file with contents are
  not safe: they clear bits in the map while the tree still names the blocks.
\<close>

theorem killed_requests_survive:
  assumes "consistent N d" and "wf_env e" and "ok_request r" and "fst (fs_ops e r d) \<noteq> Inl Undef"
  shows "(\<forall>k. \<exists>N'. consistent N' (crash k (fs_ops e r) d)) \<longleftrightarrow> \<not> removal (tree_of N d) r"
  using assms(1-3) by (rule killed_iff)

theorem killed_requests_survive_witness:
  "\<not> (\<forall>k. \<exists>N'. consistent N' (crash k (fs_ops sample_env (Unlink [47, 97])) sample))
    \<and> (\<forall>k. \<exists>N'. consistent N' (crash k (fs_ops sample_env (Create [47, 99] 0)) sample))"
proof -
  have "comps [47, 97] = [[97]]" using path_tokens [of "[[97]]"] by (simp add: comps_def sample_mkpath)
  moreover have "tree_of sample_live sample [[97]] = Some (File (sample_attrs file_mode) [104, 105, 10])"
    by (simp add: tree_of_def node_at_def)
  ultimately have "removal (tree_of sample_live sample) (Unlink [47, 97])" by simp
  then show ?thesis
    using killed_requests_survive [OF sample_consistent sample_env_ok, of "Unlink [47, 97]"]
      killed_requests_survive [OF sample_consistent sample_env_ok, of "Create [47, 99] 0"]
      not_undef [OF sample_consistent sample_env_ok, of "Unlink [47, 97]"]
      not_undef [OF sample_consistent sample_env_ok, of "Create [47, 99] 0"]
    by (simp del: fs_ops.simps)
qed

text \<open>
  C16. What a kill leaves of a request that removes nothing and does not write outside a C object: an image that is consistent and stands
  for the tree before the request, or for the tree after it, or, in a write, for the tree in
  which the bytes of the file up to some point are those of the buffer and its length and
  attributes are the old ones. Without a write done it is the image before the request, after
  the last write the image the request leaves.
\<close>

theorem killed_requests_are_atomic:
  assumes "consistent N d" and "wf_env e" and "ok_request r" and "\<not> removal (tree_of N d) r"
    and "fst (fs_ops e r d) \<noteq> Inl Undef"
  shows "(holds_tree (tree_of N d) (crash k (fs_ops e r) d)
      \<or> holds_tree (nodes (snd (tree_ops e r (fsys_of N d)))) (crash k (fs_ops e r) d)
      \<or> in_write (tree_of N d) r (crash k (fs_ops e r) d))
    \<and> crash 0 (fs_ops e r) d = d \<and> (\<exists>n. \<forall>k\<ge>n. crash k (fs_ops e r) d = snd (fs_ops e r d))"
  using killed_survives [OF assms(1-4), of k] killed_ends [OF assms(1-4)] by (simp add: survives_def)

theorem killed_requests_are_atomic_witness:
  "holds_tree (tree_of sample_live sample) (crash 2 (fs_ops sample_env (Mkdir [47, 99] 0)) sample)
    \<or> holds_tree (nodes (snd (tree_ops sample_env (Mkdir [47, 99] 0) (fsys_of sample_live sample))))
        (crash 2 (fs_ops sample_env (Mkdir [47, 99] 0)) sample)"
  using killed_requests_are_atomic [OF sample_consistent sample_env_ok, of "Mkdir [47, 99] 0" 2]
    not_undef [OF sample_consistent sample_env_ok, of "Mkdir [47, 99] 0"]
  by (simp del: fs_ops.simps tree_ops.simps)

text \<open>
  C17. Requests with canonical paths in any order, each served, or stopped by its own failure, or
  killed between two block writes unless it is unlink, rmdir or truncate, and the image used
  again afterwards: as long as no request writes outside a C object (a rename to an overlong name
  does), every disk on the way is consistent.
\<close>

theorem killed_sessions_keep_consistency:
  assumes "life d0 d" and "consistent N d0"
  shows "\<exists>N'. consistent N' d"
  using assms by (rule life_consistent)

theorem killed_sessions_keep_consistency_witness:
  "\<exists>N'. consistent N' (snd (fs_ops sample_env (Unlink [47, 99]) (crash 2 (fs_ops sample_env (Create [47, 99] 0)) sample)))"
proof -
  have l: "life sample (crash 2 (fs_ops sample_env (Create [47, 99] 0)) sample)"
    by (intro killed [OF fresh sample_env_ok] not_undef [OF sample_consistent sample_env_ok]) simp_all
  then obtain N where N: "consistent N (crash 2 (fs_ops sample_env (Create [47, 99] 0)) sample)"
    using killed_sessions_keep_consistency [OF _ sample_consistent] by blast
  have "life sample (snd (fs_ops sample_env (Unlink [47, 99]) (crash 2 (fs_ops sample_env (Create [47, 99] 0)) sample)))"
    by (intro ran [OF l sample_env_ok] not_undef [OF N sample_env_ok]) simp_all
  then show ?thesis using killed_sessions_keep_consistency [OF _ sample_consistent] by blast
qed

section \<open>Any image, and the programs that use the file system\<close>

text \<open>
  C18. Requests of any kind, with any paths and on any image made of whole blocks, consistent or
  not: a session leaves whole blocks; its replies have the form of their requests, with a
  return code that is not negative or one of eight error numbers; read hands out at most the
  length asked for and returns the number of bytes, readdir lists at most 128 names.
\<close>

theorem requests_on_any_image:
  assumes "wf_disk d" and "list_all (\<lambda>r. wf_env (fst r)) rs"
  shows "wf_disk (snd (session rs d))
    \<and> (\<forall>xs. fst (session rs d) = Inr xs \<longrightarrow> list_all2 (\<lambda>r x. reply_ok (snd r) x) rs xs)"
  using typed_session [OF assms(2)] assms(1) by (simp add: gives_def)

theorem requests_on_any_image_witness:
  "wf_disk (snd (session [(sample_env, Read [1, 2, 3] 10 0), (sample_env, Mkdir [47, 47] 7)] sample))"
  using requests_on_any_image [of sample "[(sample_env, Read [1, 2, 3] 10 0), (sample_env, Mkdir [47, 47] 7)]"]
    sample_mountable
  by (simp add: mountable_def del: session.simps)

text \<open>
  C19. Every test of \<open>test2.c\<close> passes: run on the image \<open>gen-disk.py\<close> makes of \<open>disk2.in\<close>, with
  any values of the uninitialised variables, of \<open>random()\<close> and of the stack frames, no
  \<open>ck_assert\<close> fails, nothing stops the process, and the test ends. The clock must not run
  backwards and a test must take less than ten seconds.
\<close>

theorem unit_tests_pass:
  assumes "p \<in> set test2_suite" and "on_disk2 H" and "timed H" and "length (buf_0 u) = 3000"
  shows "fst (run H (p u) 0 d) = Done ()"
  using test2_suite_passes [OF assms(1)] assms(2-4) by (simp add: passes_def)

theorem unit_tests_pass_witness: "fst (run demo_host (mkdir_rmdir_1 demo_locals) 0 sample) = Done ()"
  by (rule unit_tests_pass) (simp_all add: test2_suite_def)

text \<open>
  C20. The test of \<open>write\<close>, for any file size the file system can hold: six files written in
  pieces of 1, 17, 4001, 4096, 5001 and 100000 bytes read back as they were written, and
  when they are removed as many blocks are free as before.
\<close>

theorem written_files_read_back:
  assumes "on_disk2 H" and "0 < n" and "n \<le> 4096 * 1019"
  shows "fst (run H (leaves_no_blocks u (do_write_test u n)) 0 d) = Done ()"
  using on_disk2_ready [OF assms(1)] assms(2,3) by (rule do_write_test_pass)

theorem written_files_read_back_witness:
  "fst (run demo_host (leaves_no_blocks demo_locals (do_write_test demo_locals 4173824)) 0 sample) = Done ()"
  by (rule written_files_read_back) simp_all

text \<open>
  C21. The tests of \<open>test1.c\<close> pass one after the other on the image \<open>gen-disk.py\<close> makes of
  \<open>disk1.in\<close>, with any bytes in the files that have the checksums of the table, any values of
  uninitialised variables and any contents of fresh memory.
\<close>

theorem sample_tests_pass:
  assumes "on_disk1 fill H" and "crc_ok crc32 fill" and "\<And>n. ok_heap (us n)"
  shows "fst (run H (bind init_fs (\<lambda>_. in_turn (test1_suite crc32) us)) 0 d) = Done ()"
  using assms by (rule suite1_passes)

theorem sample_tests_pass_witness:
  "fst (run demo_host1 (bind init_fs (\<lambda>_. in_turn (test1_suite demo_crc32) (\<lambda>n. demo_locals1))) 0 sample) = Done ()"
  by (rule sample_tests_pass [OF demo1_ok(1)]) simp_all

text \<open>
  C22. The suite of \<open>test1.c\<close> cannot be run twice on one image: when it has passed, its test
  \<open>getattr\<close> fails, because \<open>test_chmod\<close> leaves \<open>/dir2/file.4k+\<close> with mode 0666 instead of 0777.
\<close>

theorem sample_tests_spoil_image:
  assumes "on_disk1 fill H" and "crc_ok crc32 fill" and "\<And>n. ok_heap (us n)"
  shows "fst (run H (bind init_fs (\<lambda>_. bind (in_turn (test1_suite crc32) us) (\<lambda>_. getattr u))) 0 d) = Faulty Check_failed"
  using assms by (rule suite1_spoils)

theorem sample_tests_spoil_image_witness:
  "fst (run demo_host1 (bind init_fs (\<lambda>_. bind (in_turn (test1_suite demo_crc32) (\<lambda>n. demo_locals1)) (\<lambda>_. getattr demo_locals1)))
     0 sample) = Faulty Check_failed"
  by (rule sample_tests_spoil_image [OF demo1_ok(1)]) simp_all

text \<open>
  C23. The loop of \<open>read_n_at_a_time\<close>, on any file of any consistent disk and for any positive
  chunk: it ends, within \<open>len + 2\<close> rounds, and the buffer holds the whole file with the bytes
  behind it untouched.
\<close>

theorem files_read_in_pieces:
  assumes "wf_host H" and "canonical p" and "consistent N d" and "tree_of N d (comps p) = Some (File a c)"
    and "0 < chunk" and "length c \<le> length buf"
  shows "fst (run H (read_n_at_a_time p buf chunk (length c)) t d) = Done (c @ drop (length c) buf)"
  using assms by (rule reads_in_pieces)

theorem files_read_in_pieces_witness:
  "fst (run demo_host (read_n_at_a_time [47, 97] [1, 2, 3, 4, 5] 2 (length [104, 105, 10 :: byte])) 0 sample)
    = Done ([104, 105, 10] @ drop (length [104, 105, 10 :: byte]) [1, 2, 3, 4, 5])"
proof (rule files_read_in_pieces [OF _ _ sample_consistent])
  have "comps [47, 97] = [[97]]" using path_tokens [of "[[97]]"] by (simp add: comps_def sample_mkpath)
  then show "tree_of sample_live sample (comps [47, 97]) = Some (File (sample_attrs file_mode) [104, 105, 10])"
    by (simp add: tree_of_def node_at_def)
qed simp_all

text \<open>
  C24. The images \<open>gen-disk.py\<close> makes: when the lines it reads describe \<open>n\<close> blocks and well-formed
  items, whatever the bytes of the files, the image is consistent, it stands for the tree the
  items name, and its map has as many free bits as they leave.
\<close>

theorem generated_images_are_consistent:
  assumes "describe ls = Some (n, xs)" and "wf_items n xs" and "ok_fill fill"
  shows "\<exists>d. generated fill ls = Some d \<and> consistent (live xs) d
    \<and> nodes (fsys_of (live xs) d) (map cstr ss) = map_option (item_node fill) (lookup_item xs 2 ss)
    \<and> room (fsys_of (live xs) d) = 32766 - length (numbers xs)"
  using gen_disk_consistent [OF assms(2,3)] fsys_of_gen [OF assms(2,3)] by (simp add: generated_def assms(1))

text \<open>The witness reads \<open>disk1.in\<close>, with a concrete \<open>hash\<close> and concrete draws.\<close>

theorem generated_images_are_consistent_witness:
  "\<exists>d. generated (letter_block length (\<lambda>s i. (s + i) mod 51)) disk1_in = Some d \<and> consistent (live disk1_items) d
    \<and> nodes (fsys_of (live disk1_items) d) (map cstr [''dir2'', ''file.4k+''])
        = map_option (item_node (letter_block length (\<lambda>s i. (s + i) mod 51))) (lookup_item disk1_items 2 [''dir2'', ''file.4k+''])
    \<and> room (fsys_of (live disk1_items) d) = 32766 - length (numbers disk1_items)"
  by (rule generated_images_are_consistent [OF disk1_described disk1_wf letter_block_ok])

text \<open>
  C25. \<open>lab4fuse\<close>, started with an image that is consistent, when the loop of FUSE calls the
  operations it is given one at a time, \<open>init\<close> first and then what callers ask, who may choose each
  call by the replies before it. Served to the end, the replies are those of the tree specification to
  the very calls made, the image is consistent and stands for its tree, and the exit code is 0;
  stopped, the process stops at the call at which the specification stops, in the same way, and
  unless that is a write outside a C object the image is consistent and stands for its tree.
\<close>

theorem lab4fuse_serves:
  assumes "one_at_a_time fuse_main args n c" and "fuse_caller c" and "length argv = 4"
    and "fuse_opt_parse opts data_0 argv = Some (dat, args)" and "image_name dat = Some nm"
    and "block_init host nm = Inr d" and "consistent N d"
  shows "\<exists>log r d'. asked c log \<and> answered c n (fsys_of N d) log (r, d')
    \<and> lab4_main fuse_opt_parse host fuse_main argv s = (r, s\<lparr>image := Some d'\<rparr>)"
  using assms by (rule lab4_main_serves)

text \<open>The witness has a caller who unlinks \<open>/a\<close> if \<open>getattr\<close> has found it.\<close>

theorem lab4fuse_serves_witness:
  "\<exists>log r d'. asked (tidy_caller sample_env (inode2stat root_inode 2) [47, 97]) log \<and> answered (tidy_caller sample_env (inode2stat root_inode 2) [47, 97]) 9 (fsys_of sample_live sample) log (r, d')
    \<and> lab4_main (\<lambda>_ z argv. Some (z\<lparr>image_name := Some (argv ! 2)\<rparr>, [hd argv, last argv])) [[97, 46, 105, 109, 103] \<mapsto> sample]
          (\<lambda>args ops. andThen (fuse_session 9 ops (tidy_caller sample_env (inode2stat root_inode 2) [47, 97]) []) (\<lambda>log. ret 0))
          [[108], [45, 105], [97, 46, 105, 109, 103], [109]] \<lparr>printed = [], image = None\<rparr> =
        (r, \<lparr>printed = [], image = Some d'\<rparr>)"
proof -
  have "canonical [47, 97]" "[47, 97] \<noteq> [slash]" using demo_good by (simp_all add: demo_def good_def)
  note c = tidy_caller_ok [OF sample_env_ok this, of "inode2stat root_inode 2"]
  have i: "block_init [[97, 46, 105, 109, 103] \<mapsto> sample] [97, 46, 105, 109, 103] = Inr sample"
    by (simp add: block_init_def img_suffix_def)
  show ?thesis
    using lab4fuse_serves [where s = "\<lparr>printed = [], image = None\<rparr>" and nm = "[97, 46, 105, 109, 103]"
        and argv = "[[108], [45, 105], [97, 46, 105, 109, 103], [109]]" and host = "[[97, 46, 105, 109, 103] \<mapsto> sample]"
        and fuse_opt_parse = "\<lambda>_ z argv. Some (z\<lparr>image_name := Some (argv ! 2)\<rparr>, [hd argv, last argv])"
        and fuse_main = "\<lambda>args ops. andThen (fuse_session 9 ops (tidy_caller sample_env (inode2stat root_inode 2) [47, 97]) []) (\<lambda>log. ret 0)",
        OF _ c _ _ _ i sample_consistent, of "[[108], [109]]" 9]
    by (simp add: one_at_a_time_def)
qed

text \<open>
  C26. The system calls of \<open>block_read\<close> and \<open>block_write\<close>, one by one: a thread that no other
  thread disturbs ends with the code and the bytes the atomic operations give, and with the
  image they leave, the failed assertion included.
\<close>

theorem block_calls_alone:
  assumes "final t"
  shows "(runs_to ([Read_seek lba], D) ([t], D') \<longrightarrow>
      t = read_ends (block_read lba (contents D)) \<and> contents D' = contents D)
    \<and> (runs_to ([Write_assert lba buf], D) ([t], D') \<longrightarrow>
      (t, contents D') = (case block_write buf lba (contents D) of (r, d) \<Rightarrow> (write_ends r, d)))"
  using lone_read [OF _ assms] lone_write [OF _ assms] by blast

theorem block_calls_alone_witness:
  "read_ends (block_read 3 sample) = Returned 0 (Some (blk sample 3))
    \<and> runs_to ([Read_seek 3], \<lparr>position = 0, contents = sample\<rparr>)
        ([read_ends (block_read 3 sample)], \<lparr>position = 16384, contents = sample\<rparr>)"
proof -
  have "schedule [0, 0] ([Read_seek 3], \<lparr>position = 0, contents = sample\<rparr>)
      = Some ([Returned 0 (Some (blk sample 3))], \<lparr>position = 16384, contents = sample\<rparr>)"
    by (simp add: sys_lseek_def byte_start_small sys_read_def get_block_def) (simp add: sample_def)
  then have r: "runs_to ([Read_seek 3], \<lparr>position = 0, contents = sample\<rparr>)
      ([Returned 0 (Some (blk sample 3))], \<lparr>position = 16384, contents = sample\<rparr>)" by (rule schedule_runs)
  from block_calls_alone [of "Returned 0 (Some (blk sample 3))" 3 "\<lparr>position = 0, contents = sample\<rparr>" "\<lparr>position = 16384, contents = sample\<rparr>"]
  show ?thesis using r by simp
qed

text \<open>
  C27. Two threads, which \<open>fuse_main\<close> may run: when thread 1 positions the shared descriptor
  between the calls of thread 0, a read of block \<open>a\<close> returns block \<open>b\<close> with code 0, and a write
  of block \<open>a\<close> changes block \<open>b\<close> with code 0, also when \<open>b\<close> is the superblock.
\<close>

theorem block_calls_race:
  assumes "0 < a" and "a < 2 ^ 19 - 1" and "0 \<le> b" and "b < 2 ^ 19" and "nat b < nblks d"
  shows "(\<exists>p. runs_to ([Read_seek a, Read_seek b], \<lparr>position = 0, contents = d\<rparr>)
        ([Returned 0 (Some (blk d (nat b))), Read_call], \<lparr>position = p, contents = d\<rparr>))
    \<and> (\<exists>p. runs_to ([Write_assert a buf, Read_seek b], \<lparr>position = 0, contents = d\<rparr>)
        ([Returned 0 None, Read_call], \<lparr>position = p, contents = put_block (nat b) buf d\<rparr>))"
  using assms by (rule races)

theorem block_calls_race_witness:
  "\<exists>p. runs_to ([Write_assert 5 [1, 2], Read_seek 0], \<lparr>position = 0, contents = sample\<rparr>)
        ([Returned 0 None, Read_call], \<lparr>position = p, contents = put_block 0 [1, 2] sample\<rparr>)"
  using block_calls_race [of 5 0 sample "[1, 2]"] by (simp add: sample_def)

text \<open>
  C28. Two calls of the allocator in two threads, block operations being single steps: one after
  the other they return different free blocks; when both have read the map before one has written
  it, both return the same block, and one bit is set.
\<close>

theorem allocations_race:
  assumes "mountable d" and "2 \<le> card (free_set d)"
  shows "(\<exists>d' x y. alloc_schedule e [0, 0, 1, 1] ([Alloc_read, Alloc_read], d) =
        Some ([Alloc_returned (int x), Alloc_returned (int y)], d') \<and> x \<noteq> y \<and> free_set d' = free_set d - {x, y})
    \<and> (\<exists>d'. alloc_schedule e [0, 1, 0, 1] ([Alloc_read, Alloc_read], d) =
        Some ([Alloc_returned (int (Min (free_set d))), Alloc_returned (int (Min (free_set d)))], d')
        \<and> free_set d' = free_set d - {Min (free_set d)})"
  using alloc_in_turn [OF assms] alloc_race [OF assms(1)] assms(2) by fastforce

theorem allocations_race_witness:
  "\<exists>d'. alloc_schedule sample_env [0, 1, 0, 1] ([Alloc_read, Alloc_read], sample) =
      Some ([Alloc_returned 11, Alloc_returned 11], d') \<and> free_set d' = free_set sample - {11}"
proof -
  have "Min {11..<32768 :: nat} = 11" by (rule Min_eqI) auto
  then show ?thesis
    using allocations_race [OF sample_mountable, of sample_env] by (simp add: sample_free del: alloc_schedule.simps)
qed

section \<open>Paths, attributes and queries\<close>

text \<open>
  C29. Path resolution: on a consistent disk \<open>path2inum\<close> returns the number of the object the
  components name, and where the walk fails the error number \<open>resolve\<close> gives. The
  parent path that create, unlink and rename cut off resolves to the parent.
\<close>

theorem path2inum_resolves:
  assumes "consistent N d" and "ok_path toks"
  shows "path2inum (mkpath toks) d = (Inr (resolve (absfs N d) (1 < length toks) 2 toks), d)
    \<and> path2inum (parent_path (mkpath toks) toks) d = (Inr (resolve (absfs N d) (2 < length toks) 2 (butlast toks)), d)"
  using path2inum_mkpath [OF assms] path2inum_parent [OF assms] by simp

theorem path2inum_resolves_witness:
  "path2inum (mkpath [[100], [98]]) sample = (Inr 8, sample)
   \<and> path2inum (parent_path (mkpath [[100], [98]]) [[100], [98]]) sample = (Inr 6, sample)"
  using path2inum_resolves [OF sample_consistent, of "[[100], [98]]"] by simp

text \<open>
  C30. \<open>fs_getattr\<close> reports, for every path, the attributes, size and block count of the object
  it names, or the code of the walk, and does not change the disk.
\<close>

theorem getattr_reports:
  assumes "consistent N d" and "ok_fuse toks"
  shows "fs_getattr (fuse_path toks) sb d = (Inr (case alookup (absfs N d) 2 toks of
      Some n \<Rightarrow> (0, ostat n (the (absfs N d n)))
    | None \<Rightarrow> (resolve (absfs N d) (1 < length toks) 2 toks, sb)), d)"
  using assms by (rule fs_getattr_run)

theorem getattr_reports_witness:
  "fs_getattr (fuse_path [[97]]) (inode2stat root_inode 2) sample =
    (Inr (0, ostat 4 (AFile (sample_attrs file_mode) [104, 105, 10])), sample)"
  using getattr_reports [OF sample_consistent, of "[[97]]" "inode2stat root_inode 2"]
  by (simp add: ok_fuse_def)

text \<open>
  C31. \<open>fs_readdir\<close> of a directory calls the filler once for every entry, with the attributes
  of the object the entry names.
\<close>

theorem readdir_lists_entries:
  assumes "consistent N d" and "ok_fuse toks"
    and "alookup (absfs N d) 2 toks = Some n" and "absfs N d n = Some (ADir a s m)"
  shows "\<exists>calls. fs_readdir (fuse_path toks) d = (Inr (0, calls), d) \<and> distinct (map fst calls)
    \<and> map_of calls = (\<lambda>t. map_option (\<lambda>k. ostat k (the (absfs N d k))) (m t))"
  using assms by (rule fs_readdir_run)

theorem readdir_lists_entries_witness:
  "\<exists>calls. fs_readdir (fuse_path [[100]]) sample = (Inr (0, calls), sample) \<and> distinct (map fst calls)
    \<and> map_of calls = (\<lambda>t. map_option (\<lambda>k. ostat k (the (absfs sample_live sample k))) (([[98] \<mapsto> 8] :: cstring \<Rightarrow> nat option) t))"
  by (rule readdir_lists_entries [OF sample_consistent, of _ 6 "sample_attrs dir_mode" 4096]) (auto simp: ok_fuse_def)

section \<open>The allocator and the layout\<close>

text \<open>
  C32. \<open>alloc_blk\<close> hands out the least free block and marks it; with none free it returns
  \<open>-ENOSPC\<close> and changes nothing. Only the map block changes.
\<close>

theorem alloc_takes_least:
  assumes "mountable d"
  shows "if free_set d = {} then alloc_blk e d = (Inr (- ENOSPC), d)
    else \<exists>d'. alloc_blk e d = (Inr (int (Min (free_set d))), d') \<and> free_set d' = free_set d - {Min (free_set d)}
      \<and> nblks d' = nblks d \<and> (\<forall>b. b \<noteq> 1 \<longrightarrow> blk d' b = blk d b)"
  using assms by (rule alloc_blk_least)

theorem alloc_takes_least_witness:
  "\<exists>d'. alloc_blk sample_env sample = (Inr (int (Min (free_set sample))), d')
      \<and> free_set d' = free_set sample - {Min (free_set sample)}
      \<and> nblks d' = nblks sample \<and> (\<forall>b. b \<noteq> 1 \<longrightarrow> blk d' b = blk sample b)"
  using alloc_takes_least [OF sample_mountable, of sample_env] by (simp add: sample_free)

text \<open>
  C33. The layout of \<open>fs5600.h\<close> in a block of 4096 bytes. The members of an inode are the little-endian
  numbers at bytes 0, 2, 4, 8, 12, 16 (\<open>size\<close> is signed) and pointer \<open>k\<close> is at byte \<open>20 + 4k\<close>; entry \<open>j\<close>
  of a directory has its \<open>valid\<close> bit in the lowest bit of the number at byte \<open>32j\<close>, the inode number
  in the other 31, and the name in the 28 bytes behind; magic and size of the superblock are at
  bytes 0 and 4. Writing a structure back gives the same bytes, and reading what was written
  the same structure.
\<close>

theorem layout_round_trips:
  assumes "length b = 4096"
  shows "unat (uid (decode_inode b)) = field_at 0 2 b \<and> unat (gid (decode_inode b)) = field_at 2 2 b
    \<and> unat (mode (decode_inode b)) = field_at 4 4 b \<and> unat (ctime (decode_inode b)) = field_at 8 4 b
    \<and> unat (mtime (decode_inode b)) = field_at 12 4 b
    \<and> sint (size_i (decode_inode b)) =
        (if field_at 16 4 b < 2 ^ 31 then int (field_at 16 4 b) else int (field_at 16 4 b) - 2 ^ 32)
    \<and> (\<forall>k<1019. unat (ptrs (decode_inode b) ! k) = field_at (20 + 4 * k) 4 b)
    \<and> (\<forall>j<128. (valid (decode_dirs b ! j) \<longleftrightarrow> odd (field_at (32 * j) 4 b))
        \<and> unat (inode (decode_dirs b ! j)) = field_at (32 * j) 4 b div 2
        \<and> name (decode_dirs b ! j) = take 28 (drop (32 * j + 4) b))
    \<and> unat (magic (decode_super b)) = field_at 0 4 b \<and> unat (disk_size (decode_super b)) = field_at 4 4 b
    \<and> encode_inode (decode_inode b) = b \<and> encode_dirs (decode_dirs b) = b \<and> encode_super (decode_super b) = b
    \<and> (ok_inode i \<longrightarrow> decode_inode (encode_inode i) = i) \<and> (ok_dirs ds \<longrightarrow> decode_dirs (encode_dirs ds) = ds)
    \<and> (ok_super s \<longrightarrow> decode_super (encode_super s) = s)"
  using assms
  by (simp add: inode_offsets size_signed ptr_offset dirent_offsets super_offsets inode_codec.dec_enc dirs_codec.dec_enc
      super_codec.dec_enc inode_codec.enc_dec dirs_codec.enc_dec super_codec.enc_dec)

text \<open>The witness reads the block of the bytes 0, 1, ..., 255, 0, 1, and so on.\<close>

theorem layout_round_trips_witness:
  "let b = map word_of_nat [0..<4096] in
     unat (uid (decode_inode b)) = 0x0100 \<and> unat (gid (decode_inode b)) = 0x0302 \<and> unat (ctime (decode_inode b)) = 0x0B0A0908
     \<and> unat (mtime (decode_inode b)) = 0x0F0E0D0C \<and> unat (ptrs (decode_inode b) ! 1) = 0x1B1A1918
     \<and> \<not> valid (decode_dirs b ! 1) \<and> unat (inode (decode_dirs b ! 1)) = 0x11911090 \<and> encode_inode (decode_inode b) = b"
proof -
  define b :: "byte list" where "b = map word_of_nat [0..<4096]"
  have n: "length b = 4096" by (simp add: b_def)
  have b: "unat (b ! k) = k mod 256" if "k < 4096" for k
    using that by (simp add: b_def unsigned_of_nat take_bit_eq_mod del: upt_conv_Cons)
  have f: "field_at 0 2 b = 0x0100" "field_at 2 2 b = 0x0302" "field_at 8 4 b = 0x0B0A0908" "field_at 12 4 b = 0x0F0E0D0C"
    "field_at 24 4 b = 0x1B1A1918" "field_at 32 4 b = 0x23222120"
    by (simp_all add: field_at_2 field_at_4 b)
  have less: "(1 :: nat) < 1019" "(1 :: nat) < 128" by simp_all
  note L = layout_round_trips [OF n]
  have "unat (ptrs (decode_inode b) ! 1) = field_at (20 + 4 * 1) 4 b"
    using L less by blast
  moreover have "valid (decode_dirs b ! 1) \<longleftrightarrow> odd (field_at (32 * 1) 4 b)" "unat (inode (decode_dirs b ! 1)) = field_at (32 * 1) 4 b div 2"
    using L less by blast+
  ultimately show ?thesis
    unfolding Let_def b_def [symmetric] using L by (simp only: f) (simp add: f)
qed

text \<open>
  C34. The loop of \<open>_do_write\<close> ends for every positive block size, on any disk and whatever the
  file system answers: it returns, or stops at a failed check or with the process. The bound
  on its rounds, \<open>len\<close>, is never used up.
\<close>

theorem do_write_terminates:
  assumes "0 < blksiz"
  shows "fst (run H (do_write path p len blksiz) t d) \<noteq> Faulty Endless"
  using assms by (rule do_write_ends)

theorem do_write_terminates_witness:
  "fst (run demo_host (do_write [47, 97] [1, 2, 3] 3 2) 0 sample) \<noteq> Faulty Endless"
  by (rule do_write_terminates) simp

section \<open>Error codes, and when space runs out\<close>

text \<open>
  C35. Where the missing name is the last component of a path with more than one, the walk
  returns \<open>-ENOTDIR\<close> although its parent is a directory; in the root directory it is
  \<open>-ENOENT\<close>. The comment above \<open>path2inum\<close> asks for \<open>ENOENT\<close> in both cases.
\<close>

theorem missing_name_below_root:
  assumes "consistent N d" and "ok_path toks" and "length (last toks) \<le> 27"
    and "alookup (absfs N d) 2 (butlast toks) = Some p" and "is_adir (absfs N d p)"
    and "alookup (absfs N d) 2 toks = None"
  shows "fs_getattr (mkpath toks) sb d = (Inr (if 1 < length toks then - ENOTDIR else - ENOENT, sb), d)"
  using assms by (rule getattr_missing_name)

theorem missing_name_below_root_witness:
  "fs_getattr (mkpath [[100], [99]]) (inode2stat root_inode 2) sample = (Inr (- 20, inode2stat root_inode 2), sample)
   \<and> is_adir (absfs sample_live sample 6)"
  using missing_name_below_root [OF sample_consistent, of "[[100], [99]]" 6 "inode2stat root_inode 2"] by simp

text \<open>
  C36. A write that needs more blocks than are free does not return \<open>-ENOSPC\<close>: the process
  dies in the assertion of \<open>block_write\<close>. Every free block has been marked by then, so
  none is left; the file keeps its length, its old bytes are overwritten.
\<close>

theorem write_aborts_when_full:
  assumes "consistent N d" and "ok_path toks" and "wf_env e"
    and "alookup (absfs N d) 2 toks = Some n" and "absfs N d n = Some (AFile a c)"
    and "off \<le> length c" and "off + length buf \<le> 4096 * 1019"
    and "\<not> room_for d (length c) (off + length buf)"
  shows "\<exists>d'. fs_write e (mkpath toks) buf off d = (Inl Abort, d') \<and> consistent N d' \<and> free_set d' = {}
    \<and> absfs N d' = (absfs N d)(n \<mapsto> AFile a (take (length c) (splice off buf c)))"
  using fs_write_full [OF assms] by blast

theorem write_aborts_when_full_witness:
  "\<exists>d'. fs_write sample_env (mkpath [[100], [98]]) [120] 0 sample_full = (Inl Abort, d') \<and> consistent sample_live d'
    \<and> free_set d' = {}
    \<and> absfs sample_live d' = (absfs sample_live sample_full)(8 \<mapsto> AFile (sample_attrs file_mode) [])"
  using write_aborts_when_full [OF full_consistent, of "[[100], [98]]" sample_env 8 "sample_attrs file_mode" "[]" 0 "[120]"]
  by (simp add: room_for_def blocks_for_def full_free del: absfs_in)

text \<open>
  C37. create without a free block, and mkdir without two, kill the process in the same assertion;
  the documented \<open>-ENOSPC\<close> is not returned. mkdir loses the one block it got.
\<close>

theorem new_object_aborts_when_full:
  assumes "consistent N d" and "ok_path toks" and "new_error (absfs N d) toks = None"
  shows "(free_set d = {} \<longrightarrow> fs_create e (mkpath toks) m d = (Inl Abort, d))
    \<and> (card (free_set d) < 2 \<longrightarrow> (\<exists>d'. fs_mkdir e (mkpath toks) m d = (Inl Abort, d') \<and> consistent N d'
          \<and> absfs N d' = absfs N d \<and> free_set d' = {}))"
  using fs_create_full [OF assms] fs_mkdir_full [OF assms] by blast

theorem new_object_aborts_when_full_witness:
  "fs_create sample_env (mkpath [[99]]) 0 sample_full = (Inl Abort, sample_full)"
  using new_object_aborts_when_full [OF full_consistent, of "[[99]]" sample_env 0]
  by (simp add: new_error_def full_free)

text \<open>
  C38. create in a directory without a free slot returns \<open>-EINVAL\<close> and loses a block: the new
  object stays marked in the map, but no entry names it.
\<close>

theorem create_without_slot_loses_block:
  assumes "consistent N d" and "ok_path toks"
    and "new_error (absfs N d) toks = None" and "alookup (absfs N d) 2 (butlast toks) = Some p"
    and "free_set d \<noteq> {}" and "\<not> free_slot d p"
  shows "\<exists>d'. fs_create e (mkpath toks) m d = (Inr (- EINVAL), d') \<and> consistent N d'
    \<and> absfs N d' = absfs N d \<and> free_set d' = free_set d - {Min (free_set d)}"
  using fs_create_no_slot [OF assms] by blast

theorem create_without_slot_loses_block_witness:
  "\<exists>d'. fs_create sample_env (mkpath [[97]]) 0 crowded = (Inr (- 22), d') \<and> consistent crowd_live d'
    \<and> absfs crowd_live d' = absfs crowd_live crowded \<and> free_set d' = free_set crowded - {Min (free_set crowded)}"
  by (rule create_without_slot_loses_block [OF crowd_consistent, of _ 2])
     (simp_all add: new_error_def crowd_missing crowd_no_slot crowd_free crowd_root crowd_lookup)

text \<open>
  C39. rename to a name of 28 bytes or more passes all checks and copies past the end of the
  entry's name: the behaviour is undefined.
\<close>

theorem rename_overflows_long_name:
  assumes "consistent N d" and "ok_path src" and "ok_path dst"
    and "rename_error (absfs N d) src dst = None" and "28 \<le> length (last dst)"
  shows "fs_rename (mkpath src) (mkpath dst) d = (Inl Undef, d)"
  using assms by (rule fs_rename_long)

theorem rename_overflows_long_name_witness:
  "fs_rename (mkpath [[97]]) (mkpath [replicate 28 120]) sample = (Inl Undef, sample)"
  by (rule rename_overflows_long_name [OF sample_consistent])
     (simp_all add: rename_error_def ok_path_def ok_token_def mkpath_def long_name)

text \<open>
  C40. The allocator does not know the size of the disk: with every block of it in use, create
  succeeds on a block behind the end, and the image file grows past \<open>disk_size\<close>.
\<close>

theorem create_grows_full_disk:
  assumes "consistent N d" and "ok_path toks"
    and "new_error (absfs N d) toks = None" and "alookup (absfs N d) 2 (butlast toks) = Some p"
    and "free_slot d p" and "free_set d \<noteq> {}"
    and "\<forall>i\<in>free_set d. unat (disk_size (decode_super (blk d 0))) \<le> i"
  shows "\<exists>d' x. fs_create e (mkpath toks) m d = (Inr 0, d') \<and> x = Min (free_set d)
    \<and> unat (disk_size (decode_super (blk d 0))) \<le> x \<and> x < nblks d'"
  using assms by (rule create_past_end)

theorem create_grows_full_disk_witness:
  "\<exists>d' x. fs_create sample_env (mkpath [[99]]) 0 sample_tight = (Inr 0, d') \<and> x = Min (free_set sample_tight)
    \<and> 11 \<le> x \<and> x < nblks d'"
  using create_grows_full_disk [OF tight_consistent, of "[[99]]" 2 sample_env 0]
  by (simp add: new_error_def tight_free tight_slot tight_super)

end
